(* ===== verification/Prelude.thy ===== *)
theory Prelude
  imports Main "HOL-Library.Word"
begin

text \<open>
  What the theories of the development share: the JavaScript values the code computes with
  (bytes, insertion-ordered objects, arrays with \<open>undefined\<close> holes), exceptions as values,
  and the effects of the asynchronous handlers (HTTP requests and random bytes) as an explicit
  world that is passed through them.

  A HOL \<^typ>\<open>string\<close> stands for a JavaScript string by its UTF-8 encoding, so
  \<open>TextEncoder\<close> and \<open>TextDecoder\<close> (\<open>stringToBytes\<close>, \<open>bytesToString\<close> of talerCrypto.ts) only
  change the type of the characters.
\<close>

named_theorems js_simps \<open>evaluation of the modelled JavaScript operations\<close>
named_theorems io_simps \<open>evaluation of effectful programs\<close>

section \<open>Bytes and strings\<close>

type_synonym bytes = "8 word list"

definition stringToBytes :: "string \<Rightarrow> bytes" where
  "stringToBytes s = map of_char s"

definition bytesToString :: "bytes \<Rightarrow> string" where
  "bytesToString b = map (\<lambda>w. char_of (unat w)) b"

lemma of_char_word8: "(of_char c :: 8 word) = word_of_nat (of_char c)"
  by (metis of_nat_of_char)

lemma unat_of_char_word8 [simp]: "unat (of_char c :: 8 word) = of_char c"
proof -
  have "(of_char c :: nat) = of_char c mod 256"
    by (metis char_of_char of_char_of)
  then have "(of_char c :: nat) < 256"
    by (metis mod_less_divisor zero_less_numeral)
  then show ?thesis
    by (simp add: of_char_word8 unat_of_nat take_bit_nat_eq_self)
qed

lemma bytesToString_stringToBytes [simp]: "bytesToString (stringToBytes s) = s"
  by (induction s) (auto simp: bytesToString_def stringToBytes_def)

lemma stringToBytes_inj: "inj stringToBytes"
  by (rule inj_on_inverseI [where g = bytesToString]) simp

lemma length_stringToBytes [simp]: "length (stringToBytes s) = length s"
  by (simp add: stringToBytes_def)

section \<open>Exceptions as values\<close>

text \<open>
  \<open>ErrorDetails\<close> of anastasis-core/src/index.ts: the payload of a \<open>ReducerError\<close>, and (with
  the optional \<open>http_status\<close> some results carry) the error state a reducer call returns.
\<close>

record error_details =
  ed_code :: nat
  ed_hint :: "string option"
  ed_message :: "string option"
  ed_http_status :: "nat option"

text \<open>
  What a call can throw. \<open>IllTyped\<close> marks an argument of \<open>any\<close> type whose shape the
  TypeScript interface of the handler excludes: such calls are outside the modelled domain.
\<close>

datatype js_exn =
    ReducerError error_details
  | JsError string
  | JsThrow string
  | TypeError
  | SyntaxError
  | EncodingError
  | DecodingError string
  | IllTyped

type_synonym 'a js = "js_exn + 'a"

definition js_bind :: "'a js \<Rightarrow> ('a \<Rightarrow> 'b js) \<Rightarrow> 'b js" where
  "js_bind m f = (case m of Inl e \<Rightarrow> Inl e | Inr x \<Rightarrow> f x)"

lemma js_bind_simps [simp, js_simps]:
  "js_bind (Inl e) f = Inl e"
  "js_bind (Inr x) f = f x"
  by (simp_all add: js_bind_def)

lemma js_bind_Inr_iff: "js_bind m f = Inr y \<longleftrightarrow> (\<exists>x. m = Inr x \<and> f x = Inr y)"
  by (cases m) auto

lemma js_bind_Inl_iff:
  "js_bind m f = Inl e \<longleftrightarrow> m = Inl e \<or> (\<exists>x. m = Inr x \<and> f x = Inl e)"
  by (cases m) auto

lemma js_bind_cong [fundef_cong]:
  "m = m' \<Longrightarrow> (\<And>x. m' = Inr x \<Longrightarrow> f x = g x) \<Longrightarrow> js_bind m f = js_bind m' g"
  by (cases m') auto

text \<open>Reading a property or an element of a value that may be \<open>undefined\<close>.\<close>

definition js_the :: "'a option \<Rightarrow> 'a js" where
  "js_the x = (case x of None \<Rightarrow> Inl TypeError | Some v \<Rightarrow> Inr v)"

lemma js_the_simps [simp, js_simps]:
  "js_the None = Inl TypeError"
  "js_the (Some v) = Inr v"
  by (simp_all add: js_the_def)

lemma js_the_Inr_iff [simp]: "js_the x = Inr v \<longleftrightarrow> x = Some v"
  by (cases x) auto

text \<open>\<open>for (const x of xs) { ... }\<close> with an accumulator and a body that may throw.\<close>

fun js_fold :: "('a \<Rightarrow> 's \<Rightarrow> 's js) \<Rightarrow> 'a list \<Rightarrow> 's \<Rightarrow> 's js" where
  "js_fold f [] s = Inr s"
| "js_fold f (x # xs) s = js_bind (f x s) (js_fold f xs)"

fun js_map :: "('a \<Rightarrow> 'b js) \<Rightarrow> 'a list \<Rightarrow> 'b list js" where
  "js_map f [] = Inr []"
| "js_map f (x # xs) = js_bind (f x) (\<lambda>y. js_bind (js_map f xs) (\<lambda>ys. Inr (y # ys)))"

lemma js_map_Inr: "(\<And>x. x \<in> set xs \<Longrightarrow> f x = Inr (g x)) \<Longrightarrow> js_map f xs = Inr (map g xs)"
  by (induction xs) auto

lemma js_map_length: "js_map f xs = Inr ys \<Longrightarrow> length ys = length xs"
  by (induction xs arbitrary: ys) (auto simp: js_bind_Inr_iff)

lemma js_fold_append: "js_fold f (xs @ ys) s = js_bind (js_fold f xs s) (js_fold f ys)"
proof (induction xs arbitrary: s)
  case (Cons x xs)
  then show ?case by (cases "f x s") auto
qed simp

lemma js_fold_inv:
  assumes "js_fold f xs s = Inr t" and "P s"
    and "\<And>x u v. x \<in> set xs \<Longrightarrow> P u \<Longrightarrow> f x u = Inr v \<Longrightarrow> P v"
  shows "P t"
  using assms
proof (induction xs arbitrary: s)
  case (Cons x xs)
  then obtain u where u: "f x s = Inr u" "js_fold f xs u = Inr t"
    by (auto simp: js_bind_Inr_iff)
  with Cons.prems have "P u" by auto
  with u Cons.IH Cons.prems(3) show ?case by (meson list.set_intros(2))
qed simp

section \<open>Objects and arrays\<close>

text \<open>
  A plain object used as a dictionary keeps its keys in insertion order (the keys the code uses
  are URLs, identifiers and \<open>index:url\<close> pairs, none of them integer-like): an association list.
\<close>

type_synonym 'a obj = "(string \<times> 'a) list"

definition js_get :: "'a obj \<Rightarrow> string \<Rightarrow> 'a option" where
  "js_get d k = map_of d k"

fun js_put :: "string \<Rightarrow> 'a \<Rightarrow> 'a obj \<Rightarrow> 'a obj" where
  "js_put k v [] = [(k, v)]"
| "js_put k v ((k', v') # d) = (if k = k' then (k, v) # d else (k', v') # js_put k v d)"

definition js_del :: "string \<Rightarrow> 'a obj \<Rightarrow> 'a obj" where
  "js_del k d = filter (\<lambda>(k', _). k' \<noteq> k) d"

definition js_keys :: "'a obj \<Rightarrow> string list" where
  "js_keys d = map fst d"

definition js_obj :: "'a obj \<Rightarrow> bool" where
  "js_obj d \<longleftrightarrow> distinct (map fst d)"

text \<open>
  The contract the reducer uses: reading after a write or a delete, and the order in which
  \<open>Object.keys\<close> lists the properties.
\<close>

locale js_dict =
  fixes get :: "'d \<Rightarrow> string \<Rightarrow> 'v option"
    and put :: "string \<Rightarrow> 'v \<Rightarrow> 'd \<Rightarrow> 'd"
    and del :: "string \<Rightarrow> 'd \<Rightarrow> 'd"
    and keys :: "'d \<Rightarrow> string list"
  assumes get_put: "get (put k v d) k' = (if k' = k then Some v else get d k')"
    and keys_put: "keys (put k v d) = (if k \<in> set (keys d) then keys d else keys d @ [k])"
    and get_del: "get (del k d) k' = (if k' = k then None else get d k')"
    and keys_del: "keys (del k d) = filter (\<lambda>x. x \<noteq> k) (keys d)"
    and keys_get: "k \<in> set (keys d) \<longleftrightarrow> get d k \<noteq> None"
begin

lemma set_keys_put: "set (keys (put k v d)) = insert k (set (keys d))"
  by (auto simp: keys_put)

lemma distinct_keys_put: "distinct (keys d) \<Longrightarrow> distinct (keys (put k v d))"
  by (auto simp: keys_put)

lemma distinct_keys_del: "distinct (keys d) \<Longrightarrow> distinct (keys (del k d))"
  by (simp add: keys_del)

lemma get_fold_put:
  "get (fold (\<lambda>k. put k (f k)) ks d) k' = (if k' \<in> set ks then Some (f k') else get d k')"
  by (induction ks arbitrary: d) (auto simp: get_put)

lemma keys_fold_put_subset:
  "set ks \<subseteq> set (keys d) \<Longrightarrow> keys (fold (\<lambda>k. put k (f k)) ks d) = keys d"
  by (induction ks arbitrary: d) (auto simp: keys_put)

lemma set_keys_fold_put: "set (keys (fold (\<lambda>k. put k (f k)) ks d)) = set ks \<union> set (keys d)"
  by (induction ks arbitrary: d) (auto simp: set_keys_put)

lemma put_del_get: "get (put k v (del k d)) k' = get (put k v d) k'"
  by (simp add: get_put get_del)

end

lemma js_get_put: "js_get (js_put k v d) k' = (if k' = k then Some v else js_get d k')"
  by (induction d) (auto simp: js_get_def)

lemma js_keys_put:
  "js_keys (js_put k v d) = (if k \<in> set (js_keys d) then js_keys d else js_keys d @ [k])"
  by (induction d) (auto simp: js_keys_def rev_image_eqI)

lemma js_get_del: "js_get (js_del k d) k' = (if k' = k then None else js_get d k')"
  by (induction d) (auto simp: js_get_def js_del_def)

lemma js_keys_del: "js_keys (js_del k d) = filter (\<lambda>x. x \<noteq> k) (js_keys d)"
  by (induction d) (auto simp: js_keys_def js_del_def)

lemma js_keys_get: "k \<in> set (js_keys d) \<longleftrightarrow> js_get d k \<noteq> None"
  by (induction d) (auto simp: js_keys_def js_get_def)

interpretation obj: js_dict js_get js_put js_del js_keys
  by unfold_locales (simp_all add: js_get_put js_keys_put js_get_del js_keys_del js_keys_get)

lemmas js_dict_simps [js_simps] = js_get_put js_get_del js_keys_put js_keys_del

lemma js_get_Nil [simp, js_simps]: "js_get [] k = None"
  by (simp add: js_get_def)

lemma js_get_Cons [js_simps]: "js_get ((k', v) # d) k = (if k = k' then Some v else js_get d k)"
  by (simp add: js_get_def)

text \<open>
  \<open>xs.splice(i, 1)\<close>: a negative index counts from the end, an index past the end removes nothing.
  \<open>xs[i] = v\<close>: writing past the end extends the array with \<open>undefined\<close> holes; a negative index sets
  a property of the array object that no iteration sees.
\<close>

definition js_splice1 :: "int \<Rightarrow> 'a list \<Rightarrow> 'a list" where
  "js_splice1 i xs =
     (let n = int (length xs); j = nat (if i < 0 then max (n + i) 0 else min i n)
      in take j xs @ drop (Suc j) xs)"

definition js_array_set :: "int \<Rightarrow> 'a \<Rightarrow> 'a option list \<Rightarrow> 'a option list" where
  "js_array_set i v xs =
     (if i < 0 then xs
      else (xs @ replicate (Suc (nat i) - length xs) None)[nat i := Some v])"

definition js_index :: "'a list \<Rightarrow> int \<Rightarrow> 'a option" where
  "js_index xs i = (if 0 \<le> i \<and> i < int (length xs) then Some (xs ! nat i) else None)"

lemma length_js_splice1:
  "length (js_splice1 i xs) = length xs - (if i < int (length xs) \<and> xs \<noteq> [] then 1 else 0)"
  by (auto simp: js_splice1_def Let_def)

lemma set_js_splice1: "set (js_splice1 i xs) \<subseteq> set xs"
  by (auto simp: js_splice1_def Let_def dest: in_set_takeD in_set_dropD)

lemma js_splice1_nth:
  "i < length xs \<Longrightarrow> js_splice1 (int i) xs = take i xs @ drop (Suc i) xs"
  by (simp add: js_splice1_def Let_def min_def)

lemma js_index_Some: "js_index xs i = Some x \<Longrightarrow> x \<in> set xs"
  by (auto simp: js_index_def split: if_splits)

lemma js_index_nat [simp]: "js_index xs (int i) = (if i < length xs then Some (xs ! i) else None)"
  by (simp add: js_index_def)

section \<open>Decimal numerals\<close>

text \<open>\<open>n.toString()\<close> of a non-negative integer and \<open>Number.parseInt\<close> of a digit string.\<close>

definition digit_char :: "nat \<Rightarrow> char" where
  "digit_char d = char_of (48 + d)"

definition is_digit :: "char \<Rightarrow> bool" where
  "is_digit c \<longleftrightarrow> 48 \<le> (of_char c :: nat) \<and> (of_char c :: nat) \<le> 57"

definition digit_val :: "char \<Rightarrow> nat" where
  "digit_val c = of_char c - 48"

fun nat_str :: "nat \<Rightarrow> string" where
  "nat_str n = (if n < 10 then [digit_char n] else nat_str (n div 10) @ [digit_char (n mod 10)])"

definition str_nat :: "string \<Rightarrow> nat" where
  "str_nat s = foldl (\<lambda>a c. 10 * a + digit_val c) 0 s"

declare nat_str.simps [simp del]

lemma of_char_digit_char: "d < 10 \<Longrightarrow> (of_char (digit_char d) :: nat) = 48 + d"
  by (simp add: digit_char_def)

lemma digit_val_digit_char [simp]: "d < 10 \<Longrightarrow> digit_val (digit_char d) = d"
  by (simp add: digit_val_def of_char_digit_char)

lemma is_digit_digit_char [simp]: "d < 10 \<Longrightarrow> is_digit (digit_char d)"
  by (simp add: is_digit_def of_char_digit_char)

lemma str_nat_Nil [simp]: "str_nat [] = 0"
  by (simp add: str_nat_def)

lemma str_nat_snoc: "str_nat (s @ [c]) = 10 * str_nat s + digit_val c"
  by (simp add: str_nat_def)

lemma str_nat_nat_str [simp]: "str_nat (nat_str n) = n"
proof (induction n rule: nat_str.induct)
  case (1 n)
  then show ?case
    by (cases "n < 10") (simp_all add: nat_str.simps [of n] str_nat_snoc, simp add: str_nat_def)
qed

lemma nat_str_digits: "c \<in> set (nat_str n) \<Longrightarrow> is_digit c"
proof (induction n rule: nat_str.induct)
  case (1 n)
  then show ?case by (cases "n < 10") (auto simp: nat_str.simps [of n])
qed

lemma nat_str_not_Nil [simp]: "nat_str n \<noteq> []"
  by (subst nat_str.simps) simp

lemma nat_str_inj: "nat_str m = nat_str n \<Longrightarrow> m = n"
  by (metis str_nat_nat_str)

lemma str_nat_append: "str_nat (s @ t) = str_nat s * 10 ^ length t + str_nat t"
proof (induction t rule: rev_induct)
  case Nil
  then show ?case by (simp add: str_nat_def)
next
  case (snoc c t)
  have "str_nat (s @ t @ [c]) = 10 * str_nat (s @ t) + digit_val c"
    using str_nat_snoc [of "s @ t" c] by simp
  with snoc show ?case by (simp add: str_nat_snoc algebra_simps)
qed

text \<open>The names that every object literal inherits from \<open>Object.prototype\<close>.\<close>

definition inherited_names :: "string list" where
  "inherited_names =
     [''constructor'', ''__defineGetter__'', ''__defineSetter__'', ''hasOwnProperty'', ''__lookupGetter__'',
      ''__lookupSetter__'', ''isPrototypeOf'', ''propertyIsEnumerable'', ''toString'', ''valueOf'', ''__proto__'',
      ''toLocaleString'']"

end
