(* ===== verification/Amounts.thy ===== *)
theory Amounts
  imports Prelude
begin

text \<open>
  taler-util/src/amounts.ts: amounts with a whole part up to \<open>2 ** 52\<close> and a fraction counted in
  units of \<open>1e-8\<close>. The source calls them non-negative integers, so both are \<^typ>\<open>nat\<close>; every
  intermediate value of well-formed arguments stays below \<open>2 ** 53\<close>, where doubles are exact
  integers. The lemmas relate each operation to arithmetic on the number of smallest units.
\<close>

section \<open>The code\<close>

definition amountFractionalBase :: nat where "amountFractionalBase = 100000000"
definition amountFractionalLength :: nat where "amountFractionalLength = 8"
definition amountMaxValue :: nat where "amountMaxValue = 2 ^ 52"

record AmountJson =
  am_value :: nat
  am_fraction :: nat
  am_currency :: string

datatype AmountLike = AmtString string | AmtJson AmountJson

record amount_result =
  ar_amount :: AmountJson
  ar_saturated :: bool

definition mkAmount :: "string \<Rightarrow> nat \<Rightarrow> nat \<Rightarrow> AmountJson" where
  "mkAmount c v f = \<lparr>am_value = v, am_fraction = f, am_currency = c\<rparr>"

definition getZero :: "string \<Rightarrow> AmountJson" where
  "getZero c = mkAmount c 0 0"

definition saturatedMax :: "string \<Rightarrow> amount_result" where
  "saturatedMax c = \<lparr>ar_amount = mkAmount c amountMaxValue (amountFractionalBase - 1), ar_saturated = True\<rparr>"

definition currency_mismatch :: "string \<Rightarrow> string \<Rightarrow> js_exn" where
  "currency_mismatch a b = JsError (''Mismatched currency: '' @ a @ '' and '' @ b)"

fun add_loop :: "string \<Rightarrow> nat \<Rightarrow> nat \<Rightarrow> AmountJson list \<Rightarrow> amount_result js" where
  "add_loop c v f [] = Inr \<lparr>ar_amount = mkAmount c v f, ar_saturated = False\<rparr>"
| "add_loop c v f (x # rest) =
    (if am_currency x \<noteq> c then Inl (currency_mismatch (am_currency x) c)
     else
       let v' = v + am_value x + (f + am_fraction x) div amountFractionalBase;
           f' = (f + am_fraction x) mod amountFractionalBase
       in if v' > amountMaxValue then Inr (saturatedMax c) else add_loop c v' f' rest)"

definition amounts_add :: "AmountJson \<Rightarrow> AmountJson list \<Rightarrow> amount_result js" where
  "amounts_add first rest =
    (let c = am_currency first;
         v = am_value first + am_fraction first div amountFractionalBase
     in if v > amountMaxValue then Inr (saturatedMax c)
        else add_loop c v (am_fraction first mod amountFractionalBase) rest)"

definition saturatedZero :: "string \<Rightarrow> amount_result" where
  "saturatedZero c = \<lparr>ar_amount = mkAmount c 0 0, ar_saturated = True\<rparr>"

fun sub_loop :: "string \<Rightarrow> nat \<Rightarrow> nat \<Rightarrow> AmountJson list \<Rightarrow> amount_result js" where
  "sub_loop c v f [] = Inr \<lparr>ar_amount = mkAmount c v f, ar_saturated = False\<rparr>"
| "sub_loop c v f (b # rest) =
    (if am_currency b \<noteq> c then Inl (currency_mismatch (am_currency b) c)
     else if f < am_fraction b \<and> v < 1 then Inr (saturatedZero c)
     else
       let (v1, f1) = (if f < am_fraction b then (v - 1, f + amountFractionalBase) else (v, f));
           f2 = f1 - am_fraction b
       in if v1 < am_value b then Inr (saturatedZero c)
          else sub_loop c (v1 - am_value b) f2 rest)"

definition amounts_sub :: "AmountJson \<Rightarrow> AmountJson list \<Rightarrow> amount_result js" where
  "amounts_sub a rest = sub_loop (am_currency a) (am_value a) (am_fraction a) rest"

text \<open>
  The regular expression of \<open>Amounts.parse\<close>: its first class holds no colon and the second no
  dot, so matching is splitting at the first character outside the class.
\<close>

definition is_currency_char :: "char \<Rightarrow> bool" where
  "is_currency_char c \<longleftrightarrow>
     (let n = (of_char c :: nat) in
       (97 \<le> n \<and> n \<le> 122) \<or> (65 \<le> n \<and> n \<le> 90) \<or> (48 \<le> n \<and> n \<le> 57)
       \<or> c = CHR ''_'' \<or> c = CHR ''*'' \<or> c = CHR ''-'')"

definition amounts_match :: "string \<Rightarrow> (string \<times> string \<times> string option) option" where
  "amounts_match s =
    (let cur = takeWhile is_currency_char s in
     case dropWhile is_currency_char s of
       [] \<Rightarrow> None
     | d # r \<Rightarrow>
       if cur = [] \<or> d \<noteq> CHR '':'' then None
       else
         let whole = takeWhile is_digit r; tail = dropWhile is_digit r in
         if whole = [] then None
         else case tail of
             [] \<Rightarrow> Some (cur, whole, None)
           | p # fr \<Rightarrow>
             if p = CHR ''.'' \<and> fr \<noteq> [] \<and> list_all is_digit fr then Some (cur, whole, Some tail)
             else None)"

text \<open>
  \<open>Math.round(1e8 * Number.parseFloat(tail))\<close> of a tail with at most eight digits: the digits
  scaled to eight places (the double product is within one half of that integer).
\<close>

definition tail_fraction :: "string \<Rightarrow> nat" where
  "tail_fraction tail = str_nat (tl tail) * 10 ^ (amountFractionalLength - length (tl tail))"

definition amounts_parse :: "string \<Rightarrow> AmountJson option" where
  "amounts_parse s =
    (case amounts_match s of
       None \<Rightarrow> None
     | Some (cur, whole, frac) \<Rightarrow>
       let tail = (case frac of None \<Rightarrow> ''.0'' | Some t \<Rightarrow> t) in
       if length tail > amountFractionalLength + 1 then None
       else
         let value = str_nat whole in
         if value > amountMaxValue then None
         else Some (mkAmount cur value (tail_fraction tail)))"

definition amounts_parseOrThrow :: "string \<Rightarrow> AmountJson js" where
  "amounts_parseOrThrow s =
    (case amounts_parse s of
       None \<Rightarrow> Inl (JsError (''Can't parse amount: \"'' @ s @ ''\"''))
     | Some a \<Rightarrow> Inr a)"

fun jsonifyAmount :: "AmountLike \<Rightarrow> AmountJson js" where
  "jsonifyAmount (AmtString s) = amounts_parseOrThrow s"
| "jsonifyAmount (AmtJson a) = Inr a"

definition amounts_sum :: "AmountLike list \<Rightarrow> amount_result js" where
  "amounts_sum xs =
    (if xs = [] then Inl (JsError ''can't sum zero amounts'')
     else js_bind (js_map jsonifyAmount xs) (\<lambda>js. amounts_add (hd js) (tl js)))"

definition amounts_cmp :: "AmountLike \<Rightarrow> AmountLike \<Rightarrow> int js" where
  "amounts_cmp a b =
    js_bind (jsonifyAmount a) (\<lambda>a. js_bind (jsonifyAmount b) (\<lambda>b.
      if am_currency a \<noteq> am_currency b then Inl (currency_mismatch (am_currency a) (am_currency b))
      else
        let av = am_value a + am_fraction a div amountFractionalBase;
            af = am_fraction a mod amountFractionalBase;
            bv = am_value b + am_fraction b div amountFractionalBase;
            bf = am_fraction b mod amountFractionalBase
        in Inr (if av < bv then -1 else if av > bv then 1
                else if af < bf then -1 else if af > bf then 1 else 0)))"

definition amounts_divide :: "AmountJson \<Rightarrow> nat \<Rightarrow> AmountJson js" where
  "amounts_divide a n =
    (if n = 0 then Inl (JsError ''Division by 0'')
     else if n = 1 then Inr (mkAmount (am_currency a) (am_value a) (am_fraction a))
     else
       let r = am_value a mod n in
       Inr (mkAmount (am_currency a) (am_value a div n)
         ((r * amountFractionalBase + am_fraction a) div n)))"

definition amounts_isNonZero :: "AmountJson \<Rightarrow> bool" where
  "amounts_isNonZero a \<longleftrightarrow> 0 < am_value a \<or> 0 < am_fraction a"

definition amounts_isZero :: "AmountLike \<Rightarrow> bool js" where
  "amounts_isZero a =
    js_bind (jsonifyAmount a) (\<lambda>a. Inr (am_value a = 0 \<and> am_fraction a = 0))"

definition amounts_min :: "AmountLike \<Rightarrow> AmountLike \<Rightarrow> AmountJson js" where
  "amounts_min a b = js_bind (amounts_cmp a b) (\<lambda>cr. if 0 \<le> cr then jsonifyAmount b else jsonifyAmount a)"

definition amounts_max :: "AmountLike \<Rightarrow> AmountLike \<Rightarrow> AmountJson js" where
  "amounts_max a b = js_bind (amounts_cmp a b) (\<lambda>cr. if 0 \<le> cr then jsonifyAmount a else jsonifyAmount b)"

text \<open>The doubling loop of \<open>Amounts.mult\<close>, with the final addition after it.\<close>

function mult_loop :: "AmountJson \<Rightarrow> AmountJson \<Rightarrow> nat \<Rightarrow> amount_result js" where
  "mult_loop acc x n =
    (if 1 < n then
       js_bind
         (if n mod 2 = 0 then Inr (n div 2, \<lparr>ar_amount = acc, ar_saturated = False\<rparr>)
          else js_bind (amounts_add acc [x]) (\<lambda>r2. Inr ((n - 1) div 2, r2)))
         (\<lambda>(n', r2).
            if ar_saturated r2 then Inr r2
            else js_bind (amounts_add x [x]) (\<lambda>r3.
              if ar_saturated r3 then Inr r3
              else mult_loop (ar_amount r2) (ar_amount r3) n'))
     else amounts_add acc [x])"
  by pat_completeness auto
termination
  by (relation "measure (\<lambda>(_, _, n). n)") (auto simp: js_bind_Inr_iff split: if_splits)

declare mult_loop.simps [simp del]

definition amounts_mult :: "AmountLike \<Rightarrow> int \<Rightarrow> amount_result js" where
  "amounts_mult a n =
    js_bind (jsonifyAmount a) (\<lambda>a.
      if n < 0 then Inl (JsError ''amount can only be multiplied by a positive integer'')
      else if n = 0 then Inr \<lparr>ar_amount = getZero (am_currency a), ar_saturated = False\<rparr>
      else mult_loop (getZero (am_currency a)) a (nat n))"

definition amounts_check :: "string \<Rightarrow> bool" where
  "amounts_check s \<longleftrightarrow> amounts_parse s \<noteq> None"

fun frac_loop :: "nat \<Rightarrow> nat \<Rightarrow> nat \<Rightarrow> nat \<Rightarrow> string" where
  "frac_loop minFractional i 0 n = []"
| "frac_loop minFractional i (Suc k) n =
    (if n = 0 \<and> minFractional \<le> i then []
     else nat_str (n * 10 div amountFractionalBase)
       @ frac_loop minFractional (Suc i) k (n * 10 mod amountFractionalBase))"

definition stringifyValue :: "AmountJson \<Rightarrow> nat \<Rightarrow> string" where
  "stringifyValue a minFractional =
    (let av = am_value a + am_fraction a div amountFractionalBase;
         af = am_fraction a mod amountFractionalBase
     in nat_str av @ (if af \<noteq> 0 then ''.'' @ frac_loop minFractional 0 amountFractionalLength af else []))"

definition amounts_stringify :: "AmountLike \<Rightarrow> string js" where
  "amounts_stringify a =
    js_bind (jsonifyAmount a) (\<lambda>a. Inr (am_currency a @ '':'' @ stringifyValue a 0))"

section \<open>Smallest units\<close>

definition units :: "AmountJson \<Rightarrow> nat" where
  "units a = am_value a * amountFractionalBase + am_fraction a"

definition wf_amount :: "AmountJson \<Rightarrow> bool" where
  "wf_amount a \<longleftrightarrow> am_fraction a < amountFractionalBase \<and> am_value a \<le> amountMaxValue"

definition unit_limit :: nat where
  "unit_limit = (amountMaxValue + 1) * amountFractionalBase"

text \<open>
  What \<open>add\<close> and \<open>mult\<close> promise: the exact total when it is below the limit, the saturated maximum
  when it is not.
\<close>

definition exact_or_max :: "string \<Rightarrow> nat \<Rightarrow> amount_result \<Rightarrow> bool" where
  "exact_or_max c t r \<longleftrightarrow>
     (if t < unit_limit
      then \<not> ar_saturated r \<and> units (ar_amount r) = t \<and> wf_amount (ar_amount r) \<and> am_currency (ar_amount r) = c
      else r = saturatedMax c)"

lemma mkAmount_simps [simp]:
  "am_value (mkAmount c v f) = v" "am_fraction (mkAmount c v f) = f" "am_currency (mkAmount c v f) = c"
  by (simp_all add: mkAmount_def)

lemma units_mkAmount [simp]: "units (mkAmount c v f) = v * amountFractionalBase + f"
  by (simp add: units_def)

lemma base_pos [simp]: "0 < amountFractionalBase"
  by (simp add: amountFractionalBase_def)

lemma base_nonzero [simp]: "amountFractionalBase \<noteq> 0"
  by (simp add: amountFractionalBase_def)

lemma div_mod_units: "v * amountFractionalBase + f = (v + f div amountFractionalBase) * amountFractionalBase + f mod amountFractionalBase"
  by (simp add: algebra_simps)

lemma unit_limit_iff:
  "f < amountFractionalBase \<Longrightarrow> v * amountFractionalBase + f < unit_limit \<longleftrightarrow> v \<le> amountMaxValue"
proof
  assume "v * amountFractionalBase + f < unit_limit" "f < amountFractionalBase"
  then have "v * amountFractionalBase < (amountMaxValue + 1) * amountFractionalBase"
    by (simp only: unit_limit_def)
  then have "v < amountMaxValue + 1" by (simp only: mult_less_cancel2)
  then show "v \<le> amountMaxValue" by simp
next
  assume f: "f < amountFractionalBase" and "v \<le> amountMaxValue"
  then have "v * amountFractionalBase + f < amountMaxValue * amountFractionalBase + amountFractionalBase"
    by (intro add_le_less_mono mult_le_mono1)
  then show "v * amountFractionalBase + f < unit_limit"
    by (simp only: unit_limit_def distrib_right mult_1)
qed

lemma units_less_limit: "wf_amount a \<Longrightarrow> units a < unit_limit"
  by (simp add: wf_amount_def units_def unit_limit_iff)

lemma exact_or_max_saturated: "exact_or_max c t r \<Longrightarrow> ar_saturated r \<longleftrightarrow> unit_limit \<le> t"
  by (auto simp: exact_or_max_def saturatedMax_def split: if_splits)

lemma exact_or_max_over: "unit_limit \<le> t \<Longrightarrow> exact_or_max c t (saturatedMax c)"
  by (simp add: exact_or_max_def)

lemma exact_or_max_exact:
  "f < amountFractionalBase \<Longrightarrow> v \<le> amountMaxValue \<Longrightarrow>
   exact_or_max c (v * amountFractionalBase + f) \<lparr>ar_amount = mkAmount c v f, ar_saturated = False\<rparr>"
  by (simp add: exact_or_max_def unit_limit_iff wf_amount_def)

section \<open>Addition\<close>

lemma add_loop_exact:
  assumes "f < amountFractionalBase" "v \<le> amountMaxValue" "\<forall>x\<in>set xs. am_currency x = c"
  shows "\<exists>r. add_loop c v f xs = Inr r \<and>
    exact_or_max c (v * amountFractionalBase + f + sum_list (map units xs)) r"
  using assms
proof (induction xs arbitrary: v f)
  case Nil
  then show ?case by (simp add: exact_or_max_exact)
next
  case (Cons x xs)
  let ?v = "v + am_value x + (f + am_fraction x) div amountFractionalBase"
  let ?f = "(f + am_fraction x) mod amountFractionalBase"
  have f: "?f < amountFractionalBase" by simp
  have eq: "v * amountFractionalBase + f + units x = ?v * amountFractionalBase + ?f"
    using div_mod_units [of "v + am_value x" "f + am_fraction x"]
    by (simp add: units_def algebra_simps)
  show ?case
  proof (cases "?v > amountMaxValue")
    case True
    then have "unit_limit \<le> v * amountFractionalBase + f + units x"
      unfolding eq using unit_limit_iff [OF f, of ?v] by (simp add: not_le)
    with True Cons.prems show ?thesis
      by (simp add: Let_def exact_or_max_over)
  next
    case False
    then obtain r where "add_loop c ?v ?f xs = Inr r"
      "exact_or_max c (?v * amountFractionalBase + ?f + sum_list (map units xs)) r"
      using Cons.IH [OF f, of ?v] Cons.prems by auto
    moreover have "v * amountFractionalBase + f + sum_list (map units (x # xs))
        = ?v * amountFractionalBase + ?f + sum_list (map units xs)"
      using eq by simp
    ultimately show ?thesis using False Cons.prems(3) by (simp only: add_loop.simps) (simp add: Let_def)
  qed
qed

lemma amounts_add_exact:
  assumes "\<forall>x\<in>set xs. am_currency x = am_currency a"
  shows "\<exists>r. amounts_add a xs = Inr r \<and>
    exact_or_max (am_currency a) (units a + sum_list (map units xs)) r"
proof -
  let ?v = "am_value a + am_fraction a div amountFractionalBase"
  let ?f = "am_fraction a mod amountFractionalBase"
  have f: "?f < amountFractionalBase" by simp
  have eq: "units a = ?v * amountFractionalBase + ?f"
    using div_mod_units [of "am_value a" "am_fraction a"] by (simp add: units_def)
  show ?thesis
  proof (cases "?v > amountMaxValue")
    case True
    then have "unit_limit \<le> units a"
      unfolding eq using unit_limit_iff [OF f, of ?v] by (simp add: not_le)
    with True show ?thesis by (simp add: amounts_add_def Let_def exact_or_max_over)
  next
    case False
    with add_loop_exact [OF f, of ?v xs] assms show ?thesis
      by (auto simp: amounts_add_def Let_def eq)
  qed
qed

lemma add_loop_mismatch:
  "\<exists>x\<in>set xs. am_currency x \<noteq> c \<Longrightarrow>
    (\<exists>d. add_loop c v f xs = Inl (currency_mismatch d c)) \<or> add_loop c v f xs = Inr (saturatedMax c)"
  by (induction xs arbitrary: v f) (auto simp: Let_def)

section \<open>Subtraction\<close>

definition exact_or_zero :: "string \<Rightarrow> nat \<Rightarrow> nat \<Rightarrow> amount_result \<Rightarrow> bool" where
  "exact_or_zero c t s r \<longleftrightarrow>
     (if s \<le> t
      then \<not> ar_saturated r \<and> units (ar_amount r) = t - s \<and> wf_amount (ar_amount r) \<and> am_currency (ar_amount r) = c
      else r = saturatedZero c)"

lemma sub_step_borrow:
  assumes "f < fb" "fb < amountFractionalBase" "0 < v" "vb \<le> v - 1"
  shows "(v - 1 - vb) * amountFractionalBase + (f + amountFractionalBase - fb)
    = v * amountFractionalBase + f - (vb * amountFractionalBase + fb)"
proof -
  obtain k where k: "v = Suc (vb + k)" using assms by (metis Suc_diff_1 le_add_diff_inverse)
  then show ?thesis using assms by (simp add: algebra_simps)
qed

lemma sub_loop_exact:
  assumes "f < amountFractionalBase" "v \<le> amountMaxValue"
    "\<forall>x\<in>set xs. am_currency x = c \<and> am_fraction x < amountFractionalBase"
  shows "\<exists>r. sub_loop c v f xs = Inr r \<and>
    exact_or_zero c (v * amountFractionalBase + f) (sum_list (map units xs)) r"
  using assms
proof (induction xs arbitrary: v f)
  case Nil
  then show ?case by (simp add: exact_or_zero_def wf_amount_def)
next
  case (Cons b xs)
  let ?B = amountFractionalBase and ?t = "v * amountFractionalBase + f"
  have fb: "am_fraction b < ?B" and cb: "am_currency b = c" using Cons.prems by auto
  have over: "exact_or_zero c ?t (sum_list (map units (b # xs))) (saturatedZero c)" if "?t < units b"
    using that by (simp add: exact_or_zero_def)
  have lt: "?t < units b" if "v' < am_value b" "?t \<le> v' * ?B + f'" "f' < am_fraction b \<or> f' < ?B" for v' f'
  proof -
    have "v' * ?B + ?B \<le> am_value b * ?B"
      using that(1) by (metis Suc_leI add.commute mult_Suc mult_le_mono1)
    moreover have "f' < ?B" using that(3) fb by linarith
    ultimately show ?thesis using that(2) unfolding units_def by linarith
  qed
  have step: "\<exists>r. sub_loop c v' f' xs = Inr r \<and> exact_or_zero c ?t (sum_list (map units (b # xs))) r"
    if "v' * ?B + f' = ?t - units b" "units b \<le> ?t" "f' < ?B" "v' \<le> amountMaxValue" for v' f'
    using Cons.IH [of f' v'] Cons.prems(3) that by (auto simp: exact_or_zero_def)
  consider (empty) "f < am_fraction b" "v = 0" | (borrow) "f < am_fraction b" "0 < v" "am_value b \<le> v - 1"
    | (borrow_low) "f < am_fraction b" "0 < v" "v - 1 < am_value b"
    | (plain) "am_fraction b \<le> f" "am_value b \<le> v" | (low) "am_fraction b \<le> f" "v < am_value b"
    by linarith
  then show ?case
  proof cases
    case empty
    then have "?t < units b" by (simp add: units_def)
    with empty cb over show ?thesis by simp
  next
    case borrow
    have "(v - 1 - am_value b) * ?B + (f + ?B - am_fraction b) = ?t - units b"
      using sub_step_borrow [OF borrow(1) fb borrow(2,3)] by (simp add: units_def)
    moreover have "units b \<le> ?t"
    proof -
      have "am_value b * ?B + ?B \<le> v * ?B"
        using borrow by (metis Suc_diff_1 Suc_le_mono add.commute mult_Suc mult_le_mono1)
      with fb show ?thesis by (simp add: units_def)
    qed
    ultimately show ?thesis
      using step [of "v - 1 - am_value b" "f + ?B - am_fraction b"] borrow cb Cons.prems fb by simp
  next
    case borrow_low
    then have "?t < units b"
      unfolding units_def by (intro add_le_less_mono mult_le_mono1) simp_all
    with borrow_low cb over show ?thesis by simp
  next
    case plain
    have "(v - am_value b) * ?B + (f - am_fraction b) = ?t - units b"
      using plain by (simp add: units_def diff_mult_distrib)
    moreover have "units b \<le> ?t" using plain by (simp add: units_def add_mono)
    ultimately show ?thesis
      using step [of "v - am_value b" "f - am_fraction b"] plain cb Cons.prems by simp
  next
    case low
    then have "?t < units b" using lt [of v f] Cons.prems(1) by simp
    with low cb over show ?thesis by simp
  qed
qed

lemma amounts_sub_exact:
  assumes "wf_amount a" "\<forall>x\<in>set xs. am_currency x = am_currency a \<and> wf_amount x"
  shows "\<exists>r. amounts_sub a xs = Inr r \<and>
    exact_or_zero (am_currency a) (units a) (sum_list (map units xs)) r"
  using sub_loop_exact [of "am_fraction a" "am_value a" xs "am_currency a"] assms
  by (simp add: amounts_sub_def wf_amount_def units_def)

section \<open>Multiplication\<close>

lemma exact_or_max_le:
  assumes "exact_or_max c t r" "ar_saturated r" "t \<le> u"
  shows "exact_or_max c u r"
  using assms by (auto simp: exact_or_max_def split: if_splits)

lemma mult_loop_exact:
  assumes "am_currency acc = c" "am_currency x = c" "0 < n"
  shows "\<exists>r. mult_loop acc x n = Inr r \<and> exact_or_max c (units acc + n * units x) r"
  using assms
proof (induction n arbitrary: acc x rule: less_induct)
  case (less n)
  obtain r2 where r2: "amounts_add acc [x] = Inr r2" "exact_or_max c (units acc + units x) r2"
    using amounts_add_exact [of "[x]" acc] less.prems by auto
  obtain r3 where r3: "amounts_add x [x] = Inr r3" "exact_or_max c (units x + units x) r3"
    using amounts_add_exact [of "[x]" x] less.prems by auto
  show ?case
  proof (cases "1 < n")
    case False
    then have "n = 1" using less.prems by simp
    with r2 show ?thesis by (simp add: mult_loop.simps)
  next
    case n: True
    then have sat3: "exact_or_max c (units acc + n * units x) r3" if "ar_saturated r3"
      using exact_or_max_le [OF r3(2) that] by (metis Suc_1 Suc_leI mult_2 mult_le_mono1 trans_le_add2)
    have ok3: "units (ar_amount r3) = 2 * units x \<and> am_currency (ar_amount r3) = c" if "\<not> ar_saturated r3"
      using r3(2) that by (auto simp: exact_or_max_def saturatedMax_def split: if_splits)
    show ?thesis
    proof (cases "n mod 2 = 0")
      case even: True
      have tot: "units acc + n div 2 * (2 * units x) = units acc + n * units x"
        using even by (metis dvd_div_mult_self mod_0_imp_dvd mult.assoc)
      show ?thesis
      proof (cases "ar_saturated r3")
        case True
        with n even r3 sat3 show ?thesis by (subst mult_loop.simps) simp
      next
        case False
        have "\<exists>r. mult_loop acc (ar_amount r3) (n div 2) = Inr r
            \<and> exact_or_max c (units acc + n div 2 * units (ar_amount r3)) r"
          by (rule less.IH) (use n even False ok3 less.prems in auto)
        then have "\<exists>r. mult_loop acc (ar_amount r3) (n div 2) = Inr r
            \<and> exact_or_max c (units acc + n * units x) r"
          using ok3 [OF False] tot by metis
        with n even r3(1) False show ?thesis by (subst mult_loop.simps) simp
      qed
    next
      case odd: False
      have pos: "0 < (n - 1) div 2" using n odd by presburger
      have tot: "units acc + units x + (n - 1) div 2 * (2 * units x) = units acc + n * units x"
      proof -
        have "n = 2 * ((n - 1) div 2) + 1" using odd n by presburger
        then show ?thesis by (metis add.assoc add.commute mult.assoc mult.commute mult_Suc Suc_eq_plus1)
      qed
      have sat2: "exact_or_max c (units acc + n * units x) r2" if "ar_saturated r2"
        using exact_or_max_le [OF r2(2) that] tot by (metis le_add1)
      have ok2: "units (ar_amount r2) = units acc + units x \<and> am_currency (ar_amount r2) = c" if "\<not> ar_saturated r2"
        using r2(2) that by (auto simp: exact_or_max_def saturatedMax_def split: if_splits)
      consider "ar_saturated r2" | "\<not> ar_saturated r2" "ar_saturated r3" | "\<not> ar_saturated r2" "\<not> ar_saturated r3"
        by blast
      then show ?thesis
      proof cases
        case 1
        with n odd r2 sat2 show ?thesis by (subst mult_loop.simps) simp
      next
        case 2
        with n odd r2 r3 sat3 show ?thesis by (subst mult_loop.simps) simp
      next
        case 3
        have "\<exists>r. mult_loop (ar_amount r2) (ar_amount r3) ((n - 1) div 2) = Inr r
            \<and> exact_or_max c (units (ar_amount r2) + (n - 1) div 2 * units (ar_amount r3)) r"
          by (rule less.IH) (use n odd pos ok2 ok3 3 less.prems in auto)
        then have "\<exists>r. mult_loop (ar_amount r2) (ar_amount r3) ((n - 1) div 2) = Inr r
            \<and> exact_or_max c (units acc + n * units x) r"
          using ok2 [OF 3(1)] ok3 [OF 3(2)] tot by metis
        with n odd r2(1) r3(1) 3 show ?thesis by (subst mult_loop.simps) simp
      qed
    qed
  qed
qed

section \<open>Comparison and division\<close>

lemma cmp_parts:
  fixes f g :: nat
  assumes "f < B" "g < B"
  shows "v * B + f < w * B + g \<longleftrightarrow> v < w \<or> v = w \<and> f < g"
proof -
  have lt: "v * B + f < w * B + g" if "v < w" "f < B" for v w f g :: nat
  proof -
    have "v * B + B \<le> w * B" using that(1) by (metis Suc_leI add.commute mult_Suc mult_le_mono1)
    with that(2) show ?thesis by linarith
  qed
  show ?thesis using lt [of v w f g] lt [of w v g f] assms by (cases v w rule: linorder_cases) auto
qed

definition cmp_sign :: "nat \<Rightarrow> nat \<Rightarrow> int" where
  "cmp_sign m n = (if m < n then -1 else if n < m then 1 else 0)"

lemma amounts_cmp_units:
  assumes "am_currency a = am_currency b"
  shows "amounts_cmp (AmtJson a) (AmtJson b) = Inr (cmp_sign (units a) (units b))"
proof -
  let ?B = amountFractionalBase
  let ?v = "\<lambda>a. am_value a + am_fraction a div ?B" and ?f = "\<lambda>a. am_fraction a mod ?B"
  have u: "units c = ?v c * ?B + ?f c" for c
    using div_mod_units [of "am_value c" "am_fraction c"] by (simp add: units_def)
  have "units a < units b \<longleftrightarrow> ?v a < ?v b \<or> ?v a = ?v b \<and> ?f a < ?f b"
    unfolding u by (rule cmp_parts) simp_all
  moreover have "units b < units a \<longleftrightarrow> ?v b < ?v a \<or> ?v b = ?v a \<and> ?f b < ?f a"
    unfolding u by (rule cmp_parts) simp_all
  ultimately show ?thesis
    using assms by (auto simp: amounts_cmp_def Let_def cmp_sign_def)
qed

lemma amounts_divide_units:
  assumes "0 < n"
  shows "\<exists>r. amounts_divide a n = Inr r \<and> units r = units a div n \<and> am_currency r = am_currency a
    \<and> (wf_amount a \<longrightarrow> wf_amount r)"
proof (cases "n = 1")
  case True
  then show ?thesis by (simp add: amounts_divide_def units_def wf_amount_def)
next
  case False
  let ?B = amountFractionalBase and ?v = "am_value a" and ?f = "am_fraction a"
  have "units a = n * (?v div n * ?B) + (?v mod n * ?B + ?f)"
    unfolding units_def by (metis add.assoc add_mult_distrib mult.assoc mult_div_mod_eq)
  then have u: "units a div n = ?v div n * ?B + (?v mod n * ?B + ?f) div n"
    using assms by simp
  have "(?v mod n * ?B + ?f) div n < ?B" if "?f < ?B"
  proof -
    have "Suc (?v mod n) \<le> n" using assms by (simp add: Suc_leI)
    then have "Suc (?v mod n) * ?B \<le> n * ?B" by (rule mult_le_mono1)
    with that have "?v mod n * ?B + ?f < ?B * n" by (simp add: mult.commute)
    then show ?thesis using assms by (simp add: div_less_iff_less_mult mult.commute)
  qed
  moreover have "?v div n \<le> amountMaxValue" if "?v \<le> amountMaxValue"
    using that by (meson div_le_dividend le_trans)
  ultimately show ?thesis
    using assms False u by (simp add: amounts_divide_def Let_def wf_amount_def)
qed

section \<open>Printing and parsing\<close>

lemma frac_loop_correct:
  assumes "n < amountFractionalBase" "n * 10 ^ k mod amountFractionalBase = 0"
  shows "length (frac_loop m i k n) \<le> k \<and> list_all is_digit (frac_loop m i k n) \<and>
    str_nat (frac_loop m i k n) * 10 ^ (k - length (frac_loop m i k n)) * amountFractionalBase = n * 10 ^ k"
  using assms
proof (induction k arbitrary: n i)
  case 0
  then show ?case by (simp add: str_nat_def)
next
  case (Suc k)
  let ?B = amountFractionalBase
  let ?d = "n * 10 div ?B" and ?n = "n * 10 mod ?B"
  let ?ds = "frac_loop m (Suc i) k ?n"
  have d: "?d < 10" using Suc.prems(1) by (simp add: div_less_iff_less_mult mult.commute)
  then have ds: "nat_str ?d = [digit_char ?d]" by (simp add: nat_str.simps)
  have "?n * 10 ^ k mod ?B = n * 10 * 10 ^ k mod ?B" by (simp add: mod_mult_left_eq)
  also have "\<dots> = 0" using Suc.prems(2) by (simp add: mult.assoc)
  finally have IH: "length ?ds \<le> k" "list_all is_digit ?ds"
    "str_nat ?ds * 10 ^ (k - length ?ds) * ?B = ?n * 10 ^ k"
    using Suc.IH [of ?n "Suc i"] by simp_all
  show ?case
  proof (cases "n = 0 \<and> m \<le> i")
    case True
    then show ?thesis by (simp add: str_nat_def)
  next
    case False
    have "str_nat (digit_char ?d # ?ds) = ?d * 10 ^ length ?ds + str_nat ?ds"
      using str_nat_append [of "[digit_char ?d]" ?ds] d by (simp add: str_nat_def)
    then have "str_nat (digit_char ?d # ?ds) * 10 ^ (k - length ?ds) * ?B
        = ?d * (10 ^ length ?ds * 10 ^ (k - length ?ds)) * ?B + str_nat ?ds * 10 ^ (k - length ?ds) * ?B"
      by (simp add: algebra_simps)
    also have "10 ^ length ?ds * 10 ^ (k - length ?ds) = (10 :: nat) ^ k"
      using IH(1) by (simp flip: power_add)
    also have "?d * 10 ^ k * ?B + str_nat ?ds * 10 ^ (k - length ?ds) * ?B = (?d * ?B + ?n) * 10 ^ k"
      unfolding IH(3) by (simp only: add_mult_distrib add_mult_distrib2 mult_ac)
    also have "\<dots> = n * 10 ^ Suc k" by simp
    finally show ?thesis using False IH d ds by simp
  qed
qed

lemma frac_loop_tail:
  assumes "0 < n" "n < amountFractionalBase"
  defines "ds \<equiv> frac_loop 0 0 amountFractionalLength n"
  shows "ds \<noteq> []" "length ds \<le> amountFractionalLength" "list_all is_digit ds"
    "tail_fraction (''.'' @ ds) = n"
proof -
  have B: "(10::nat) ^ amountFractionalLength = amountFractionalBase"
    by (simp add: amountFractionalLength_def amountFractionalBase_def)
  have "n * 10 ^ amountFractionalLength mod amountFractionalBase = 0" by (simp add: B)
  from frac_loop_correct [OF assms(2) this, of 0 0]
  show l: "length ds \<le> amountFractionalLength" and "list_all is_digit ds"
    and t: "tail_fraction (''.'' @ ds) = n"
    by (simp_all add: ds_def tail_fraction_def B)
  show "ds \<noteq> []"
    using assms(1) by (simp add: ds_def amountFractionalLength_def eval_nat_numeral)
qed

lemma dot_not_digit [simp]: "\<not> is_digit (CHR ''.'')"
  by (simp add: is_digit_def)

lemma colon_not_currency [simp]: "\<not> is_currency_char (CHR '':'')"
  by (simp add: is_currency_char_def)

lemma amounts_match_print:
  assumes "cur \<noteq> []" "list_all is_currency_char cur" "ds = [] \<or> (\<exists>fr. ds = ''.'' @ fr \<and> fr \<noteq> [] \<and> list_all is_digit fr)"
  shows "amounts_match (cur @ '':'' @ nat_str v @ ds) = Some (cur, nat_str v, if ds = [] then None else Some ds)"
proof -
  have c: "\<forall>x\<in>set cur. is_currency_char x" using assms(2) by (simp add: list_all_iff)
  have d: "\<forall>x\<in>set (nat_str v). is_digit x" using nat_str_digits by blast
  have "takeWhile is_currency_char (cur @ '':'' @ nat_str v @ ds) = cur"
    "dropWhile is_currency_char (cur @ '':'' @ nat_str v @ ds) = '':'' @ nat_str v @ ds"
    using c by (simp_all add: takeWhile_tail dropWhile_append)
  moreover have "takeWhile is_digit (nat_str v @ ds) = nat_str v" "dropWhile is_digit (nat_str v @ ds) = ds"
    using d assms(3) by (auto simp: takeWhile_append dropWhile_append)
  ultimately show ?thesis using assms by (auto simp: amounts_match_def Let_def)
qed

definition wf_currency :: "string \<Rightarrow> bool" where
  "wf_currency c \<longleftrightarrow> c \<noteq> [] \<and> list_all is_currency_char c"

lemma amounts_parse_stringify:
  assumes "wf_amount a" "wf_currency (am_currency a)"
  shows "amounts_parse (am_currency a @ '':'' @ stringifyValue a 0) = Some a"
proof -
  let ?f = "am_fraction a"
  define ds where "ds = (if ?f = 0 then [] else ''.'' @ frac_loop 0 0 amountFractionalLength ?f)"
  have f: "?f < amountFractionalBase" and v: "am_value a \<le> amountMaxValue" using assms(1) by (auto simp: wf_amount_def)
  have s: "stringifyValue a 0 = nat_str (am_value a) @ ds"
    using f by (simp add: stringifyValue_def ds_def)
  note tl = frac_loop_tail [of ?f]
  have m: "amounts_match (am_currency a @ '':'' @ stringifyValue a 0)
      = Some (am_currency a, nat_str (am_value a), if ds = [] then None else Some ds)"
    unfolding s by (rule amounts_match_print) (use assms(2) f tl in \<open>auto simp: wf_currency_def ds_def\<close>)
  have "tail_fraction ''.0'' = 0" by (simp add: tail_fraction_def str_nat_def digit_val_def)
  then show ?thesis
    using f v tl unfolding amounts_parse_def m
    by (cases "?f = 0") (auto simp: ds_def Let_def amountFractionalLength_def mkAmount_def)
qed

lemma str_nat_less: "list_all is_digit ds \<Longrightarrow> str_nat ds < 10 ^ length ds"
proof (induction ds rule: rev_induct)
  case (snoc d ds)
  then have "digit_val d < 10" by (auto simp: digit_val_def is_digit_def)
  with snoc show ?case by (simp add: str_nat_snoc)
qed (simp add: str_nat_def)

lemma tail_fraction_less:
  assumes "list_all is_digit fr" "length fr \<le> amountFractionalLength"
  shows "tail_fraction (''.'' @ fr) < amountFractionalBase"
proof -
  have "str_nat fr * 10 ^ (amountFractionalLength - length fr)
      < 10 ^ length fr * 10 ^ (amountFractionalLength - length fr)"
    using str_nat_less [OF assms(1)] by simp
  also have "\<dots> = amountFractionalBase"
    using assms(2) by (simp add: amountFractionalLength_def amountFractionalBase_def flip: power_add)
  finally show ?thesis by (simp add: tail_fraction_def)
qed

lemma amounts_match_Some:
  assumes "amounts_match s = Some (cur, whole, frac)"
  shows "wf_currency cur \<and> (\<forall>t. frac = Some t \<longrightarrow> (\<exists>fr. t = ''.'' @ fr \<and> list_all is_digit fr))"
  using assms
  by (auto simp: amounts_match_def Let_def wf_currency_def list_all_iff dest: set_takeWhileD
      split: list.splits if_splits)

lemma amounts_parse_wf:
  assumes "amounts_parse s = Some a"
  shows "wf_amount a \<and> wf_currency (am_currency a)"
proof -
  obtain cur whole frac where m: "amounts_match s = Some (cur, whole, frac)"
    using assms by (auto simp: amounts_parse_def split: option.splits)
  define tail where "tail = (case frac of None \<Rightarrow> ''.0'' | Some t \<Rightarrow> t)"
  have a: "a = mkAmount cur (str_nat whole) (tail_fraction tail)" "length tail \<le> amountFractionalLength + 1"
    "str_nat whole \<le> amountMaxValue"
    using assms m by (auto simp: amounts_parse_def tail_def Let_def split: if_splits)
  obtain fr where "tail = ''.'' @ fr" "list_all is_digit fr"
    using amounts_match_Some [OF m] by (cases frac) (auto simp: tail_def is_digit_def)
  with a tail_fraction_less [of fr] amounts_match_Some [OF m] show ?thesis
    by (simp add: wf_amount_def)
qed

end
