(* ===== verification/Effects.thy ===== *)
theory Effects
  imports Prelude
begin

text \<open>
  The asynchronous handlers as functions of an environment and a world.  The environment is what
  the code calls outside src/ (the network, the clock, the random source, \<open>argon2id\<close> of hash-wasm,
  zlib of fflate, URL parsing: whether \<open>new URL(path, base)\<close> succeeds, and the normal form of a URL
  ending in a slash); the world records the requests sent and counts the random draws, in the order the code makes them.
\<close>

section \<open>Requests and responses\<close>

datatype http_body = NoBody | TextBody string | BytesBody bytes

text \<open>The URL is kept as \<open>new URL(rq_path, rq_base)\<close> with its query parameters.\<close>

record http_request =
  rq_path :: string
  rq_base :: string
  rq_query :: "(string \<times> string) list"
  rq_method :: string
  rq_headers :: "(string \<times> string) list"
  rq_body :: http_body

record http_response =
  rs_status :: nat
  rs_headers :: "string obj"
  rs_body :: bytes

record argon2_options =
  hashLength :: nat
  iterations :: nat
  memorySize :: nat
  parallelism :: nat
  password :: bytes
  argon_salt :: bytes

record env =
  e_fetch :: "http_request list \<Rightarrow> http_request \<Rightarrow> http_response option"
  e_url_ok :: "string \<Rightarrow> string \<Rightarrow> bool"
  e_base_url :: "string \<Rightarrow> string option"
  e_random :: "nat \<Rightarrow> nat \<Rightarrow> bytes"
  e_now :: int
  e_argon2id :: "argon2_options \<Rightarrow> bytes"
  e_zlib :: "bytes \<Rightarrow> bytes"
  e_unzlib :: "bytes \<Rightarrow> bytes js"

record world =
  w_sent :: "http_request list"
  w_drawn :: nat

section \<open>Programs\<close>

type_synonym 'a io = "env \<Rightarrow> world \<Rightarrow> 'a js \<times> world"

definition io_return :: "'a \<Rightarrow> 'a io" where
  "io_return x = (\<lambda>e w. (Inr x, w))"

definition io_throw :: "js_exn \<Rightarrow> 'a io" where
  "io_throw x = (\<lambda>e w. (Inl x, w))"

definition io_js :: "'a js \<Rightarrow> 'a io" where
  "io_js m = (\<lambda>e w. (m, w))"

definition io_env :: "(env \<Rightarrow> 'a) \<Rightarrow> 'a io" where
  "io_env f = (\<lambda>e w. (Inr (f e), w))"

definition io_bind :: "'a io \<Rightarrow> ('a \<Rightarrow> 'b io) \<Rightarrow> 'b io" where
  "io_bind m f = (\<lambda>e w. case m e w of (Inl x, w') \<Rightarrow> (Inl x, w') | (Inr v, w') \<Rightarrow> f v e w')"

text \<open>\<open>getRandomBytes(n)\<close> and \<open>fetch\<close>, whose rejection is \<open>None\<close>; a bad URL throws.\<close>

definition io_random :: "nat \<Rightarrow> bytes io" where
  "io_random n = (\<lambda>e w. (Inr (e_random e (w_drawn w) n), w\<lparr>w_drawn := Suc (w_drawn w)\<rparr>))"

definition io_url :: "string \<Rightarrow> string \<Rightarrow> http_request io" where
  "io_url path base = (\<lambda>e w.
     (if e_url_ok e path base
      then Inr \<lparr>rq_path = path, rq_base = base, rq_query = [], rq_method = ''GET'', rq_headers = [],
                rq_body = NoBody\<rparr>
      else Inl TypeError, w))"

definition io_fetch :: "http_request \<Rightarrow> http_response option io" where
  "io_fetch rq = (\<lambda>e w. (Inr (e_fetch e (w_sent w) rq), w\<lparr>w_sent := w_sent w @ [rq]\<rparr>))"

definition io_fetch_ok :: "http_request \<Rightarrow> http_response io" where
  "io_fetch_ok rq = io_bind (io_fetch rq) (\<lambda>r. io_js (js_the r))"

fun io_fold :: "('a \<Rightarrow> 's \<Rightarrow> 's io) \<Rightarrow> 'a list \<Rightarrow> 's \<Rightarrow> 's io" where
  "io_fold f [] s = io_return s"
| "io_fold f (x # xs) s = io_bind (f x s) (io_fold f xs)"

fun io_map :: "('a \<Rightarrow> 'b io) \<Rightarrow> 'a list \<Rightarrow> 'b list io" where
  "io_map f [] = io_return []"
| "io_map f (x # xs) = io_bind (f x) (\<lambda>y. io_bind (io_map f xs) (\<lambda>ys. io_return (y # ys)))"

text \<open>A loop whose body may \<open>return\<close> or \<open>break\<close> (\<open>Inl\<close>) or go on with a new state (\<open>Inr\<close>).\<close>

fun io_loop :: "('a \<Rightarrow> 's \<Rightarrow> ('r + 's) io) \<Rightarrow> 'a list \<Rightarrow> 's \<Rightarrow> ('r + 's) io" where
  "io_loop f [] s = io_return (Inr s)"
| "io_loop f (x # xs) s =
     io_bind (f x s) (\<lambda>r. case r of Inl v \<Rightarrow> io_return (Inl v) | Inr t \<Rightarrow> io_loop f xs t)"

text \<open>\<open>try { m } catch (e) { h }\<close>: what \<open>m\<close> did to the world stays done.\<close>

definition io_catch :: "'a io \<Rightarrow> (js_exn \<Rightarrow> 'a io) \<Rightarrow> 'a io" where
  "io_catch m h = (\<lambda>e w. case m e w of (Inl x, w') \<Rightarrow> h x e w' | (Inr v, w') \<Rightarrow> (Inr v, w'))"

section \<open>Evaluation\<close>

lemma io_eval [simp, io_simps]:
  "io_return v e w = (Inr v, w)"
  "io_throw x e w = (Inl x, w)"
  "io_js m e w = (m, w)"
  "io_env f e w = (Inr (f e), w)"
  by (simp_all add: io_return_def io_throw_def io_js_def io_env_def)

lemma io_bind_Inr [simp, io_simps]: "m e w = (Inr v, w') \<Longrightarrow> io_bind m f e w = f v e w'"
  by (simp add: io_bind_def)

lemma io_bind_Inl [simp, io_simps]: "m e w = (Inl x, w') \<Longrightarrow> io_bind m f e w = (Inl x, w')"
  by (simp add: io_bind_def)

lemma io_bind_simps [simp, io_simps]:
  "io_bind (io_return v) f e w = f v e w"
  "io_bind (io_throw x) f e w = (Inl x, w)"
  "io_bind (io_js (Inr v)) f e w = f v e w"
  "io_bind (io_js (Inl x)) f e w = (Inl x, w)"
  "io_bind (io_env g) f e w = f (g e) e w"
  by (simp_all add: io_bind_def io_return_def io_throw_def io_js_def io_env_def)

lemma io_bind_assoc [io_simps]:
  "io_bind (io_bind m f) g e w = io_bind m (\<lambda>v. io_bind (f v) g) e w"
  by (auto simp: io_bind_def split: prod.splits sum.splits)

lemma io_random_eval [simp, io_simps]:
  "io_random n e w = (Inr (e_random e (w_drawn w) n), w\<lparr>w_drawn := Suc (w_drawn w)\<rparr>)"
  by (simp add: io_random_def)

lemma io_fetch_eval [io_simps]:
  "io_fetch rq e w = (Inr (e_fetch e (w_sent w) rq), w\<lparr>w_sent := w_sent w @ [rq]\<rparr>)"
  by (simp add: io_fetch_def)

lemma io_bind_Inr_iff:
  "io_bind m f e w = (Inr y, w') \<longleftrightarrow> (\<exists>v u. m e w = (Inr v, u) \<and> f v e u = (Inr y, w'))"
  by (auto simp: io_bind_def split: prod.splits sum.splits)

lemma io_bind_cases:
  assumes "io_bind m f e w = (r, w')"
  obtains (throws) x where "m e w = (Inl x, w')" "r = Inl x"
    | (returns) v u where "m e w = (Inr v, u)" "f v e u = (r, w')"
  using assms by (auto simp: io_bind_def split: prod.splits sum.splits)

text \<open>
  The random source delivers what is asked; the properties that need it take it as a hypothesis.
\<close>

definition random_ok :: "env \<Rightarrow> bool" where
  "random_ok e \<longleftrightarrow> (\<forall>i n. length (e_random e i n) = n)"

text \<open>\<open>w'\<close> is a later world: requests are only appended, draws only consumed.\<close>

definition later :: "world \<Rightarrow> world \<Rightarrow> bool" where
  "later w w' \<longleftrightarrow> (\<exists>rs. w_sent w' = w_sent w @ rs) \<and> w_drawn w \<le> w_drawn w'"

lemma later_refl [simp]: "later w w"
  by (simp add: later_def)

lemma later_trans: "later u v \<Longrightarrow> later v w \<Longrightarrow> later u w"
  by (auto simp: later_def)

end
