(* ===== verification/TalerUri.thy ===== *)
theory TalerUri
  imports Effects
begin

text \<open>
  The \<open>taler://\<close> URIs of taler-util/src/taleruri.ts: payment requests (which the upload of a
  backup answers with), withdrawals, tips and refunds.  \<open>toLowerCase\<close> is modelled on ASCII;
  \<open>canonicalizeBaseUrl\<close> of helpers.ts ends in the URL library, which is \<^const>\<open>e_base_url\<close>.
\<close>

section \<open>Strings\<close>

definition lower_char :: "char \<Rightarrow> char" where
  "lower_char c = (if 65 \<le> (of_char c :: nat) \<and> (of_char c :: nat) \<le> 90
     then char_of (of_char c + 32 :: nat) else c)"

definition toLowerCase :: "string \<Rightarrow> string" where
  "toLowerCase s = map lower_char s"

definition startsWith :: "string \<Rightarrow> string \<Rightarrow> bool" where
  "startsWith s pfx \<longleftrightarrow> take (length pfx) s = pfx"

fun split_on :: "char \<Rightarrow> string \<Rightarrow> string list" where
  "split_on d [] = [[]]"
| "split_on d (c # s) =
     (if c = d then [] # split_on d s
      else (case split_on d s of x # xs \<Rightarrow> (c # x) # xs | [] \<Rightarrow> [[c]]))"

fun join_on :: "char \<Rightarrow> string list \<Rightarrow> string" where
  "join_on d [] = []"
| "join_on d [x] = x"
| "join_on d (x # y # ys) = x @ d # join_on d (y # ys)"

lemma split_on_not_Nil [simp]: "split_on d s \<noteq> []"
  by (induction s) (auto split: list.splits)

lemma split_on_part: "d \<notin> set x \<Longrightarrow> split_on d x = [x]"
  by (induction x) auto

lemma split_on_Cons_part: "d \<notin> set x \<Longrightarrow> split_on d (x @ d # s) = x # split_on d s"
  by (induction x) auto

lemma split_on_join: "xs \<noteq> [] \<Longrightarrow> \<forall>x\<in>set xs. d \<notin> set x \<Longrightarrow> split_on d (join_on d xs) = xs"
  by (induction d xs rule: join_on.induct) (auto simp: split_on_part split_on_Cons_part)

lemma join_on_split: "join_on d (split_on d s) = s"
proof (induction s)
  case (Cons c s)
  obtain x xs where "split_on d s = x # xs" by (cases "split_on d s") auto
  with Cons show ?case by (cases xs) auto
qed simp

lemma split_on_parts: "x \<in> set (split_on d s) \<Longrightarrow> d \<notin> set x"
proof (induction s arbitrary: x)
  case (Cons c s)
  obtain y ys where "split_on d s = y # ys" by (cases "split_on d s") auto
  with Cons show ?case by (auto split: if_splits)
qed simp

section \<open>Query strings\<close>

text \<open>\<open>new URLSearchParams(q).get(name)\<close>: the first pair of that name, decoded.\<close>

definition hex_digit_val :: "char \<Rightarrow> nat option" where
  "hex_digit_val c =
     (let n = of_char c
      in if 48 \<le> n \<and> n \<le> 57 then Some (n - 48)
         else if 65 \<le> n \<and> n \<le> 70 then Some (n - 55)
         else if 97 \<le> n \<and> n \<le> 102 then Some (n - 87)
         else None)"

fun form_decode :: "string \<Rightarrow> string" where
  "form_decode [] = []"
| "form_decode (c # s) =
     (if c = CHR ''+'' then CHR '' '' # form_decode s
      else if c = CHR ''%'' then
        (case s of
           a # b # r \<Rightarrow>
             (case (hex_digit_val a, hex_digit_val b) of
                (Some m, Some n) \<Rightarrow> char_of (16 * m + n) # form_decode r
              | _ \<Rightarrow> c # form_decode s)
         | _ \<Rightarrow> c # form_decode s)
      else c # form_decode s)"

definition form_pair :: "string \<Rightarrow> string \<times> string" where
  "form_pair p =
     (let n = takeWhile (\<lambda>c. c \<noteq> CHR ''='') p
      in (form_decode n, form_decode (drop (Suc (length n)) p)))"

definition search_params_get :: "string \<Rightarrow> string \<Rightarrow> string option" where
  "search_params_get q name =
     map_of (map form_pair (filter (\<lambda>p. p \<noteq> []) (split_on (CHR ''&'') q))) name"

section \<open>Parsing\<close>

definition canonicalizeBaseUrl :: "string \<Rightarrow> string io" where
  "canonicalizeBaseUrl url =
     (let url = (if \<not> startsWith url ''http'' \<and> \<not> startsWith url ''https'' then ''https://'' @ url else url)
      in io_bind (io_env (\<lambda>e. e_base_url e url)) (\<lambda>r. io_js (js_the r)))"

record proto_info =
  innerProto :: string
  rest :: string

definition parseProtoInfo :: "string \<Rightarrow> string \<Rightarrow> proto_info option" where
  "parseProtoInfo s action =
     (let pfxPlain = ''taler://'' @ action @ ''/''; pfxHttp = ''taler+http://'' @ action @ ''/''
      in if startsWith (toLowerCase s) pfxPlain
         then Some \<lparr>innerProto = ''https'', rest = drop (length pfxPlain) s\<rparr>
         else if startsWith (toLowerCase s) pfxHttp
         then Some \<lparr>innerProto = ''http'', rest = drop (length pfxHttp) s\<rparr>
         else None)"

text \<open>\<open>[host, ...pathSegments].join("/")\<close> of the parts before the last \<open>k\<close>, as a base URL.\<close>

definition base_of :: "proto_info \<Rightarrow> string list \<Rightarrow> nat \<Rightarrow> string io" where
  "base_of pi parts k =
     (let host = toLowerCase (hd parts); segs = take (length parts - k - 1) (drop 1 parts);
          p = join_on (CHR ''/'') (host # segs)
      in canonicalizeBaseUrl (innerProto pi @ ''://'' @ p @ ''/''))"

record pay_uri =
  pu_merchantBaseUrl :: string
  pu_orderId :: string
  pu_sessionId :: string
  pu_claimToken :: "string option"
  pu_noncePriv :: "string option"

definition parsePayUri :: "string \<Rightarrow> pay_uri option io" where
  "parsePayUri s =
     (case parseProtoInfo s ''pay'' of
        None \<Rightarrow> io_return None
      | Some pi \<Rightarrow>
          let c = split_on (CHR ''?'') (rest pi);
              q = (case drop 1 c of q # _ \<Rightarrow> q | [] \<Rightarrow> []);
              parts = split_on (CHR ''/'') (hd c)
          in if length parts < 3 then io_return None
             else io_bind (base_of pi parts 2) (\<lambda>b.
               io_return (Some \<lparr>pu_merchantBaseUrl = b,
                 pu_orderId = parts ! (length parts - 2), pu_sessionId = parts ! (length parts - 1),
                 pu_claimToken = search_params_get q ''c'', pu_noncePriv = search_params_get q ''n''\<rparr>)))"

record refund_uri =
  ru_merchantBaseUrl :: string
  ru_orderId :: string

definition parseRefundUri :: "string \<Rightarrow> refund_uri option io" where
  "parseRefundUri s =
     (case parseProtoInfo s ''refund'' of
        None \<Rightarrow> io_return None
      | Some pi \<Rightarrow>
          let parts = split_on (CHR ''/'') (hd (split_on (CHR ''?'') (rest pi)))
          in if length parts < 3 then io_return None
             else io_bind (base_of pi parts 2) (\<lambda>b.
               io_return (Some \<lparr>ru_merchantBaseUrl = b, ru_orderId = parts ! (length parts - 2)\<rparr>)))"

record tip_uri =
  tu_merchantTipId :: string
  tu_merchantBaseUrl :: string

definition parseTipUri :: "string \<Rightarrow> tip_uri option io" where
  "parseTipUri s =
     (case parseProtoInfo s ''tip'' of
        None \<Rightarrow> io_return None
      | Some pi \<Rightarrow>
          let parts = split_on (CHR ''/'') (hd (split_on (CHR ''?'') (rest pi)))
          in if length parts < 2 then io_return None
             else io_bind (base_of pi parts 1) (\<lambda>b.
               io_return (Some \<lparr>tu_merchantTipId = parts ! (length parts - 1), tu_merchantBaseUrl = b\<rparr>)))"

record withdraw_uri =
  wu_bankIntegrationApiBaseUrl :: string
  wu_withdrawalOperationId :: string

definition parseWithdrawUri :: "string \<Rightarrow> withdraw_uri option io" where
  "parseWithdrawUri s =
     (case parseProtoInfo s ''withdraw'' of
        None \<Rightarrow> io_return None
      | Some pi \<Rightarrow>
          let parts = split_on (CHR ''/'') (rest pi)
          in if length parts < 2 then io_return None
             else io_bind (base_of pi parts 1) (\<lambda>b.
               io_return (Some \<lparr>wu_bankIntegrationApiBaseUrl = b,
                 wu_withdrawalOperationId = parts ! (length parts - 1)\<rparr>)))"

datatype TalerUriType = TalerPay | TalerWithdraw | TalerTip | TalerRefund | TalerNotifyReserve | Unknown

definition classifyTalerUri :: "string \<Rightarrow> TalerUriType" where
  "classifyTalerUri s =
     (let sl = toLowerCase s
      in if startsWith sl ''taler://pay/'' \<or> startsWith sl ''taler+http://pay/'' then TalerPay
         else if startsWith sl ''taler://tip/'' \<or> startsWith sl ''taler+http://tip/'' then TalerTip
         else if startsWith sl ''taler://refund/'' \<or> startsWith sl ''taler+http://refund/'' then TalerRefund
         else if startsWith sl ''taler://withdraw/'' \<or> startsWith sl ''taler+http://withdraw/'' then TalerWithdraw
         else if startsWith sl ''taler://notify-reserve/'' then TalerNotifyReserve
         else Unknown)"

section \<open>What is parsed\<close>

lemma startsWith_append [simp]: "startsWith (pfx @ s) pfx"
  by (simp add: startsWith_def)

lemma toLowerCase_append: "toLowerCase (s @ t) = toLowerCase s @ toLowerCase t"
  by (simp add: toLowerCase_def)

text \<open>
  A pay URI built from a host, path segments, an order and a session is read back: the order and
  the session as they are, the rest as the base URL of the merchant.
\<close>

lemma parsePayUri_parts:
  assumes parts: "\<forall>x\<in>set (h # segs @ [ord, ses]). CHR ''/'' \<notin> set x \<and> CHR ''?'' \<notin> set x"
    and base: "e_base_url e (''https://'' @ join_on (CHR ''/'') (toLowerCase h # segs) @ ''/'') = Some b"
  shows "\<exists>u. parsePayUri (''taler://pay/'' @ join_on (CHR ''/'') (h # segs @ [ord, ses])) e w = (Inr (Some u), w)
    \<and> pu_merchantBaseUrl u = b \<and> pu_orderId u = ord \<and> pu_sessionId u = ses"
proof -
  let ?ps = "h # segs @ [ord, ses]"
  let ?r = "join_on (CHR ''/'') ?ps"
  have pi: "parseProtoInfo (''taler://pay/'' @ ?r) ''pay'' = Some \<lparr>innerProto = ''https'', rest = ?r\<rparr>"
    by (simp add: parseProtoInfo_def startsWith_def toLowerCase_def lower_char_def)
  have "CHR ''?'' \<notin> set (join_on (CHR ''/'') xs)" if "\<forall>x\<in>set xs. CHR ''?'' \<notin> set x" for xs
    using that by (induction "CHR ''/''" xs rule: join_on.induct) auto
  then have c: "split_on (CHR ''?'') ?r = [?r]"
    using parts by (intro split_on_part) auto
  have p: "split_on (CHR ''/'') ?r = ?ps"
    using parts by (intro split_on_join) auto
  have b: "base_of \<lparr>innerProto = ''https'', rest = ?r\<rparr> ?ps 2 e w = (Inr b, w)"
    using base by (simp add: base_of_def canonicalizeBaseUrl_def startsWith_def)
  show ?thesis
    unfolding parsePayUri_def pi using b by (simp add: c p nth_append Let_def)
qed

text \<open>Only a URI classified as a payment parses as one; likewise for the other kinds.\<close>

lemma startsWith_split: "startsWith s p \<Longrightarrow> \<exists>t. s = p @ t"
  unfolding startsWith_def by (metis append_take_drop_id)

lemma parse_prefix:
  assumes "parseProtoInfo s a = Some pi"
  obtains t where "toLowerCase s = ''taler://'' @ a @ ''/'' @ t \<or> toLowerCase s = ''taler+http://'' @ a @ ''/'' @ t"
  using assms startsWith_split [of "toLowerCase s" "''taler://'' @ a @ ''/''"]
    startsWith_split [of "toLowerCase s" "''taler+http://'' @ a @ ''/''"]
  unfolding parseProtoInfo_def Let_def by (fastforce split: if_splits)

lemma classify_parsed:
  "parseProtoInfo s ''pay'' = Some pi \<Longrightarrow> classifyTalerUri s = TalerPay"
  "parseProtoInfo s ''tip'' = Some pi \<Longrightarrow> classifyTalerUri s = TalerTip"
  "parseProtoInfo s ''refund'' = Some pi \<Longrightarrow> classifyTalerUri s = TalerRefund"
  "parseProtoInfo s ''withdraw'' = Some pi \<Longrightarrow> classifyTalerUri s = TalerWithdraw"
  by (erule parse_prefix, erule disjE, simp_all add: classifyTalerUri_def startsWith_def)+

lemma parsed_uris_classified:
  "parsePayUri s e w = (Inr (Some pu), w') \<Longrightarrow> classifyTalerUri s = TalerPay"
  "parseTipUri s e w = (Inr (Some tu), w') \<Longrightarrow> classifyTalerUri s = TalerTip"
  "parseRefundUri s e w = (Inr (Some ru), w') \<Longrightarrow> classifyTalerUri s = TalerRefund"
  "parseWithdrawUri s e w = (Inr (Some wu), w') \<Longrightarrow> classifyTalerUri s = TalerWithdraw"
  by (auto simp: parsePayUri_def parseTipUri_def parseRefundUri_def parseWithdrawUri_def classify_parsed
        split: option.splits)

end
