(* ===== verification/TimeUtil.thy ===== *)
theory TimeUtil
  imports Prelude
begin

text \<open>
  taler-util/src/time.ts: timestamps and durations in milliseconds, with \<open>"never"\<close> and
  \<open>"forever"\<close> as their greatest values. The clock (\<open>Date.getTime\<close> plus the time shift) is a
  parameter of the operations that read it.
\<close>

section \<open>The code\<close>

datatype Timestamp = T_ms int | Never
datatype Duration = D_ms int | Forever

fun timestampCmp :: "Timestamp \<Rightarrow> Timestamp \<Rightarrow> int" where
  "timestampCmp Never Never = 0"
| "timestampCmp Never (T_ms b) = 1"
| "timestampCmp (T_ms a) Never = -1"
| "timestampCmp (T_ms a) (T_ms b) = (if a = b then 0 else if a > b then 1 else -1)"

definition isTimestampExpired :: "int \<Rightarrow> Timestamp \<Rightarrow> bool" where
  "isTimestampExpired now t \<longleftrightarrow> timestampCmp t (T_ms now) \<le> 0"

fun getDurationRemaining :: "Timestamp \<Rightarrow> Timestamp \<Rightarrow> Duration js" where
  "getDurationRemaining Never now = Inr Forever"
| "getDurationRemaining (T_ms d) Never = Inl (JsError (''invalid argument for '' @ [CHR 0x27] @ ''now'' @ [CHR 0x27]))"
| "getDurationRemaining (T_ms d) (T_ms n) = Inr (if d < n then D_ms 0 else D_ms (d - n))"

definition ms_per_year :: int where
  "ms_per_year = 1000 * 60 * 60 * 24 * 365"

text \<open>\<open>Math.ceil(d_ms / 1000 / 60 / 60 / 24 / 365)\<close>.\<close>

fun toIntegerYears :: "Duration \<Rightarrow> int js" where
  "toIntegerYears (D_ms d) = Inr (- ((- d) div ms_per_year))"
| "toIntegerYears Forever = Inl (JsError ''infinite duration'')"

fun timestampMin :: "Timestamp \<Rightarrow> Timestamp \<Rightarrow> Timestamp" where
  "timestampMin Never t2 = t2"
| "timestampMin (T_ms a) Never = Never"
| "timestampMin (T_ms a) (T_ms b) = T_ms (min a b)"

fun timestampMax :: "Timestamp \<Rightarrow> Timestamp \<Rightarrow> Timestamp" where
  "timestampMax Never t2 = Never"
| "timestampMax (T_ms a) Never = Never"
| "timestampMax (T_ms a) (T_ms b) = T_ms (max a b)"

record duration_spec =
  ds_seconds :: "int option"
  ds_minutes :: "int option"
  ds_hours :: "int option"
  ds_days :: "int option"
  ds_months :: "int option"
  ds_years :: "int option"

definition or_zero :: "int option \<Rightarrow> int" where
  "or_zero x = (case x of None \<Rightarrow> 0 | Some v \<Rightarrow> v)"

definition SECONDS :: int where "SECONDS = 1000"
definition MINUTES :: int where "MINUTES = SECONDS * 60"
definition HOURS :: int where "HOURS = MINUTES * 60"
definition DAYS :: int where "DAYS = HOURS * 24"
definition MONTHS :: int where "MONTHS = DAYS * 30"
definition YEARS :: int where "YEARS = DAYS * 365"

definition durationFromSpec :: "duration_spec \<Rightarrow> Duration" where
  "durationFromSpec spec =
    D_ms (or_zero (ds_seconds spec) * SECONDS + or_zero (ds_minutes spec) * MINUTES
      + or_zero (ds_hours spec) * HOURS + or_zero (ds_days spec) * DAYS
      + or_zero (ds_months spec) * MONTHS + or_zero (ds_years spec) * YEARS)"

fun timestampTruncateToSecond :: "Timestamp \<Rightarrow> Timestamp" where
  "timestampTruncateToSecond Never = Never"
| "timestampTruncateToSecond (T_ms t) = T_ms (t div 1000 * 1000)"

fun durationMin :: "Duration \<Rightarrow> Duration \<Rightarrow> Duration" where
  "durationMin Forever d2 = d2"
| "durationMin (D_ms a) Forever = Forever"
| "durationMin (D_ms a) (D_ms b) = D_ms (min a b)"

fun durationMax :: "Duration \<Rightarrow> Duration \<Rightarrow> Duration" where
  "durationMax Forever d2 = Forever"
| "durationMax (D_ms a) Forever = Forever"
| "durationMax (D_ms a) (D_ms b) = D_ms (max a b)"

fun durationMul :: "Duration \<Rightarrow> int \<Rightarrow> Duration" where
  "durationMul Forever n = Forever"
| "durationMul (D_ms d) n = D_ms (d * n)"

fun durationAdd :: "Duration \<Rightarrow> Duration \<Rightarrow> Duration" where
  "durationAdd (D_ms a) (D_ms b) = D_ms (a + b)"
| "durationAdd _ _ = Forever"

fun timestampAddDuration :: "Timestamp \<Rightarrow> Duration \<Rightarrow> Timestamp" where
  "timestampAddDuration (T_ms t) (D_ms d) = T_ms (t + d)"
| "timestampAddDuration _ _ = Never"

fun timestampSubtractDuraction :: "Timestamp \<Rightarrow> Duration \<Rightarrow> Timestamp" where
  "timestampSubtractDuraction Never d = Never"
| "timestampSubtractDuraction (T_ms t) Forever = T_ms 0"
| "timestampSubtractDuraction (T_ms t) (D_ms d) = T_ms (max 0 (t - d))"

fun timestampDifference :: "Timestamp \<Rightarrow> Timestamp \<Rightarrow> Duration" where
  "timestampDifference (T_ms a) (T_ms b) = D_ms \<bar>a - b\<bar>"
| "timestampDifference _ _ = Forever"

definition timestampIsBetween :: "Timestamp \<Rightarrow> Timestamp \<Rightarrow> Timestamp \<Rightarrow> bool" where
  "timestampIsBetween t start fin \<longleftrightarrow>
     (if timestampCmp t start < 0 then False
      else if timestampCmp t fin > 0 then False
      else True)"

section \<open>The order of timestamps and durations\<close>

text \<open>The order the comparisons mean: \<open>"never"\<close> and \<open>"forever"\<close> are above every finite value.\<close>

instantiation Timestamp :: linorder
begin

fun less_eq_Timestamp :: "Timestamp \<Rightarrow> Timestamp \<Rightarrow> bool" where
  "less_eq_Timestamp t Never = True"
| "less_eq_Timestamp Never (T_ms b) = False"
| "less_eq_Timestamp (T_ms a) (T_ms b) = (a \<le> b)"

definition less_Timestamp :: "Timestamp \<Rightarrow> Timestamp \<Rightarrow> bool" where
  "less_Timestamp a b = (\<not> b \<le> a)"

instance
proof
  fix x y z :: Timestamp
  show "x \<le> x" by (cases x) auto
  show "x \<le> y \<or> y \<le> x" by (cases x; cases y) auto
  show "x < y \<longleftrightarrow> x \<le> y \<and> \<not> y \<le> x" by (cases x; cases y) (auto simp: less_Timestamp_def)
  show "x \<le> y \<Longrightarrow> y \<le> x \<Longrightarrow> x = y" by (cases x; cases y) auto
  show "x \<le> y \<Longrightarrow> y \<le> z \<Longrightarrow> x \<le> z" by (cases x; cases y; cases z) auto
qed

end

instantiation Duration :: linorder
begin

fun less_eq_Duration :: "Duration \<Rightarrow> Duration \<Rightarrow> bool" where
  "less_eq_Duration t Forever = True"
| "less_eq_Duration Forever (D_ms b) = False"
| "less_eq_Duration (D_ms a) (D_ms b) = (a \<le> b)"

definition less_Duration :: "Duration \<Rightarrow> Duration \<Rightarrow> bool" where
  "less_Duration a b = (\<not> b \<le> a)"

instance
proof
  fix x y z :: Duration
  show "x \<le> x" by (cases x) auto
  show "x \<le> y \<or> y \<le> x" by (cases x; cases y) auto
  show "x < y \<longleftrightarrow> x \<le> y \<and> \<not> y \<le> x" by (cases x; cases y) (auto simp: less_Duration_def)
  show "x \<le> y \<Longrightarrow> y \<le> x \<Longrightarrow> x = y" by (cases x; cases y) auto
  show "x \<le> y \<Longrightarrow> y \<le> z \<Longrightarrow> x \<le> z" by (cases x; cases y; cases z) auto
qed

end

lemma timestampCmp_order:
  "timestampCmp a b < 0 \<longleftrightarrow> a < b" "timestampCmp a b = 0 \<longleftrightarrow> a = b" "timestampCmp a b > 0 \<longleftrightarrow> b < a"
  by (cases a; cases b; auto simp: less_Timestamp_def)+

lemma isTimestampExpired_order: "isTimestampExpired now t \<longleftrightarrow> t \<le> T_ms now"
  by (cases t) (auto simp: isTimestampExpired_def)

lemma timestampIsBetween_order: "timestampIsBetween t a b \<longleftrightarrow> a \<le> t \<and> t \<le> b"
  by (auto simp: timestampIsBetween_def timestampCmp_order not_less)

lemma timestampMax_order: "timestampMax a b = max a b"
  by (cases a; cases b) (auto simp: max_def)

lemma timestampMin_order: "timestampMin a b = (if b = Never then Never else min a b)"
  by (cases a; cases b) (auto simp: min_def)

lemma durationMax_order: "durationMax a b = max a b"
  by (cases a; cases b) (auto simp: max_def)

lemma durationMin_order: "durationMin a b = (if b = Forever then Forever else min a b)"
  by (cases a; cases b) (auto simp: min_def)

lemma getDurationRemaining_add:
  assumes "getDurationRemaining t (T_ms now) = Inr d"
  shows "timestampAddDuration (T_ms now) d = max t (T_ms now)"
  using assms by (cases t) (auto simp: max_def split: if_splits)

lemma getDurationRemaining_expired:
  "getDurationRemaining t (T_ms now) = Inr (D_ms 0) \<longleftrightarrow> isTimestampExpired now t"
  by (cases t) (auto simp: isTimestampExpired_order)

lemma truncate_bounds:
  "timestampTruncateToSecond t \<le> t"
  "timestampTruncateToSecond (timestampTruncateToSecond t) = timestampTruncateToSecond t"
  by (cases t; simp add: minus_mod_eq_div_mult [symmetric])+

lemma toIntegerYears_bounds:
  assumes "toIntegerYears (D_ms d) = Inr y"
  shows "(y - 1) * ms_per_year < d" "d \<le> y * ms_per_year"
proof -
  define q r where "q = (- d) div ms_per_year" and "r = (- d) mod ms_per_year"
  have pos: "0 < ms_per_year" by (simp add: ms_per_year_def)
  have y: "y = - q" using assms by (simp add: q_def)
  have "- d = q * ms_per_year + r" by (simp add: q_def r_def)
  moreover have "0 \<le> r" "r < ms_per_year" using pos by (simp_all add: r_def)
  ultimately show "(y - 1) * ms_per_year < d" "d \<le> y * ms_per_year"
    unfolding y by (simp_all add: algebra_simps)
qed

end
