(* ===== verification/Json.thy ===== *)
theory Json
  imports Prelude "HOL-Library.Multiset" "HOL-Library.List_Lexorder"
begin

text \<open>
  JSON values and the two operations of the JavaScript standard library the code applies to them,
  \<open>JSON.stringify\<close> and \<open>JSON.parse\<close>, and \<open>canonicalJson\<close> of taler-util/src/helpers.ts.
  Numbers are integers: the code only serialises integral numbers, and a literal with a fraction
  or an exponent is outside the model (\<open>JSON_parse\<close> rejects it).  The parser is bounded by the
  length of its input, which every call that consumes a character stays below.
\<close>

datatype jsval =
    JUndef
  | JNull
  | JBool bool
  | JNum int
  | JStr string
  | JArr "jsval list"
  | JObj "(string \<times> jsval) list"

section \<open>Printing\<close>

definition chr_quote :: char where "chr_quote = CHR 0x22"
definition chr_bslash :: char where "chr_bslash = CHR 0x5C"

definition hex_digit :: "nat \<Rightarrow> char" where
  "hex_digit d = char_of (if d < 10 then 48 + d else 87 + d)"

definition hex4 :: "nat \<Rightarrow> string" where
  "hex4 n = map hex_digit [n div 4096 mod 16, n div 256 mod 16, n div 16 mod 16, n mod 16]"

definition json_escape :: "char \<Rightarrow> string" where
  "json_escape c =
     (if c = chr_quote then [chr_bslash, chr_quote]
      else if c = chr_bslash then [chr_bslash, chr_bslash]
      else if c = CHR 0x08 then [chr_bslash, CHR ''b'']
      else if c = CHR 0x0C then [chr_bslash, CHR ''f'']
      else if c = CHR 0x0A then [chr_bslash, CHR ''n'']
      else if c = CHR 0x0D then [chr_bslash, CHR ''r'']
      else if c = CHR 0x09 then [chr_bslash, CHR ''t'']
      else if (of_char c :: nat) < 0x20 then [chr_bslash, CHR ''u''] @ hex4 (of_char c)
      else [c])"

definition json_string :: "string \<Rightarrow> string" where
  "json_string s = [chr_quote] @ concat (map json_escape s) @ [chr_quote]"

definition json_int :: "int \<Rightarrow> string" where
  "json_int i = (if i < 0 then ''-'' @ nat_str (nat (- i)) else nat_str (nat i))"

fun join_comma :: "string list \<Rightarrow> string" where
  "join_comma [] = []"
| "join_comma [s] = s"
| "join_comma (s # t # ss) = s @ '','' @ join_comma (t # ss)"

fun json_str :: "jsval \<Rightarrow> string"
  and json_elems :: "jsval list \<Rightarrow> string list"
  and json_fields :: "(string \<times> jsval) list \<Rightarrow> string list" where
  "json_str JUndef = ''null''"
| "json_str JNull = ''null''"
| "json_str (JBool b) = (if b then ''true'' else ''false'')"
| "json_str (JNum i) = json_int i"
| "json_str (JStr s) = json_string s"
| "json_str (JArr vs) = ''['' @ join_comma (json_elems vs) @ '']''"
| "json_str (JObj fs) = ''{'' @ join_comma (json_fields fs) @ ''}''"
| "json_elems [] = []"
| "json_elems (v # vs) = json_str v # json_elems vs"
| "json_fields [] = []"
| "json_fields ((k, v) # fs) =
     (if v = JUndef then json_fields fs else (json_string k @ '':'' @ json_str v) # json_fields fs)"

definition JSON_stringify :: "jsval \<Rightarrow> string option" where
  "JSON_stringify v = (if v = JUndef then None else Some (json_str v))"

section \<open>Parsing\<close>

definition is_ws :: "char \<Rightarrow> bool" where
  "is_ws c \<longleftrightarrow> c \<in> {CHR 0x20, CHR 0x09, CHR 0x0A, CHR 0x0D}"

definition skip_ws :: "string \<Rightarrow> string" where
  "skip_ws s = dropWhile is_ws s"

definition hex_val :: "char \<Rightarrow> nat option" where
  "hex_val c =
     (let n = of_char c
      in if 48 \<le> n \<and> n \<le> 57 then Some (n - 48)
         else if 97 \<le> n \<and> n \<le> 102 then Some (n - 87)
         else if 65 \<le> n \<and> n \<le> 70 then Some (n - 55)
         else None)"

fun p_hex4 :: "string \<Rightarrow> (nat \<times> string) option" where
  "p_hex4 (a # b # c # d # r) =
     (case (hex_val a, hex_val b, hex_val c, hex_val d) of
        (Some w, Some x, Some y, Some z) \<Rightarrow> Some (((w * 16 + x) * 16 + y) * 16 + z, r)
      | _ \<Rightarrow> None)"
| "p_hex4 _ = None"

definition utf8 :: "nat \<Rightarrow> string" where
  "utf8 n = map char_of
     (if n < 0x80 then [n]
      else if n < 0x800 then [0xC0 + n div 64, 0x80 + n mod 64]
      else if n < 0x10000 then [0xE0 + n div 4096, 0x80 + n div 64 mod 64, 0x80 + n mod 64]
      else [0xF0 + n div 262144, 0x80 + n div 4096 mod 64, 0x80 + n div 64 mod 64, 0x80 + n mod 64])"

text \<open>
  A \<open>\uXXXX\<close> escape, with a following low surrogate when it is a high one; a surrogate that stays
  alone has no UTF-8 encoding, and \<open>TextEncoder\<close> writes U+FFFD for it.
\<close>

definition p_unicode :: "string \<Rightarrow> (string \<times> string) option" where
  "p_unicode s =
     (case p_hex4 s of
        None \<Rightarrow> None
      | Some (n, r) \<Rightarrow>
          if 0xD800 \<le> n \<and> n < 0xE000 then
            (case (if n < 0xDC00 \<and> take 2 r = [chr_bslash, CHR ''u''] then p_hex4 (drop 2 r) else None) of
               Some (l, r') \<Rightarrow>
                 if 0xDC00 \<le> l \<and> l < 0xE000
                 then Some (utf8 (0x10000 + (n - 0xD800) * 0x400 + (l - 0xDC00)), r')
                 else Some (utf8 0xFFFD, r)
             | None \<Rightarrow> Some (utf8 0xFFFD, r))
          else Some (utf8 n, r))"

definition unescape :: "char \<Rightarrow> char option" where
  "unescape c =
     (if c = chr_quote \<or> c = chr_bslash \<or> c = CHR ''/'' then Some c
      else if c = CHR ''b'' then Some (CHR 0x08)
      else if c = CHR ''f'' then Some (CHR 0x0C)
      else if c = CHR ''n'' then Some (CHR 0x0A)
      else if c = CHR ''r'' then Some (CHR 0x0D)
      else if c = CHR ''t'' then Some (CHR 0x09)
      else None)"

fun p_string :: "nat \<Rightarrow> string \<Rightarrow> (string \<times> string) option" where
  "p_string (Suc n) (c # s) =
     (if c = chr_quote then Some ([], s)
      else if c = chr_bslash then
        (case s of
           [] \<Rightarrow> None
         | e # r \<Rightarrow>
             (case (if e = CHR ''u'' then p_unicode r else map_option (\<lambda>x. ([x], r)) (unescape e)) of
                None \<Rightarrow> None
              | Some (x, r') \<Rightarrow> map_option (\<lambda>(t, q). (x @ t, q)) (p_string n r')))
      else if (of_char c :: nat) < 0x20 then None
      else map_option (\<lambda>(t, q). (c # t, q)) (p_string n s))"
| "p_string _ _ = None"

definition p_nat :: "string \<Rightarrow> (nat \<times> string) option" where
  "p_nat s =
     (let ds = takeWhile is_digit s; r = dropWhile is_digit s
      in if ds = [] \<or> (hd ds = CHR ''0'' \<and> length ds \<noteq> 1)
            \<or> (r \<noteq> [] \<and> hd r \<in> {CHR ''.'', CHR ''e'', CHR ''E''})
         then None else Some (str_nat ds, r))"

definition p_number :: "string \<Rightarrow> (jsval \<times> string) option" where
  "p_number s =
     (if s \<noteq> [] \<and> hd s = CHR ''-'' then map_option (\<lambda>(n, r). (JNum (- int n), r)) (p_nat (tl s))
      else map_option (\<lambda>(n, r). (JNum (int n), r)) (p_nat s))"

definition p_word :: "string \<Rightarrow> jsval \<Rightarrow> string \<Rightarrow> (jsval \<times> string) option" where
  "p_word w v s = (if take (length w) s = w then Some (v, drop (length w) s) else None)"

fun p_value :: "nat \<Rightarrow> string \<Rightarrow> (jsval \<times> string) option"
  and p_elems :: "nat \<Rightarrow> string \<Rightarrow> (jsval list \<times> string) option"
  and p_members :: "nat \<Rightarrow> string \<Rightarrow> ((string \<times> jsval) list \<times> string) option" where
  "p_value 0 s = None"
| "p_value (Suc n) s =
     (case skip_ws s of
        [] \<Rightarrow> None
      | c # r \<Rightarrow>
          if c = chr_quote then map_option (\<lambda>(t, q). (JStr t, q)) (p_string (length s) r)
          else if c = CHR ''['' then
            (if take 1 (skip_ws r) = '']'' then Some (JArr [], drop 1 (skip_ws r))
             else map_option (\<lambda>(vs, q). (JArr vs, q)) (p_elems n r))
          else if c = CHR ''{'' then
            (if take 1 (skip_ws r) = ''}'' then Some (JObj [], drop 1 (skip_ws r))
             else map_option (\<lambda>(fs, q). (JObj (fold (\<lambda>(k, v). js_put k v) fs []), q)) (p_members n r))
          else if c = CHR ''t'' then p_word ''true'' (JBool True) (c # r)
          else if c = CHR ''f'' then p_word ''false'' (JBool False) (c # r)
          else if c = CHR ''n'' then p_word ''null'' JNull (c # r)
          else p_number (c # r))"
| "p_elems 0 s = None"
| "p_elems (Suc n) s =
     (case p_value n s of
        None \<Rightarrow> None
      | Some (v, r) \<Rightarrow>
          (case skip_ws r of
             [] \<Rightarrow> None
           | c # q \<Rightarrow> if c = CHR '','' then map_option (\<lambda>(vs, q). (v # vs, q)) (p_elems n q)
                      else if c = CHR '']'' then Some ([v], q) else None))"
| "p_members 0 s = None"
| "p_members (Suc n) s =
     (case skip_ws s of
        [] \<Rightarrow> None
      | c # r \<Rightarrow>
          if c \<noteq> chr_quote then None
          else (case p_string (length s) r of
             None \<Rightarrow> None
           | Some (k, r) \<Rightarrow>
               (case skip_ws r of
                  [] \<Rightarrow> None
                | c # r \<Rightarrow>
                    if c \<noteq> CHR '':'' then None
                    else (case p_value n r of
                       None \<Rightarrow> None
                     | Some (v, r) \<Rightarrow>
                         (case skip_ws r of
                            [] \<Rightarrow> None
                          | c # q \<Rightarrow>
                              if c = CHR '','' then map_option (\<lambda>(fs, q). ((k, v) # fs, q)) (p_members n q)
                              else if c = CHR ''}'' then Some ([(k, v)], q) else None)))))"

definition JSON_parse :: "string \<Rightarrow> jsval js" where
  "JSON_parse s =
     (case p_value (length s + 1) s of
        Some (v, r) \<Rightarrow> if skip_ws r = [] then Inr v else Inl SyntaxError
      | None \<Rightarrow> Inl SyntaxError)"

section \<open>What is printed is read back\<close>

lemma hex_val_hex_digit [simp]: "d < 16 \<Longrightarrow> hex_val (hex_digit d) = Some d"
  by (auto simp: hex_val_def hex_digit_def Let_def)

lemma p_hex4_hex4: "n < 65536 \<Longrightarrow> p_hex4 (hex4 n @ r) = Some (n, r)"
proof -
  assume n: "n < 65536"
  have "n div 4096 < 16" using n by (simp add: div_less_iff_less_mult)
  then have "((n div 4096 * 16 + n div 256 mod 16) * 16 + n div 16 mod 16) * 16 + n mod 16 = n"
    using div_mult2_eq [of n 16 16] div_mult2_eq [of n 256 16] by simp
  then show ?thesis by (simp add: hex4_def \<open>n div 4096 < 16\<close>)
qed

lemma p_unicode_control: "of_char c < (0x20 :: nat) \<Longrightarrow> p_unicode (hex4 (of_char c) @ r) = Some ([c], r)"
  by (simp add: p_unicode_def p_hex4_hex4 utf8_def)

lemma p_string_escape_char:
  "p_string (Suc n) (json_escape c @ r) = map_option (\<lambda>(t, q). (c # t, q)) (p_string n r)"
proof -
  have ctl: "p_string (Suc n) ([chr_bslash, CHR ''u''] @ hex4 (of_char c) @ r)
      = map_option (\<lambda>(t, q). (c # t, q)) (p_string n r)" if "of_char c < (0x20 :: nat)"
    using p_unicode_control [OF that, of r] by (simp add: chr_bslash_def chr_quote_def)
  show ?thesis
    using ctl by (auto simp: json_escape_def unescape_def chr_bslash_def chr_quote_def)
qed

lemma p_string_escape:
  "length s < n \<Longrightarrow> p_string n (concat (map json_escape s) @ chr_quote # r) = Some (s, r)"
proof (induction s arbitrary: n)
  case Nil
  then show ?case by (cases n) auto
next
  case (Cons c s)
  then obtain k where "n = Suc k" "length s < k" by (cases n) auto
  with Cons.IH [of k] show ?case by (simp add: p_string_escape_char)
qed

lemma length_escaped: "length s \<le> length (concat (map json_escape s))"
proof (induction s)
  case (Cons c s)
  have "1 \<le> length (json_escape c)" by (simp add: json_escape_def)
  with Cons show ?case by simp
qed simp

definition stops :: "string \<Rightarrow> bool" where
  "stops r \<longleftrightarrow> r = [] \<or> hd r \<in> {CHR '','', CHR '']'', CHR ''}''}"

lemma stops_no_digit: "stops r \<Longrightarrow> r \<noteq> [] \<Longrightarrow> \<not> is_digit (hd r)"
  by (auto simp: stops_def is_digit_def)

lemma nat_str_head: "hd (nat_str n) = CHR ''0'' \<Longrightarrow> length (nat_str n) = 1"
proof (induction n rule: nat_str.induct)
  case (1 n)
  show ?case
  proof (cases "n < 10")
    case True
    then show ?thesis by (simp add: nat_str.simps [of n])
  next
    case False
    with 1 have l: "length (nat_str (n div 10)) = 1" "hd (nat_str (n div 10)) = CHR ''0''"
      by (simp_all add: nat_str.simps [of n])
    then have "nat_str (n div 10) = ''0''" by (cases "nat_str (n div 10)") auto
    then have "n div 10 = str_nat ''0''" by (metis str_nat_nat_str)
    then have "n div 10 = 0" by (simp add: str_nat_def digit_val_def)
    with False show ?thesis by auto
  qed
qed

lemma p_nat_nat_str: "stops r \<Longrightarrow> p_nat (nat_str n @ r) = Some (n, r)"
proof -
  assume r: "stops r"
  have "takeWhile is_digit (nat_str n @ r) = nat_str n" "dropWhile is_digit (nat_str n @ r) = r"
    using stops_no_digit [OF r] nat_str_digits [of _ n]
    by (cases r; simp add: takeWhile_append dropWhile_append)+
  moreover have "r \<noteq> [] \<Longrightarrow> hd r \<notin> {CHR ''.'', CHR ''e'', CHR ''E''}"
    using r by (auto simp: stops_def)
  ultimately show ?thesis
    using nat_str_head [of n] by (auto simp: p_nat_def Let_def)
qed

lemma hd_nat_str: "is_digit (hd (nat_str n))"
  using nat_str_digits [of "hd (nat_str n)" n] by simp

lemma p_number_json_int: "stops r \<Longrightarrow> p_number (json_int i @ r) = Some (JNum i, r)"
proof -
  assume r: "stops r"
  have "hd (nat_str n @ r) \<noteq> CHR ''-''" for n
    using hd_nat_str [of n] by (auto simp: is_digit_def)
  then show ?thesis using p_nat_nat_str [OF r] by (simp add: p_number_def json_int_def)
qed


text \<open>Values that survive: no \<open>undefined\<close> inside, no key twice.  \<open>jsize\<close> bounds the calls.\<close>

fun json_ok :: "jsval \<Rightarrow> bool" where
  "json_ok JUndef = False"
| "json_ok (JArr vs) = list_all json_ok vs"
| "json_ok (JObj fs) = (distinct (map fst fs) \<and> list_all (\<lambda>f. json_ok (snd f)) fs)"
| "json_ok _ = True"

fun jsize :: "jsval \<Rightarrow> nat" and jsizes :: "jsval list \<Rightarrow> nat" and jfsizes :: "(string \<times> jsval) list \<Rightarrow> nat" where
  "jsize (JArr vs) = Suc (jsizes vs)"
| "jsize (JObj fs) = Suc (jfsizes fs)"
| "jsize _ = 1"
| "jsizes [] = 0"
| "jsizes (v # vs) = Suc (jsize v + jsizes vs)"
| "jfsizes [] = 0"
| "jfsizes ((k, v) # fs) = Suc (jsize v + jfsizes fs)"

lemma js_put_new: "k \<notin> fst ` set d \<Longrightarrow> js_put k v d = d @ [(k, v)]"
  by (induction d) auto

lemma fold_js_put:
  "distinct (map fst fs) \<Longrightarrow> fst ` set d \<inter> fst ` set fs = {} \<Longrightarrow>
    fold (\<lambda>(k, v). js_put k v) fs d = d @ fs"
proof (induction fs arbitrary: d)
  case (Cons f fs)
  obtain k v where f: "f = (k, v)" by (cases f)
  have "js_put k v d = d @ [(k, v)]" using Cons.prems f by (intro js_put_new) auto
  moreover have "fold (\<lambda>(k, v). js_put k v) fs (d @ [(k, v)]) = (d @ [(k, v)]) @ fs"
    using Cons.prems f by (intro Cons.IH) auto
  ultimately show ?case by (simp add: f)
qed simp

definition starts :: "string \<Rightarrow> bool" where
  "starts s \<longleftrightarrow> s \<noteq> [] \<and> \<not> is_ws (hd s) \<and> hd s \<noteq> CHR '']'' \<and> hd s \<noteq> CHR ''}''"

lemma starts_append: "starts s \<Longrightarrow> skip_ws (s @ r) = s @ r \<and> starts (s @ r)"
  by (cases s) (auto simp: starts_def skip_ws_def)

lemma starts_json_string: "starts (json_string s)"
  by (simp add: json_string_def starts_def chr_quote_def is_ws_def)

lemma json_int_head: "json_int i \<noteq> [] \<and> (hd (json_int i) = CHR ''-'' \<or> is_digit (hd (json_int i)))"
  using hd_nat_str by (simp add: json_int_def)

lemma starts_json_str: "starts (json_str v)"
proof (cases v)
  case (JNum i)
  then show ?thesis
    using json_int_head [of i] by (auto simp: starts_def is_ws_def is_digit_def)
qed (auto simp: starts_json_string, auto simp: starts_def is_ws_def)

lemma starts_elems: "vs \<noteq> [] \<Longrightarrow> starts (join_comma (json_elems vs))"
proof (cases vs)
  case (Cons v ws)
  then show ?thesis using starts_json_str [of v] starts_append by (cases ws) auto
qed simp

lemma starts_fields:
  "fs \<noteq> [] \<Longrightarrow> list_all (\<lambda>f. json_ok (snd f)) fs \<Longrightarrow> starts (join_comma (json_fields fs))"
proof (cases fs)
  case (Cons f gs)
  obtain k v where f: "f = (k, v)" by (cases f)
  assume "list_all (\<lambda>f. json_ok (snd f)) fs"
  then have "v \<noteq> JUndef" using Cons f by auto
  then show ?thesis
    using Cons f starts_append [OF starts_json_string [of k]]
    by (cases "json_fields gs") auto
qed simp

lemma p_value_string:
  "p_value (Suc n) (json_string s @ r) = Some (JStr s, r)"
proof -
  have "length s < length (json_string s @ r)"
    using length_escaped [of s] by (simp add: json_string_def)
  from p_string_escape [OF this, of r] show ?thesis
    using starts_append [OF starts_json_string [of s], of r]
    by (simp add: json_string_def)
qed

lemma p_value_int: "stops r \<Longrightarrow> p_value (Suc n) (json_int i @ r) = Some (JNum i, r)"
proof -
  assume r: "stops r"
  have s: "skip_ws (json_int i @ r) = json_int i @ r"
    using starts_append [OF starts_json_str [of "JNum i"]] by simp
  obtain c t where ct: "json_int i @ r = c # t" "c = CHR ''-'' \<or> is_digit c"
    using json_int_head [of i] by (cases "json_int i") auto
  then have "c \<noteq> chr_quote" "c \<noteq> CHR ''[''" "c \<noteq> CHR ''{''" "c \<noteq> CHR ''t''" "c \<noteq> CHR ''f''" "c \<noteq> CHR ''n''"
    by (auto simp: is_digit_def chr_quote_def)
  then show ?thesis
    using s p_number_json_int [OF r, of i] by (simp add: ct)
qed

lemma stops_simps [simp]: "stops []" "stops (CHR '','' # r)" "stops (CHR '']'' # r)" "stops (CHR ''}'' # r)"
  by (simp_all add: stops_def)

lemma skip_ws_simps [simp]:
  "skip_ws (CHR '','' # r) = CHR '','' # r" "skip_ws (CHR '']'' # r) = CHR '']'' # r"
  "skip_ws (CHR ''}'' # r) = CHR ''}'' # r" "skip_ws (CHR '':'' # r) = CHR '':'' # r"
  "skip_ws (CHR ''['' # r) = CHR ''['' # r" "skip_ws (CHR ''{'' # r) = CHR ''{'' # r"
  "skip_ws (CHR ''t'' # r) = CHR ''t'' # r" "skip_ws (CHR ''f'' # r) = CHR ''f'' # r"
  "skip_ws (CHR ''n'' # r) = CHR ''n'' # r"
  by (simp_all add: skip_ws_def is_ws_def)

lemma take1_starts: "starts s \<Longrightarrow> take 1 s \<noteq> '']'' \<and> take 1 s \<noteq> ''}''"
  by (cases s) (auto simp: starts_def)

theorem p_value_json_str:
  "json_ok v \<Longrightarrow> jsize v \<le> n \<Longrightarrow> stops r \<Longrightarrow> p_value n (json_str v @ r) = Some (v, r)"
  "list_all json_ok vs \<Longrightarrow> vs \<noteq> [] \<Longrightarrow> jsizes vs \<le> n \<Longrightarrow>
    p_elems n (join_comma (json_elems vs) @ '']'' @ r) = Some (vs, r)"
  "list_all (\<lambda>f. json_ok (snd f)) fs \<Longrightarrow> fs \<noteq> [] \<Longrightarrow> jfsizes fs \<le> n \<Longrightarrow>
    p_members n (join_comma (json_fields fs) @ ''}'' @ r) = Some (fs, r)"
proof (induction v and vs and fs arbitrary: n r and n r and n r
    rule: json_str_json_elems_json_fields.induct)
  case (2 n r)
  then show ?case by (cases n) (auto simp: chr_quote_def p_word_def)
next
  case (3 b n r)
  then show ?case by (cases n) (auto simp: chr_quote_def p_word_def)
next
  case (4 i)
  then show ?case using p_value_int by (cases n) auto
next
  case (5 s)
  then show ?case using p_value_string by (cases n) auto
next
  case (6 vs)
  then obtain k where k: "n = Suc k" "jsizes vs \<le> k" by (cases n) auto
  show ?case
  proof (cases "vs = []")
    case False
    with 6 have "p_elems k (join_comma (json_elems vs) @ '']'' @ r) = Some (vs, r)"
      using k by simp
    moreover have s: "starts (join_comma (json_elems vs) @ '']'' @ r)"
        "skip_ws (join_comma (json_elems vs) @ '']'' @ r) = join_comma (json_elems vs) @ '']'' @ r"
      using starts_append [OF starts_elems [OF False]] by auto
    ultimately show ?thesis
      using take1_starts [OF s(1)] by (simp add: k chr_quote_def)
  qed (simp add: k chr_quote_def)
next
  case (7 fs)
  then obtain k where k: "n = Suc k" "jfsizes fs \<le> k" by (cases n) auto
  show ?case
  proof (cases "fs = []")
    case False
    with 7 have "p_members k (join_comma (json_fields fs) @ ''}'' @ r) = Some (fs, r)"
      using k by simp
    moreover have s: "starts (join_comma (json_fields fs) @ ''}'' @ r)"
        "skip_ws (join_comma (json_fields fs) @ ''}'' @ r) = join_comma (json_fields fs) @ ''}'' @ r"
      using starts_append [OF starts_fields [OF False]] 7 by auto
    moreover have "fold (\<lambda>(k, v). js_put k v) fs [] = fs"
      using fold_js_put [of fs "[]"] 7 by simp
    ultimately show ?thesis
      using take1_starts [OF s(1)] by (simp add: k chr_quote_def)
  qed (simp add: k chr_quote_def)
next
  case (9 v vs)
  then obtain k where k: "n = Suc k" "jsize v \<le> k" "jsizes vs \<le> k" by (cases n) auto
  then show ?case using 9 by (cases vs) simp_all
next
  case (11 f v fs)
  then obtain k where k: "n = Suc k" "jsize v \<le> k" "jfsizes fs \<le> k" by (cases n) auto
  have v: "v \<noteq> JUndef" "json_ok v" using 11 by auto
  have s: "p_string (length (json_string f @ q)) (concat (map json_escape f) @ chr_quote # q) = Some (f, q)" for q
    using p_string_escape [of f "length (json_string f @ q)" q] length_escaped [of f]
    by (simp add: json_string_def)
  have q: "json_string f @ q = chr_quote # concat (map json_escape f) @ chr_quote # q" for q
    by (simp add: json_string_def)
  have w: "skip_ws (chr_quote # q) = chr_quote # q" for q
    by (simp add: skip_ws_def is_ws_def chr_quote_def)
  have pv: "p_value k (json_str v @ q) = Some (v, q)" if "stops q" for q
    using 11 v k that by simp
  show ?case
  proof (cases fs)
    case Nil
    then show ?thesis using pv [of "''}'' @ r"] s [of "'':'' @ json_str v @ ''}'' @ r"]
      by (simp add: q w k v)
  next
    case (Cons g gs)
    then have ne: "json_fields fs \<noteq> []" using 11 by (cases g) auto
    have "p_members k (join_comma (json_fields fs) @ ''}'' @ r) = Some (fs, r)"
      using 11 v k Cons by simp
    then show ?thesis
      using ne pv [of "'','' @ join_comma (json_fields fs) @ ''}'' @ r"]
        s [of "'':'' @ json_str v @ '','' @ join_comma (json_fields fs) @ ''}'' @ r"]
      by (cases "json_fields fs") (simp_all add: q w k v)
  qed
qed auto


lemma jsize_le:
  "json_ok v \<Longrightarrow> jsize v \<le> length (json_str v)"
  "list_all json_ok vs \<Longrightarrow> jsizes vs \<le> Suc (length (join_comma (json_elems vs)))"
  "list_all (\<lambda>f. json_ok (snd f)) fs \<Longrightarrow> jfsizes fs \<le> Suc (length (join_comma (json_fields fs)))"
proof (induction v and vs and fs rule: json_str_json_elems_json_fields.induct)
  case (4 i)
  then show ?case using json_int_head [of i] by (cases "json_int i") auto
next
  case (9 v vs)
  then show ?case by (cases "json_elems vs") (cases vs; auto)+
next
  case (11 f v fs)
  then have v: "v \<noteq> JUndef" by auto
  show ?case
  proof (cases fs)
    case Nil
    then show ?thesis using 11 v by auto
  next
    case (Cons g gs)
    then have "json_fields fs \<noteq> []" using 11 by (cases g) auto
    then show ?thesis using 11 v by (cases "json_fields fs") auto
  qed
qed (auto simp: json_string_def)

lemma JSON_parse_stringify:
  assumes "json_ok v"
  shows "\<exists>s. JSON_stringify v = Some s \<and> JSON_parse s = Inr v"
proof -
  have "v \<noteq> JUndef" using assms by auto
  moreover have "p_value (length (json_str v) + 1) (json_str v @ []) = Some (v, [])"
    using assms jsize_le(1) [OF assms] by (intro p_value_json_str(1)) (auto simp: le_SucI)
  ultimately show ?thesis by (simp add: JSON_stringify_def JSON_parse_def skip_ws_def)
qed

section \<open>Canonical JSON\<close>

text \<open>The UTF-16 code units of a string (\<open>charCodeAt\<close>, and the order of \<open>keys.sort()\<close>).\<close>

definition units :: "nat \<Rightarrow> nat list" where
  "units n = (if n < 0x10000 then [n]
              else [0xD800 + (n - 0x10000) div 0x400, 0xDC00 + (n - 0x10000) mod 0x400])"

fun utf16 :: "string \<Rightarrow> nat list" where
  "utf16 [] = []"
| "utf16 (a # s) =
     (let n = of_char a
      in if n < 0x80 then n # utf16 s
         else if n < 0xE0 then
           (case s of b # r \<Rightarrow> units ((n - 0xC0) * 64 + (of_char b - 0x80)) @ utf16 r | [] \<Rightarrow> [0xFFFD])
         else if n < 0xF0 then
           (case s of b # c # r \<Rightarrow>
              units (((n - 0xE0) * 64 + (of_char b - 0x80)) * 64 + (of_char c - 0x80)) @ utf16 r
            | _ \<Rightarrow> [0xFFFD])
         else
           (case s of b # c # d # r \<Rightarrow>
              units ((((n - 0xF0) * 64 + (of_char b - 0x80)) * 64 + (of_char c - 0x80)) * 64
                       + (of_char d - 0x80)) @ utf16 r
            | _ \<Rightarrow> [0xFFFD]))"

definition canon_string :: "string \<Rightarrow> string" where
  "canon_string s =
     concat (map (\<lambda>u. if 0x7F \<le> u then [chr_bslash, CHR ''u''] @ hex4 u else [char_of u])
       (utf16 (json_string s)))"

text \<open>
  The recursive part; every nested call first normalises its argument by
  \<open>JSON.parse(JSON.stringify(obj))\<close>, which changes nothing on a value that was itself parsed
  (\<open>JSON_parse_stringify\<close>).
\<close>

fun canon :: "jsval \<Rightarrow> string"
  and canon_elems :: "jsval list \<Rightarrow> string list"
  and canon_fields :: "(string \<times> jsval) list \<Rightarrow> (string \<times> string) list" where
  "canon (JStr s) = canon_string s"
| "canon (JArr vs) = ''['' @ join_comma (canon_elems vs) @ '']''"
| "canon (JObj fs) =
     ''{'' @ join_comma (map (\<lambda>(k, c). json_string k @ '':'' @ c)
                (sort_key (\<lambda>f. utf16 (fst f)) (canon_fields fs))) @ ''}''"
| "canon v = json_str v"
| "canon_elems [] = []"
| "canon_elems (v # vs) = canon v # canon_elems vs"
| "canon_fields [] = []"
| "canon_fields ((k, v) # fs) = (k, canon v) # canon_fields fs"

definition canonicalJson :: "jsval \<Rightarrow> string js" where
  "canonicalJson obj =
     (case JSON_stringify obj of
        None \<Rightarrow> Inl SyntaxError
      | Some s \<Rightarrow> js_bind (JSON_parse s) (\<lambda>obj. Inr (canon obj)))"

lemma canon_fields_map: "canon_fields fs = map (\<lambda>(k, v). (k, canon v)) fs"
  by (induction fs) auto

lemma canonicalJson_ok: "json_ok v \<Longrightarrow> canonicalJson v = Inr (canon v)"
  using JSON_parse_stringify [of v] by (auto simp: canonicalJson_def)

text \<open>The order in which the properties were added to an object does not show.\<close>

lemma canon_order:
  assumes m: "mset fs = mset gs" and i: "inj_on (\<lambda>f. utf16 (fst f)) (set fs)"
  shows "canon (JObj fs) = canon (JObj gs)"
proof -
  let ?c = "\<lambda>(k, v). (k, canon v)"
  let ?u = "\<lambda>f :: string \<times> string. utf16 (fst f)"
  have "mset (canon_fields fs) = mset (canon_fields gs)"
    using m by (simp add: canon_fields_map)
  moreover have "inj_on ?u (set (canon_fields fs))"
    using i by (fastforce simp: inj_on_def canon_fields_map)
  ultimately have "sort_key ?u (canon_fields fs) = sort_key ?u (canon_fields gs)"
    by (intro sort_key_inj_key_eq) simp_all
  then show ?thesis by simp
qed

lemma canonicalJson_order:
  assumes "mset fs = mset gs" "inj_on (\<lambda>f. utf16 (fst f)) (set fs)" "json_ok (JObj fs)"
  shows "canonicalJson (JObj fs) = canonicalJson (JObj gs)"
proof -
  have "json_ok (JObj gs)"
    using assms(3) mset_eq_setD [OF assms(1)] mset_eq_imp_distinct_iff [of "map fst fs" "map fst gs"] assms(1)
    by (auto simp: list_all_iff)
  then show ?thesis
    by (simp only: canonicalJson_ok [OF assms(3)] canonicalJson_ok canon_order [OF assms(1,2)])
qed

end
