(* ===== verification/Codec.thy ===== *)
theory Codec
  imports Json
begin

text \<open>
  The codecs of taler-util/src/codec.ts, which check the untyped arguments of an action.  A codec
  maps a JSON value and the path that led to it to a value or an exception; as in the code, what
  comes out is again a JSON value, an object holding just the declared properties.
\<close>

type_synonym ctx = "string list option"
type_synonym codec = "jsval \<Rightarrow> ctx \<Rightarrow> jsval js"

text \<open>\<open>x[name]\<close>: reading from \<open>undefined\<close> or \<open>null\<close> throws, from other primitives gives \<open>undefined\<close>.\<close>

definition js_prop :: "jsval \<Rightarrow> string \<Rightarrow> jsval js" where
  "js_prop x name =
     (case x of
        JUndef \<Rightarrow> Inl TypeError
      | JNull \<Rightarrow> Inl TypeError
      | JObj fs \<Rightarrow> Inr (case js_get fs name of Some v \<Rightarrow> v | None \<Rightarrow> JUndef)
      | _ \<Rightarrow> Inr JUndef)"

definition js_typeof :: "jsval \<Rightarrow> string" where
  "js_typeof x =
     (case x of
        JUndef \<Rightarrow> ''undefined'' | JNull \<Rightarrow> ''object'' | JBool _ \<Rightarrow> ''boolean'' | JNum _ \<Rightarrow> ''number''
      | JStr _ \<Rightarrow> ''string'' | JArr _ \<Rightarrow> ''object'' | JObj _ \<Rightarrow> ''object'')"

fun join_with :: "string \<Rightarrow> string list \<Rightarrow> string" where
  "join_with sep [] = []"
| "join_with sep [s] = s"
| "join_with sep (s # t # ss) = s @ sep @ join_with sep (t # ss)"

definition renderContext :: "ctx \<Rightarrow> string" where
  "renderContext c = (case c of Some p \<Rightarrow> join_with ''.'' p | None \<Rightarrow> ''(unknown)'')"

definition joinContext :: "ctx \<Rightarrow> string \<Rightarrow> ctx" where
  "joinContext c part = Some ((case c of Some p \<Rightarrow> p | None \<Rightarrow> []) @ [part])"

section \<open>Primitive codecs\<close>

definition codecForString :: codec where
  "codecForString x c =
     (case x of
        JStr s \<Rightarrow> Inr (JStr s)
      | _ \<Rightarrow> Inl (DecodingError (''expected string at '' @ renderContext c @ '' but got '' @ js_typeof x)))"

definition codecForNumber :: codec where
  "codecForNumber x c =
     (case x of
        JNum n \<Rightarrow> Inr (JNum n)
      | _ \<Rightarrow> Inl (DecodingError (''expected number at '' @ renderContext c @ '' but got '' @ js_typeof x)))"

definition codecForBoolean :: codec where
  "codecForBoolean x c =
     (case x of
        JBool b \<Rightarrow> Inr (JBool b)
      | _ \<Rightarrow> Inl (DecodingError (''expected boolean at '' @ renderContext c @ '' but got '' @ js_typeof x)))"

definition codecForAny :: codec where
  "codecForAny x c = Inr x"

definition codecForConstString :: "string \<Rightarrow> codec" where
  "codecForConstString s x c =
     (if x = JStr s then Inr x
      else case x of
        JStr t \<Rightarrow> Inl (DecodingError (''expected string constant \"'' @ s @ ''\" at '' @ renderContext c
                    @ '' but got string value \"'' @ t @ ''\"''))
      | _ \<Rightarrow> Inl (DecodingError (''expected string constant \"'' @ s @ ''\" at '' @ renderContext c
                    @ '' but got '' @ js_typeof x)))"

definition codecForConstTrue :: codec where
  "codecForConstTrue x c =
     (if x = JBool True then Inr x
      else Inl (DecodingError (''expected boolean true at '' @ renderContext c @ '' but got '' @ js_typeof x)))"

definition codecForConstFalse :: codec where
  "codecForConstFalse x c =
     (if x = JBool False then Inr x
      else Inl (DecodingError (''expected boolean false at '' @ renderContext c @ '' but got '' @ js_typeof x)))"

definition codecForConstNumber :: "int \<Rightarrow> codec" where
  "codecForConstNumber n x c =
     (if x = JNum n then Inr x
      else Inl (DecodingError (''expected number constant \"'' @ json_int n @ ''\" at '' @ renderContext c
                  @ ''  but got '' @ js_typeof x)))"

definition codecOptional :: "codec \<Rightarrow> codec" where
  "codecOptional inner x c = (if x = JUndef \<or> x = JNull then Inr JUndef else inner x c)"

section \<open>Objects, lists, maps, unions\<close>

fun decode_props :: "(string \<times> codec) list \<Rightarrow> jsval \<Rightarrow> ctx \<Rightarrow> jsval obj \<Rightarrow> jsval obj js" where
  "decode_props [] x c obj = Inr obj"
| "decode_props ((name, codec) # props) x c obj =
     js_bind (js_prop x name) (\<lambda>raw.
     js_bind (codec raw (joinContext c name)) (\<lambda>v.
     decode_props props x c (js_put name v obj)))"

definition object_codec :: "string \<Rightarrow> (string \<times> codec) list \<Rightarrow> codec" where
  "object_codec displayName propList x c =
     (let c = (case c of None \<Rightarrow> Some [''('' @ displayName @ '')''] | Some p \<Rightarrow> Some p)
      in if js_typeof x \<noteq> ''object''
         then Inl (DecodingError (''expected object for '' @ displayName @ '' at '' @ renderContext c
                     @ '' but got '' @ js_typeof x))
         else js_bind (decode_props propList x c []) (\<lambda>obj. Inr (JObj obj)))"

fun decode_list :: "codec \<Rightarrow> ctx \<Rightarrow> nat \<Rightarrow> jsval list \<Rightarrow> jsval list js" where
  "decode_list inner c i [] = Inr []"
| "decode_list inner c i (x # xs) =
     js_bind (inner x (joinContext c (''['' @ nat_str i @ '']''))) (\<lambda>v.
     js_bind (decode_list inner c (Suc i) xs) (\<lambda>vs. Inr (v # vs)))"

definition codecForList :: "codec \<Rightarrow> codec" where
  "codecForList inner x c =
     (case x of
        JArr xs \<Rightarrow> js_bind (decode_list inner c 0 xs) (\<lambda>vs. Inr (JArr vs))
      | _ \<Rightarrow> Inl (DecodingError (''expected array at '' @ renderContext c)))"

fun decode_entries :: "codec \<Rightarrow> ctx \<Rightarrow> (string \<times> jsval) list \<Rightarrow> jsval obj \<Rightarrow> jsval obj js" where
  "decode_entries inner c [] m = Inr m"
| "decode_entries inner c ((i, x) # xs) m =
     js_bind (inner x (joinContext c (''['' @ i @ '']''))) (\<lambda>v.
     decode_entries inner c xs (js_put i v m))"

text \<open>\<open>for (const i in x)\<close>: an array is enumerated by its indices, \<open>null\<close> not at all.\<close>

definition for_in :: "jsval \<Rightarrow> (string \<times> jsval) list" where
  "for_in x =
     (case x of
        JObj fs \<Rightarrow> fs
      | JArr vs \<Rightarrow> map (\<lambda>i. (nat_str i, vs ! i)) [0..<length vs]
      | _ \<Rightarrow> [])"

definition codecForMap :: "codec \<Rightarrow> codec" where
  "codecForMap inner x c =
     (if js_typeof x \<noteq> ''object''
      then Inl (DecodingError (''expected object at '' @ renderContext c))
      else js_bind (decode_entries inner c (for_in x) []) (\<lambda>m. Inr (JObj m)))"

definition spread :: "jsval \<Rightarrow> jsval \<Rightarrow> jsval" where
  "spread x y =
     JObj (fold (\<lambda>(k, v). js_put k v) (for_in x @ for_in y) [])"

definition union_codec ::
  "string \<Rightarrow> string \<Rightarrow> codec option \<Rightarrow> (jsval \<times> codec) list \<Rightarrow> codec" where
  "union_codec displayName discriminator baseCodec alternatives x c =
     (let c = (case c of None \<Rightarrow> Some [''('' @ displayName @ '')''] | Some p \<Rightarrow> Some p)
      in js_bind (js_prop x discriminator) (\<lambda>d.
         if d = JUndef
         then Inl (DecodingError (''expected tag for '' @ displayName @ '' at '' @ renderContext c @ ''.''
                     @ discriminator))
         else case map_of (rev alternatives) d of
           None \<Rightarrow> Inl (DecodingError (''unknown tag for '' @ displayName @ '' ''
                     @ (case d of JStr s \<Rightarrow> s | _ \<Rightarrow> json_str d) @ '' at '' @ renderContext c @ ''.''
                     @ discriminator))
         | Some codec \<Rightarrow>
             js_bind (codec x None) (\<lambda>altDecoded.
             case baseCodec of
               Some base \<Rightarrow> js_bind (base x c) (\<lambda>baseDecoded. Inr (spread baseDecoded altDecoded))
             | None \<Rightarrow> Inr altDecoded)))"

text \<open>\<open>codecForTimestamp\<close> of time.ts hands on just \<open>t_ms\<close>.\<close>

definition codecForTimestamp :: codec where
  "codecForTimestamp x c =
     js_bind (js_prop x ''t_ms'') (\<lambda>t.
       case t of
         JStr s \<Rightarrow> if s = ''never'' then Inr (JObj [(''t_ms'', JStr ''never'')])
                   else Inl (JsError (''expected timestamp at '' @ renderContext c))
       | JNum n \<Rightarrow> Inr (JObj [(''t_ms'', JNum n)])
       | _ \<Rightarrow> Inl (JsError (''expected timestamp at '' @ renderContext c)))"

definition codecForDuration :: codec where
  "codecForDuration x c =
     js_bind (js_prop x ''d_ms'') (\<lambda>t.
       case t of
         JStr s \<Rightarrow> if s = ''forever'' then Inr (JObj [(''d_ms'', JStr ''forever'')])
                   else Inl (JsError (''expected duration at '' @ renderContext c))
       | JNum n \<Rightarrow> Inr (JObj [(''d_ms'', JNum n)])
       | _ \<Rightarrow> Inl (JsError (''expected duration at '' @ renderContext c)))"

section \<open>What decoding guarantees\<close>

lemma decode_props_Inr:
  "decode_props props x c obj = Inr v \<Longrightarrow> distinct (map fst props) \<Longrightarrow> set (map fst props) \<inter> set (js_keys obj) = {}
    \<Longrightarrow> \<exists>vs. v = obj @ zip (map fst props) vs \<and> length vs = length props
      \<and> (\<forall>i<length props. \<exists>raw. js_prop x (fst (props ! i)) = Inr raw
            \<and> snd (props ! i) raw (joinContext c (fst (props ! i))) = Inr (vs ! i))"
proof (induction props arbitrary: obj)
  case (Cons p props)
  obtain name codec where p: "p = (name, codec)" by (cases p)
  from Cons.prems(1) obtain raw y where y: "js_prop x name = Inr raw" "codec raw (joinContext c name) = Inr y"
      "decode_props props x c (js_put name y obj) = Inr v"
    by (auto simp: p js_bind_Inr_iff)
  have put: "js_put name y obj = obj @ [(name, y)]"
    using Cons.prems(3) p by (intro js_put_new) (auto simp: js_keys_def)
  have "set (map fst props) \<inter> set (js_keys (js_put name y obj)) = {}"
    using Cons.prems p by (auto simp: js_keys_put)
  from Cons.IH [OF y(3) _ this] Cons.prems(2) obtain vs where vs:
      "v = js_put name y obj @ zip (map fst props) vs" "length vs = length props"
      "\<forall>i<length props. \<exists>raw. js_prop x (fst (props ! i)) = Inr raw
            \<and> snd (props ! i) raw (joinContext c (fst (props ! i))) = Inr (vs ! i)"
    by auto
  then show ?case
    using y put p by (intro exI [of _ "y # vs"]) (auto simp: less_Suc_eq_0_disj)
qed simp

lemma object_codec_Inr:
  assumes "object_codec nm props x c = Inr v" "distinct (map fst props)"
  shows "\<exists>vs. v = JObj (zip (map fst props) vs) \<and> length vs = length props
    \<and> (\<forall>i<length props. \<exists>raw c'. js_prop x (fst (props ! i)) = Inr raw \<and> snd (props ! i) raw c' = Inr (vs ! i))"
proof -
  from assms(1) obtain obj c' where d: "decode_props props x c' [] = Inr obj" "v = JObj obj"
    by (auto simp: object_codec_def Let_def js_bind_Inr_iff split: if_splits)
  from decode_props_Inr [OF d(1) assms(2)] d(2) show ?thesis
    by (fastforce simp: js_keys_def)
qed

lemma decode_list_Inr:
  "decode_list inner c i xs = Inr vs \<Longrightarrow> length vs = length xs \<and> (\<forall>j<length xs. \<exists>c'. inner (xs ! j) c' = Inr (vs ! j))"
proof (induction xs arbitrary: i vs)
  case (Cons x xs)
  then obtain y ys where y: "inner x (joinContext c (''['' @ nat_str i @ '']'')) = Inr y"
      "decode_list inner c (Suc i) xs = Inr ys" "vs = y # ys"
    by (auto simp: js_bind_Inr_iff)
  from Cons.IH [OF y(2)] y(1,3) show ?case by (auto simp: less_Suc_eq_0_disj)
qed simp

end
