(* ===== verification/AnastasisData.thy ===== *)
theory AnastasisData
  imports Prelude
begin

text \<open>
  The tables of anastasis-core/src/anastasis-data.ts: known providers, countries and the identity
  attributes each country requires.  Non-ASCII letters are written as their UTF-8 bytes.
\<close>

record provider_entry =
  pe_url :: string
  pe_currency :: string

record country =
  co_code :: string
  co_name :: string
  co_continent :: string
  co_continent_i18n :: "string obj option"
  co_name_i18n :: "string obj"
  co_currency :: string
  co_call_code :: string

record attribute_spec =
  at_type :: string
  at_name :: string
  at_label :: string
  at_label_i18n :: "string obj option"
  at_widget :: string
  at_uuid :: string
  at_validation_regex :: "string option"
  at_validation_logic :: "string option"
  at_optional :: "bool option"

definition providersList :: "provider_entry list" where
  "providersList = [
     \<lparr>pe_url = ''https://anastasis.demo.taler.net/'', pe_currency = ''KUDOS''\<rparr>,
     \<lparr>pe_url = ''https://kudos.demo.anastasis.lu/'', pe_currency = ''KUDOS''\<rparr>,
     \<lparr>pe_url = ''https://anastasis.demo.taler.net/'', pe_currency = ''EUR''\<rparr>,
     \<lparr>pe_url = ''https://kudos.demo.anastasis.lu/'', pe_currency = ''EUR''\<rparr>,
     \<lparr>pe_url = ''https://anastasis.demo.taler.net/'', pe_currency = ''CHF''\<rparr>,
     \<lparr>pe_url = ''https://kudos.demo.anastasis.lu/'', pe_currency = ''CHF''\<rparr>,
     \<lparr>pe_url = ''http://localhost:8086/'', pe_currency = ''TESTKUDOS''\<rparr>,
     \<lparr>pe_url = ''http://localhost:8087/'', pe_currency = ''TESTKUDOS''\<rparr>,
     \<lparr>pe_url = ''http://localhost:8088/'', pe_currency = ''TESTKUDOS''\<rparr>,
     \<lparr>pe_url = ''http://localhost:8089/'', pe_currency = ''TESTKUDOS''\<rparr>]"

definition countriesList :: "country list" where
  "countriesList = [
     \<lparr>co_code = ''al'', co_name = ''Albania'',
      co_continent = ''Europe'', co_continent_i18n = None,
      co_name_i18n = [(''de_DE'', ''Albanien''), (''en_UK'', ''Albania'')],
      co_currency = ''ALL'', co_call_code = ''+355''\<rparr>,
     \<lparr>co_code = ''be'', co_name = ''Belgium'',
      co_continent = ''Europe'', co_continent_i18n = None,
      co_name_i18n = [(''de_DE'', ''Belgien''), (''en_UK'', ''Belgium'')],
      co_currency = ''EUR'', co_call_code = ''+32''\<rparr>,
     \<lparr>co_code = ''ch'', co_name = ''Switzerland'',
      co_continent = ''Europe'', co_continent_i18n = None,
      co_name_i18n = [(''de_DE'', ''Schweiz''), (''de_CH'', ''Schwiiz''), (''fr_FR'', ''Suisse''), (''en_UK'', ''Swiss'')],
      co_currency = ''CHF'', co_call_code = ''+41''\<rparr>,
     \<lparr>co_code = ''cz'', co_name = ''Czech Republic'',
      co_continent = ''Europe'', co_continent_i18n = None,
      co_name_i18n = [(''en_UK'', ''Czech Republic'')],
      co_currency = ''CZK'', co_call_code = ''+420''\<rparr>,
     \<lparr>co_code = ''de'', co_name = ''Germany'',
      co_continent = ''Europe'', co_continent_i18n = Some [(''de_DE'', ''Europa'')],
      co_name_i18n = [(''de_DE'', ''Deutschland''), (''de_CH'', ''Deutschland''), (''fr_FR'', ''Allemagne''), (''en_UK'', ''Germany'')],
      co_currency = ''EUR'', co_call_code = ''+49''\<rparr>,
     \<lparr>co_code = ''dk'', co_name = ''Denmark'',
      co_continent = ''Europe'', co_continent_i18n = Some [(''de_DE'', ''Europa'')],
      co_name_i18n = [(''en_UK'', ''Denmark'')],
      co_currency = ''DKK'', co_call_code = ''+45''\<rparr>,
     \<lparr>co_code = ''es'', co_name = ''Spain'',
      co_continent = ''Europe'', co_continent_i18n = Some [(''es_ES'', ''Europa'')],
      co_name_i18n = [(''es_ES'', (''Espa'' @ [CHR 0xC3, CHR 0xB1] @ ''a''))],
      co_currency = ''EUR'', co_call_code = ''+44''\<rparr>,
     \<lparr>co_code = ''in'', co_name = ''India'',
      co_continent = ''India'', co_continent_i18n = Some [(''en_EN'', ''India'')],
      co_name_i18n = [(''de_DE'', ''Indien''), (''de_CH'', ''Indien''), (''fr_FR'', (''l'' @ [CHR 0x27] @ ''Inde'')), (''en_UK'', ''India'')],
      co_currency = ''INR'', co_call_code = ''+91''\<rparr>,
     \<lparr>co_code = ''it'', co_name = ''Italy'',
      co_continent = ''Europe'', co_continent_i18n = None,
      co_name_i18n = [(''de_DE'', ''Italien''), (''en_UK'', ''Italy'')],
      co_currency = ''EUR'', co_call_code = ''+39''\<rparr>,
     \<lparr>co_code = ''jp'', co_name = ''Japan'',
      co_continent = ''Asia'', co_continent_i18n = Some [(''en_EN'', ''Japan'')],
      co_name_i18n = [(''de_DE'', ''Japan''), (''de_CH'', ''Japan''), (''en_UK'', ''Japan'')],
      co_currency = ''JPY'', co_call_code = ''+81''\<rparr>,
     \<lparr>co_code = ''sl'', co_name = ''Slovakia'',
      co_continent = ''Europe'', co_continent_i18n = None,
      co_name_i18n = [(''en_UK'', ''Slovakia'')],
      co_currency = ''EUR'', co_call_code = ''+421''\<rparr>,
     \<lparr>co_code = ''us'', co_name = ''United States of America (USA)'',
      co_continent = ''North America'', co_continent_i18n = Some [(''de_DE'', ''Nordamerika'')],
      co_name_i18n = [(''de_DE'', ''Vereinigte Staaten von Amerika (USA)''), (''de_CH'', ''Vereinigte Staaten von Amerika (USA)''), (''fr_FR'', ([CHR 0xC3, CHR 0x89] @ ''tats-Unis d'' @ [CHR 0x27] @ ''Am'' @ [CHR 0xC3, CHR 0xA9] @ ''rique (USA)'')), (''en_UK'', ''United States of America (USA)'')],
      co_currency = ''USD'', co_call_code = ''+1''\<rparr>,
     \<lparr>co_code = ''xx'', co_name = ''Testland'',
      co_continent = ''Testcontinent'', co_continent_i18n = Some [(''de_DE'', ''Testkontinent'')],
      co_name_i18n = [(''de_DE'', ''Testlandt''), (''de_CH'', ''Testlandi''), (''fr_FR'', ''Testpais''), (''en_UK'', ''Testland'')],
      co_currency = ''TESTKUDOS'', co_call_code = ''+00''\<rparr>,
     \<lparr>co_code = ''xy'', co_name = ''Demoland'',
      co_continent = ''Testcontinent'', co_continent_i18n = Some [(''de_DE'', ''Testkontinent'')],
      co_name_i18n = [(''de_DE'', ''Demolandt''), (''de_CH'', ''Demolandi''), (''fr_FR'', ''Demopais''), (''en_UK'', ''Demoland'')],
      co_currency = ''KUDOS'', co_call_code = ''+01''\<rparr>]"

definition attributes_al :: "attribute_spec list" where
  "attributes_al = [
     \<lparr>at_type = ''string'', at_name = ''full_name'', at_label = ''Full name'',
      at_label_i18n = None,
      at_widget = ''anastasis_gtk_ia_full_name'', at_uuid = ''9e8f463f-575f-42cb-85f3-759559997331'',
      at_validation_regex = None,
      at_validation_logic = None, at_optional = None\<rparr>,
     \<lparr>at_type = ''string'', at_name = ''birthplace'', at_label = ''Birthplace'',
      at_label_i18n = None,
      at_widget = ''anastasis_gtk_ia_birthplace'', at_uuid = ''4c822e8e-89c6-11eb-95c4-8b077ad8489f'',
      at_validation_regex = None,
      at_validation_logic = None, at_optional = None\<rparr>,
     \<lparr>at_type = ''string'', at_name = ''nid_number'', at_label = ''Numri i Identitetit'',
      at_label_i18n = Some [(''en'', ''Identity Number''), (''al'', ''Numri i Identitetit'')],
      at_widget = ''anastasis_gtk_ia_nid_al'', at_uuid = ''256e5d30-d65e-481b-9ac4-55f5ac03b24a'',
      at_validation_regex = Some ''^[0-9A-T][0-9](((0|5)[0-9])|10|11|51|52)[0-9]{3}[A-W]$'',
      at_validation_logic = Some ''AL_NID_check'', at_optional = None\<rparr>]"

definition attributes_be :: "attribute_spec list" where
  "attributes_be = [
     \<lparr>at_type = ''string'', at_name = ''full_name'', at_label = ''Full name'',
      at_label_i18n = None,
      at_widget = ''anastasis_gtk_ia_full_name'', at_uuid = ''9e8f463f-575f-42cb-85f3-759559997331'',
      at_validation_regex = None,
      at_validation_logic = None, at_optional = None\<rparr>,
     \<lparr>at_type = ''date'', at_name = ''birthdate'', at_label = ''Birthdate'',
      at_label_i18n = None,
      at_widget = ''anastasis_gtk_ia_birthdate'', at_uuid = ''83d655c7-bdb6-484d-904e-80c1058c8854'',
      at_validation_regex = None,
      at_validation_logic = None, at_optional = None\<rparr>,
     \<lparr>at_type = ''string'', at_name = ''birthplace'', at_label = ''Birthplace'',
      at_label_i18n = None,
      at_widget = ''anastasis_gtk_ia_birthplace'', at_uuid = ''4c822e8e-89c6-11eb-95c4-8b077ad8489f'',
      at_validation_regex = None,
      at_validation_logic = None, at_optional = None\<rparr>,
     \<lparr>at_type = ''string'', at_name = ''nrn_number'', at_label = ''National Register Number'',
      at_label_i18n = Some [(''en'', ''National Register Number'')],
      at_widget = ''anastasis_gtk_ia_nid_be'', at_uuid = ''0452f99a-06f7-48bd-8ac0-2e4ed9a24560'',
      at_validation_regex = Some ''^[0-9]{11}$'',
      at_validation_logic = Some ''BE_NRN_check'', at_optional = None\<rparr>]"

definition attributes_ch :: "attribute_spec list" where
  "attributes_ch = [
     \<lparr>at_type = ''string'', at_name = ''full_name'', at_label = ''Full name'',
      at_label_i18n = None,
      at_widget = ''anastasis_gtk_ia_full_name'', at_uuid = ''9e8f463f-575f-42cb-85f3-759559997331'',
      at_validation_regex = None,
      at_validation_logic = None, at_optional = None\<rparr>,
     \<lparr>at_type = ''date'', at_name = ''birthdate'', at_label = ''Birthdate'',
      at_label_i18n = None,
      at_widget = ''anastasis_gtk_ia_birthdate'', at_uuid = ''83d655c7-bdb6-484d-904e-80c1058c8854'',
      at_validation_regex = None,
      at_validation_logic = None, at_optional = None\<rparr>,
     \<lparr>at_type = ''string'', at_name = ''birthplace'', at_label = ''Birthplace'',
      at_label_i18n = None,
      at_widget = ''anastasis_gtk_ia_birthplace'', at_uuid = ''4c822e8e-89c6-11eb-95c4-8b077ad8489f'',
      at_validation_regex = None,
      at_validation_logic = None, at_optional = None\<rparr>,
     \<lparr>at_type = ''string'', at_name = ''ahv_number'', at_label = ''AHV number'',
      at_label_i18n = Some [(''de_DE'', ''AHV-Nummer''), (''de_CH'', ''AHV-Nummer'')],
      at_widget = ''anastasis_gtk_ia_ahv'', at_uuid = ''1da87570-ba16-4f62-8a7e-cbda92f51591'',
      at_validation_regex = Some ''^(756).[0-9]{4}.[0-9]{4}.[0-9]{2}|(756)[0-9]{10}$'',
      at_validation_logic = Some ''CH_AHV_check'', at_optional = None\<rparr>]"

definition attributes_cz :: "attribute_spec list" where
  "attributes_cz = [
     \<lparr>at_type = ''string'', at_name = ''full_name'', at_label = ''Full name'',
      at_label_i18n = None,
      at_widget = ''anastasis_gtk_ia_full_name'', at_uuid = ''9e8f463f-575f-42cb-85f3-759559997331'',
      at_validation_regex = None,
      at_validation_logic = None, at_optional = None\<rparr>,
     \<lparr>at_type = ''string'', at_name = ''birthplace'', at_label = ''Birthplace'',
      at_label_i18n = None,
      at_widget = ''anastasis_gtk_ia_birthplace'', at_uuid = ''4c822e8e-89c6-11eb-95c4-8b077ad8489f'',
      at_validation_regex = None,
      at_validation_logic = None, at_optional = None\<rparr>,
     \<lparr>at_type = ''string'', at_name = ''birth_number'', at_label = ''Birth Number'',
      at_label_i18n = Some [(''en'', ''Birth Number''), (''cz'', (''rodn'' @ [CHR 0xC3, CHR 0xA9] @ '' '' @ [CHR 0xC4, CHR 0x8D, CHR 0xC3, CHR 0xAD] @ ''slo''))],
      at_widget = ''anastasis_gtk_ia_birthnumber_cz'', at_uuid = ''03e3a05b-1192-44f1-ac36-7425512eee1a'',
      at_validation_regex = Some ''^[0-9]{2}(((0|2|5|7)[0-9])|10|11|31|32|51|52|81|82)/[0-9]{3}[0-9]?$'',
      at_validation_logic = Some ''CZ_BN_check'', at_optional = None\<rparr>]"

definition attributes_de :: "attribute_spec list" where
  "attributes_de = [
     \<lparr>at_type = ''string'', at_name = ''full_name'', at_label = ''Full name'',
      at_label_i18n = None,
      at_widget = ''anastasis_gtk_ia_full_name'', at_uuid = ''9e8f463f-575f-42cb-85f3-759559997331'',
      at_validation_regex = None,
      at_validation_logic = None, at_optional = None\<rparr>,
     \<lparr>at_type = ''date'', at_name = ''birthdate'', at_label = ''Birthdate'',
      at_label_i18n = None,
      at_widget = ''anastasis_gtk_ia_birthdate'', at_uuid = ''83d655c7-bdb6-484d-904e-80c1058c8854'',
      at_validation_regex = None,
      at_validation_logic = None, at_optional = None\<rparr>,
     \<lparr>at_type = ''string'', at_name = ''birthplace'', at_label = ''Birthplace'',
      at_label_i18n = None,
      at_widget = ''anastasis_gtk_ia_birthplace'', at_uuid = ''4c822e8e-89c6-11eb-95c4-8b077ad8489f'',
      at_validation_regex = None,
      at_validation_logic = None, at_optional = None\<rparr>,
     \<lparr>at_type = ''string'', at_name = ''tax_number'', at_label = ''Taxpayer identification number'',
      at_label_i18n = Some [(''de_DE'', ''Steuerliche Identifikationsnummer''), (''en'', ''German taxpayer identification number'')],
      at_widget = ''anastasis_gtk_ia_tax_de'', at_uuid = ''dae48f85-e3ff-47a4-a4a3-ed981ed8c3c6'',
      at_validation_regex = Some ''^[0-9]{11}$'',
      at_validation_logic = Some ''DE_TIN_check'', at_optional = None\<rparr>,
     \<lparr>at_type = ''string'', at_name = ''social_security_number'', at_label = ''Social security number'',
      at_label_i18n = Some [(''de_DE'', ''Deutsche Sozialversicherungsnummer''), (''en'', ''German Social security number'')],
      at_widget = ''anastasis_gtk_ia_ssn_de'', at_uuid = ''d5e2aa79-1c88-4cf4-a4d2-252508b38e05'',
      at_validation_regex = Some ''^[0-9]{8}[[:upper:]][0-9]{3}$'',
      at_validation_logic = Some ''DE_SVN_check'', at_optional = Some True\<rparr>]"

definition attributes_dk :: "attribute_spec list" where
  "attributes_dk = [
     \<lparr>at_type = ''string'', at_name = ''full_name'', at_label = ''Full name'',
      at_label_i18n = None,
      at_widget = ''anastasis_gtk_ia_full_name'', at_uuid = ''9e8f463f-575f-42cb-85f3-759559997331'',
      at_validation_regex = None,
      at_validation_logic = None, at_optional = None\<rparr>,
     \<lparr>at_type = ''string'', at_name = ''birthplace'', at_label = ''Birthplace'',
      at_label_i18n = None,
      at_widget = ''anastasis_gtk_ia_birthplace'', at_uuid = ''4c822e8e-89c6-11eb-95c4-8b077ad8489f'',
      at_validation_regex = None,
      at_validation_logic = None, at_optional = None\<rparr>,
     \<lparr>at_type = ''string'', at_name = ''cpr_number'', at_label = ''CPR-nummer'',
      at_label_i18n = Some [(''en'', ''CPR Number''), (''dk'', ''CPR-nummer'')],
      at_widget = ''anastasis_gtk_ia_cpr_dk'', at_uuid = ''38f13a4d-4302-4ada-ada1-c3ff4a8ff689'',
      at_validation_regex = Some ''^(0[1-9]|[1-2][0-9]|30|31)((0[1-9]|10|11|12))[0-9]{2}-[0-9A-Z]{4}$'',
      at_validation_logic = None, at_optional = None\<rparr>]"

definition attributes_es :: "attribute_spec list" where
  "attributes_es = [
     \<lparr>at_type = ''string'', at_name = ''full_name'', at_label = ''Full name'',
      at_label_i18n = None,
      at_widget = ''anastasis_gtk_ia_full_name'', at_uuid = ''9e8f463f-575f-42cb-85f3-759559997331'',
      at_validation_regex = None,
      at_validation_logic = None, at_optional = None\<rparr>,
     \<lparr>at_type = ''date'', at_name = ''birthdate'', at_label = ''Birthdate'',
      at_label_i18n = None,
      at_widget = ''anastasis_gtk_ia_birthdate'', at_uuid = ''83d655c7-bdb6-484d-904e-80c1058c8854'',
      at_validation_regex = None,
      at_validation_logic = None, at_optional = None\<rparr>,
     \<lparr>at_type = ''string'', at_name = ''birthplace'', at_label = ''Birthplace'',
      at_label_i18n = None,
      at_widget = ''anastasis_gtk_ia_birthplace'', at_uuid = ''4c822e8e-89c6-11eb-95c4-8b077ad8489f'',
      at_validation_regex = None,
      at_validation_logic = None, at_optional = None\<rparr>,
     \<lparr>at_type = ''string'', at_name = ''tax_number'', at_label = ''Tax number'',
      at_label_i18n = Some [(''es_ES'', (''N'' @ [CHR 0xC3, CHR 0xBA] @ ''mero de Identificaci'' @ [CHR 0xC3, CHR 0xB3] @ ''n Fiscal (DNI, NIE)''))],
      at_widget = ''anastasis_gtk_ia_es_dni'', at_uuid = ''ac8bd865-6be8-445c-b650-6a18eef16a49'',
      at_validation_regex = Some ''^[0-9MXYZ][0-9]{7}[TRWAGMYFPDXBNJZSQVHLCKE]$'',
      at_validation_logic = Some ''ES_DNI_check'', at_optional = None\<rparr>,
     \<lparr>at_type = ''string'', at_name = ''ssn_number'', at_label = ''Social security number'',
      at_label_i18n = Some [(''es_ES'', (''N'' @ [CHR 0xC3, CHR 0xBA] @ ''mero de Seguridad Social''))],
      at_widget = ''anastasis_gtk_ia_es_ssn'', at_uuid = ''22396a19-f3bb-497e-b63a-961fd639140e'',
      at_validation_regex = Some ''^[0-9]{11}$'',
      at_validation_logic = None, at_optional = None\<rparr>]"

definition attributes_in :: "attribute_spec list" where
  "attributes_in = [
     \<lparr>at_type = ''string'', at_name = ''full_name'', at_label = ''Full name'',
      at_label_i18n = None,
      at_widget = ''anastasis_gtk_ia_full_name'', at_uuid = ''9e8f463f-575f-42cb-85f3-759559997331'',
      at_validation_regex = None,
      at_validation_logic = None, at_optional = None\<rparr>,
     \<lparr>at_type = ''date'', at_name = ''birthdate'', at_label = ''Birthdate'',
      at_label_i18n = None,
      at_widget = ''anastasis_gtk_ia_birthdate'', at_uuid = ''83d655c7-bdb6-484d-904e-80c1058c8854'',
      at_validation_regex = None,
      at_validation_logic = None, at_optional = None\<rparr>,
     \<lparr>at_type = ''string'', at_name = ''birthplace'', at_label = ''Birthplace'',
      at_label_i18n = None,
      at_widget = ''anastasis_gtk_ia_birthplace'', at_uuid = ''4c822e8e-89c6-11eb-95c4-8b077ad8489f'',
      at_validation_regex = None,
      at_validation_logic = None, at_optional = None\<rparr>,
     \<lparr>at_type = ''string'', at_name = ''aadhar_number'', at_label = ''Aadhar number'',
      at_label_i18n = Some [(''en'', ''Aadhar number'')],
      at_widget = ''anastasis_gtk_ia_aadhar_in'', at_uuid = ''55afe97a-98bc-48d1-bb37-a9658be3fdc9'',
      at_validation_regex = Some (''^[2-9]{1}[0-9]{3}'' @ [CHR 0x5C] @ ''s[0-9]{4}'' @ [CHR 0x5C] @ ''s[0-9]{4}$''),
      at_validation_logic = Some ''IN_AADHAR_check'', at_optional = None\<rparr>]"

definition attributes_it :: "attribute_spec list" where
  "attributes_it = [
     \<lparr>at_type = ''string'', at_name = ''full_name'', at_label = ''Full name'',
      at_label_i18n = None,
      at_widget = ''anastasis_gtk_ia_full_name'', at_uuid = ''9e8f463f-575f-42cb-85f3-759559997331'',
      at_validation_regex = None,
      at_validation_logic = None, at_optional = None\<rparr>,
     \<lparr>at_type = ''string'', at_name = ''birthplace'', at_label = ''Birthplace'',
      at_label_i18n = None,
      at_widget = ''anastasis_gtk_ia_birthplace'', at_uuid = ''4c822e8e-89c6-11eb-95c4-8b077ad8489f'',
      at_validation_regex = None,
      at_validation_logic = None, at_optional = None\<rparr>,
     \<lparr>at_type = ''string'', at_name = ''fiscal_code'', at_label = ''Codice fiscale'',
      at_label_i18n = Some [(''it'', ''Codice fiscale''), (''en'', ''Fiscal code'')],
      at_widget = ''anastasis_gtk_ia_cf_it'', at_uuid = ''88f53c51-52ad-4d63-a163-ec042589f925'',
      at_validation_regex = Some ''^[[:upper:]]{6}[0-9]{2}[A-EHLMPRT](([0-24-6][0-9])|(30|31|70|71))[A-MZ][0-9]{3}[A-Z]$'',
      at_validation_logic = Some ''IT_CF_check'', at_optional = None\<rparr>]"

definition attributes_jp :: "attribute_spec list" where
  "attributes_jp = [
     \<lparr>at_type = ''string'', at_name = ''full_name'', at_label = ''Full name'',
      at_label_i18n = None,
      at_widget = ''anastasis_gtk_ia_full_name'', at_uuid = ''9e8f463f-575f-42cb-85f3-759559997331'',
      at_validation_regex = None,
      at_validation_logic = None, at_optional = None\<rparr>,
     \<lparr>at_type = ''date'', at_name = ''birthdate'', at_label = ''Birthdate'',
      at_label_i18n = None,
      at_widget = ''anastasis_gtk_ia_birthdate'', at_uuid = ''83d655c7-bdb6-484d-904e-80c1058c8854'',
      at_validation_regex = None,
      at_validation_logic = None, at_optional = None\<rparr>,
     \<lparr>at_type = ''string'', at_name = ''birthplace'', at_label = ''Birthplace'',
      at_label_i18n = None,
      at_widget = ''anastasis_gtk_ia_birthplace'', at_uuid = ''4c822e8e-89c6-11eb-95c4-8b077ad8489f'',
      at_validation_regex = None,
      at_validation_logic = None, at_optional = None\<rparr>,
     \<lparr>at_type = ''string'', at_name = ''my_number'', at_label = ''My number'',
      at_label_i18n = Some [(''en'', ''My number''), (''jp'', [CHR 0xE3, CHR 0x83, CHR 0x9E, CHR 0xE3, CHR 0x82, CHR 0xA4, CHR 0xE3, CHR 0x83, CHR 0x8A, CHR 0xE3, CHR 0x83, CHR 0xB3, CHR 0xE3, CHR 0x83, CHR 0x90, CHR 0xE3, CHR 0x83, CHR 0xBC])],
      at_widget = ''anastasis_gtk_ia_my_jp'', at_uuid = ''90848f42-a83e-4226-8186-329696c14152'',
      at_validation_regex = Some ''^[0-9]{12}$'',
      at_validation_logic = None, at_optional = None\<rparr>]"

definition attributes_sk :: "attribute_spec list" where
  "attributes_sk = [
     \<lparr>at_type = ''string'', at_name = ''full_name'', at_label = ''Full name'',
      at_label_i18n = None,
      at_widget = ''anastasis_gtk_ia_full_name'', at_uuid = ''9e8f463f-575f-42cb-85f3-759559997331'',
      at_validation_regex = None,
      at_validation_logic = None, at_optional = None\<rparr>,
     \<lparr>at_type = ''string'', at_name = ''birthplace'', at_label = ''Birthplace'',
      at_label_i18n = None,
      at_widget = ''anastasis_gtk_ia_birthplace'', at_uuid = ''4c822e8e-89c6-11eb-95c4-8b077ad8489f'',
      at_validation_regex = None,
      at_validation_logic = None, at_optional = None\<rparr>,
     \<lparr>at_type = ''string'', at_name = ''birth_number'', at_label = ''Birth Number'',
      at_label_i18n = Some [(''en'', ''Birth Number''), (''sk'', (''rodn'' @ [CHR 0xC3, CHR 0xA9] @ '' '' @ [CHR 0xC4, CHR 0x8D, CHR 0xC3, CHR 0xAD] @ ''slo''))],
      at_widget = ''anastasis_gtk_ia_birthnumber_sk'', at_uuid = ''1cd372fe-2cea-4928-9f29-66f2bdd8555c'',
      at_validation_regex = Some ''^[0-9]{2}(((0|2|5|7)[0-9])|10|11|31|32|51|52|81|82)/[0-9]{3}[0-9]?$'',
      at_validation_logic = Some ''CZ_BN_check'', at_optional = None\<rparr>]"

definition attributes_us :: "attribute_spec list" where
  "attributes_us = [
     \<lparr>at_type = ''string'', at_name = ''full_name'', at_label = ''Full name'',
      at_label_i18n = None,
      at_widget = ''anastasis_gtk_ia_full_name'', at_uuid = ''9e8f463f-575f-42cb-85f3-759559997331'',
      at_validation_regex = None,
      at_validation_logic = None, at_optional = None\<rparr>,
     \<lparr>at_type = ''date'', at_name = ''birthdate'', at_label = ''Birthdate'',
      at_label_i18n = None,
      at_widget = ''anastasis_gtk_ia_birthdate'', at_uuid = ''83d655c7-bdb6-484d-904e-80c1058c8854'',
      at_validation_regex = None,
      at_validation_logic = None, at_optional = None\<rparr>,
     \<lparr>at_type = ''string'', at_name = ''birthplace'', at_label = ''Birthplace'',
      at_label_i18n = None,
      at_widget = ''anastasis_gtk_ia_birthplace'', at_uuid = ''4c822e8e-89c6-11eb-95c4-8b077ad8489f'',
      at_validation_regex = None,
      at_validation_logic = None, at_optional = None\<rparr>,
     \<lparr>at_type = ''string'', at_name = ''social_security_number'', at_label = ''Social security number'',
      at_label_i18n = Some [(''en'', ''US Social security number'')],
      at_widget = ''anastasis_gtk_ia_ssn_us'', at_uuid = ''310a138c-b0b7-4985-b8b8-d00e765e9f9b'',
      at_validation_regex = Some ''^d{3}-d{2}-d{4}$'',
      at_validation_logic = None, at_optional = None\<rparr>]"

definition attributes_xx :: "attribute_spec list" where
  "attributes_xx = [
     \<lparr>at_type = ''string'', at_name = ''full_name'', at_label = ''Full name'',
      at_label_i18n = None,
      at_widget = ''anastasis_gtk_ia_full_name'', at_uuid = ''9e8f463f-575f-42cb-85f3-759559997331'',
      at_validation_regex = None,
      at_validation_logic = None, at_optional = None\<rparr>,
     \<lparr>at_type = ''date'', at_name = ''birthdate'', at_label = ''Birthdate'',
      at_label_i18n = None,
      at_widget = ''anastasis_gtk_ia_birthdate'', at_uuid = ''83d655c7-bdb6-484d-904e-80c1058c8854'',
      at_validation_regex = None,
      at_validation_logic = None, at_optional = None\<rparr>,
     \<lparr>at_type = ''string'', at_name = ''sq_number'', at_label = ''Square number'',
      at_label_i18n = None,
      at_widget = ''anastasis_gtk_xx_square'', at_uuid = ''ed790bca-89bf-11eb-96f2-233996cf644e'',
      at_validation_regex = Some ''^[0-9]+$'',
      at_validation_logic = Some ''XX_SQUARE_check'', at_optional = None\<rparr>]"

definition attributes_xy :: "attribute_spec list" where
  "attributes_xy = [
     \<lparr>at_type = ''string'', at_name = ''full_name'', at_label = ''Full name'',
      at_label_i18n = None,
      at_widget = ''anastasis_gtk_ia_full_name'', at_uuid = ''9e8f463f-575f-42cb-85f3-759559997331'',
      at_validation_regex = None,
      at_validation_logic = None, at_optional = None\<rparr>,
     \<lparr>at_type = ''date'', at_name = ''birthdate'', at_label = ''Birthdate'',
      at_label_i18n = None,
      at_widget = ''anastasis_gtk_ia_birthdate'', at_uuid = ''83d655c7-bdb6-484d-904e-80c1058c8854'',
      at_validation_regex = None,
      at_validation_logic = None, at_optional = None\<rparr>,
     \<lparr>at_type = ''string'', at_name = ''prime_number'', at_label = ''Prime number'',
      at_label_i18n = None,
      at_widget = ''anastasis_gtk_xx_prime'', at_uuid = ''39190a95-cacb-4412-8bae-1f7da3f980b4'',
      at_validation_regex = Some ''^[0-9]+$'',
      at_validation_logic = Some ''XY_PRIME_check'', at_optional = None\<rparr>]"

definition countryDetails :: "attribute_spec list obj" where
  "countryDetails = [
     (''al'', attributes_al),
     (''be'', attributes_be),
     (''ch'', attributes_ch),
     (''cz'', attributes_cz),
     (''de'', attributes_de),
     (''dk'', attributes_dk),
     (''es'', attributes_es),
     (''in'', attributes_in),
     (''it'', attributes_it),
     (''jp'', attributes_jp),
     (''sk'', attributes_sk),
     (''us'', attributes_us),
     (''xx'', attributes_xx),
     (''xy'', attributes_xy)]"

end
