(* ===== verification/ReducerTypes.thy ===== *)
theory ReducerTypes
  imports Amounts TimeUtil Codec AnastasisData
begin

text \<open>
  The data of the reducer: anastasis-core/src/reducer-types.ts, recovery-document-types.ts,
  challenge-feedback-types.ts and provider-types.ts, the states of the two flows, and the codecs
  of the actions.  A property declared optional is an option.
\<close>

section \<open>Shared data\<close>

record continent_info =
  ci_name :: string
  ci_name_i18n :: "string obj option"

record policy_member =
  pm_authentication_method :: int
  pm_provider :: string

record policy =
  pol_methods :: "policy_member list"

record policy_provider =
  pp_provider_url :: string

record success_detail =
  policy_version :: "int option"
  policy_expiration :: "int option"

record core_secret =
  cs_mime :: string
  cs_value :: string
  cs_filename :: "string option"

record auth_method =
  am_type :: string
  am_instructions :: string
  am_challenge :: string
  am_mime_type :: "string option"

record method_spec =
  ms_type :: string
  ms_usage_fee :: "string option"

text \<open>
  \<open>AuthenticationProviderStatus\<close>: what \<open>selectCountry\<close> stores (\<open>Unchecked\<close>), what
  \<open>getProviderInfo\<close> returns (\<open>Checked\<close>, or \<open>CheckFailed\<close>, which carries \<open>code\<close> and perhaps
  \<open>http_status\<close>) and the error status of the TypeScript interface, with \<open>error_code\<close>.  A field of a
  \<open>/config\<close> answer that is not a string is \<open>None\<close>.
\<close>

record provider_ok =
  annual_fee :: "string option"
  business_name :: "string option"
  po_currency :: "string option"
  liability_limit :: "string option"
  prov_methods :: "method_spec list"
  prov_salt :: "string option"
  storage_limit_in_megabytes :: "int option"
  truth_upload_fee :: "string option"

datatype provider_status =
    Unchecked
  | Checked provider_ok
  | CheckFailed (cf_code: nat) (cf_hint: string) (cf_http_status: "nat option")
  | StatusError (se_http_status: nat) (se_error_code: nat)

definition has_error_code :: "provider_status \<Rightarrow> bool" where
  "has_error_code p = (case p of StatusError _ _ \<Rightarrow> True | _ \<Rightarrow> False)"

definition provider_http_status :: "provider_status \<Rightarrow> nat option" where
  "provider_http_status p =
     (case p of Unchecked \<Rightarrow> None | Checked _ \<Rightarrow> Some 200 | CheckFailed _ _ h \<Rightarrow> h | StatusError h _ \<Rightarrow> Some h)"

text \<open>Reading a property of the successful status from any status.\<close>

definition provider_salt :: "provider_status \<Rightarrow> string option" where
  "provider_salt p = (case p of Checked ok \<Rightarrow> prov_salt ok | _ \<Rightarrow> None)"

definition provider_methods :: "provider_status \<Rightarrow> method_spec list option" where
  "provider_methods p = (case p of Checked ok \<Rightarrow> Some (prov_methods ok) | _ \<Rightarrow> None)"

definition provider_truth_upload_fee :: "provider_status \<Rightarrow> string option" where
  "provider_truth_upload_fee p = (case p of Checked ok \<Rightarrow> truth_upload_fee ok | _ \<Rightarrow> None)"

section \<open>The recovery document\<close>

record escrow_method =
  es_url :: string
  es_type :: string
  es_uuid :: string
  es_truth_key :: string
  es_truth_salt :: string
  es_provider_salt :: "string option"
  es_instructions :: string

record decryption_policy =
  dp_salt :: string
  dp_master_key :: string
  dp_uuids :: "string list"

record recovery_document =
  rd_secret_name :: "string option"
  rd_encrypted_core_secret :: string
  rd_escrow_methods :: "escrow_method list"
  rd_policies :: "decryption_policy list"

record truth_metadata =
  tm_uuid :: string
  tm_key_share :: string
  tm_policy_index :: nat
  tm_pol_method_index :: nat
  tm_nonce :: string
  tm_truth_key :: string
  tm_truth_salt :: string

record recovery_data =
  rcd_truth_metadata :: "truth_metadata obj"
  rcd_recovery_document :: recovery_document

section \<open>Challenges\<close>

record iban_feedback =
  if_answer_code :: "int option"
  if_business_name :: "string option"
  if_challenge_amount :: "string option"
  if_credit_iban :: "string option"
  if_wire_transfer_subject :: "string option"

datatype challenge_feedback =
    Solved
  | ServerFailure nat
  | TruthUnknown
  | Redirect nat string
  | Payment string string string
  | Pending
  | Message string
  | Unsupported nat string
  | RateLimitExceeded
  | AuthIban iban_feedback

record challenge_info =
  ch_cost :: "string option"
  ch_instructions :: string
  ch_type :: string
  ch_uuid :: string

record recovery_internal_data =
  ri_secret_name :: string
  ri_provider_url :: string
  ri_version :: "int option"

record recovery_information =
  rinf_challenges :: "challenge_info list"
  rinf_policies :: "string list list"

section \<open>The states\<close>

datatype backup_states =
    BContinentSelecting | BCountrySelecting | BUserAttributesCollecting | BAuthenticationsEditing
  | BPoliciesReviewing | BSecretEditing | BTruthsPaying | BPoliciesPaying | BBackupFinished

datatype recovery_states =
    RContinentSelecting | RCountrySelecting | RUserAttributesCollecting | RSecretSelecting
  | RChallengeSelecting | RChallengePaying | RChallengeSolving | RRecoveryFinished

definition backup_state_name :: "backup_states \<Rightarrow> string" where
  "backup_state_name s =
     (case s of
        BContinentSelecting \<Rightarrow> ''CONTINENT_SELECTING''
      | BCountrySelecting \<Rightarrow> ''COUNTRY_SELECTING''
      | BUserAttributesCollecting \<Rightarrow> ''USER_ATTRIBUTES_COLLECTING''
      | BAuthenticationsEditing \<Rightarrow> ''AUTHENTICATIONS_EDITING''
      | BPoliciesReviewing \<Rightarrow> ''POLICIES_REVIEWING''
      | BSecretEditing \<Rightarrow> ''SECRET_EDITING''
      | BTruthsPaying \<Rightarrow> ''TRUTHS_PAYING''
      | BPoliciesPaying \<Rightarrow> ''POLICIES_PAYING''
      | BBackupFinished \<Rightarrow> ''BACKUP_FINISHED'')"

definition recovery_state_name :: "recovery_states \<Rightarrow> string" where
  "recovery_state_name s =
     (case s of
        RContinentSelecting \<Rightarrow> ''CONTINENT_SELECTING''
      | RCountrySelecting \<Rightarrow> ''COUNTRY_SELECTING''
      | RUserAttributesCollecting \<Rightarrow> ''USER_ATTRIBUTES_COLLECTING''
      | RSecretSelecting \<Rightarrow> ''SECRET_SELECTING''
      | RChallengeSelecting \<Rightarrow> ''CHALLENGE_SELECTING''
      | RChallengePaying \<Rightarrow> ''CHALLENGE_PAYING''
      | RChallengeSolving \<Rightarrow> ''CHALLENGE_SOLVING''
      | RRecoveryFinished \<Rightarrow> ''RECOVERY_FINISHED'')"

text \<open>A policies array may have holes: \<open>updatePolicy\<close> assigns at any index.\<close>

record backup =
  backup_state :: backup_states
  currencies :: "string list option"
  continents :: "continent_info list option"
  countries :: "country list option"
  identity_attributes :: "jsval option"
  authentication_providers :: "provider_status obj option"
  authentication_methods :: "auth_method list option"
  required_attributes :: "attribute_spec list option"
  selected_continent :: "string option"
  selected_country :: "string option"
  secret_name :: "string option"
  policies :: "policy option list option"
  recovery_data :: "recovery_data option"
  policy_providers :: "policy_provider list option"
  success_details :: "success_detail obj option"
  payments :: "string list option"
  policy_payment_requests :: "(string \<times> string) list option"
  core_secret :: "core_secret option"
  expiration :: "Timestamp option"
  upload_fees :: "string list option"
  truth_upload_payment_secrets :: "string obj option"

record recovery =
  recovery_state :: recovery_states
  r_identity_attributes :: "jsval option"
  r_continents :: "continent_info list option"
  r_countries :: "country list option"
  r_selected_continent :: "string option"
  r_selected_country :: "string option"
  r_currencies :: "string list option"
  r_required_attributes :: "attribute_spec list option"
  recovery_information :: "recovery_information option"
  recovery_document :: "recovery_internal_data option"
  verbatim_recovery_document :: "recovery_document option"
  selected_challenge_uuid :: "string option"
  selected_version :: "int option"
  selected_provider_url :: "string option"
  challenge_feedback :: "challenge_feedback obj option"
  recovered_key_shares :: "string obj option"
  r_core_secret :: "jsval option"
  r_authentication_providers :: "provider_status obj option"

datatype reducer_state =
    Backup backup
  | Recovery recovery
  | Error error_details

section \<open>The codecs of the actions\<close>

definition codecForActionArgsEnterUserAttributes :: codec where
  "codecForActionArgsEnterUserAttributes =
     object_codec ''ActionArgsEnterUserAttributes'' [(''identity_attributes'', codecForAny)]"

definition codecForActionArgSelectContinent :: codec where
  "codecForActionArgSelectContinent =
     object_codec ''ActionArgSelectContinent'' [(''continent'', codecForString)]"

definition codecForActionArgsChangeVersion :: codec where
  "codecForActionArgsChangeVersion =
     object_codec ''ActionArgsChangeVersion'' [(''provider_url'', codecForString), (''version'', codecForNumber)]"

definition codecForPolicyMember :: codec where
  "codecForPolicyMember =
     object_codec ''PolicyMember'' [(''authentication_method'', codecForNumber), (''provider'', codecForString)]"

definition codecForActionArgsAddPolicy :: codec where
  "codecForActionArgsAddPolicy =
     object_codec ''ActionArgsAddPolicy'' [(''policy'', codecForList codecForPolicyMember)]"

definition codecForActionArgsUpdateExpiration :: codec where
  "codecForActionArgsUpdateExpiration =
     object_codec ''ActionArgsUpdateExpiration'' [(''expiration'', codecForTimestamp)]"

definition codecForActionArgsSelectChallenge :: codec where
  "codecForActionArgsSelectChallenge =
     object_codec ''ActionArgsSelectChallenge'' [(''uuid'', codecForString)]"

definition codecForActionArgSelectCountry :: codec where
  "codecForActionArgSelectCountry =
     object_codec ''ActionArgSelectCountry''
       [(''country_code'', codecForString), (''currencies'', codecForList codecForString)]"

section \<open>Reading decoded arguments\<close>

text \<open>
  The handlers use their argument at the type the TypeScript interface declares; the codec checks
  it for some actions only.  A value of another shape is outside the modelled domain (\<open>IllTyped\<close>).
\<close>

definition as_string :: "jsval \<Rightarrow> string js" where
  "as_string v = (case v of JStr s \<Rightarrow> Inr s | _ \<Rightarrow> Inl IllTyped)"

definition as_number :: "jsval \<Rightarrow> int js" where
  "as_number v = (case v of JNum n \<Rightarrow> Inr n | _ \<Rightarrow> Inl IllTyped)"

definition as_list :: "(jsval \<Rightarrow> 'a js) \<Rightarrow> jsval \<Rightarrow> 'a list js" where
  "as_list f v = (case v of JArr vs \<Rightarrow> js_map f vs | _ \<Rightarrow> Inl IllTyped)"

definition arg_prop :: "string \<Rightarrow> (jsval \<Rightarrow> 'a js) \<Rightarrow> jsval \<Rightarrow> 'a js" where
  "arg_prop name f v = js_bind (js_prop v name) f"

definition as_optional :: "(jsval \<Rightarrow> 'a js) \<Rightarrow> jsval \<Rightarrow> 'a option js" where
  "as_optional f v = (if v = JUndef then Inr None else js_bind (f v) (\<lambda>x. Inr (Some x)))"

definition as_policy_member :: "jsval \<Rightarrow> policy_member js" where
  "as_policy_member v =
     js_bind (arg_prop ''authentication_method'' as_number v) (\<lambda>m.
     js_bind (arg_prop ''provider'' as_string v) (\<lambda>p.
     Inr \<lparr>pm_authentication_method = m, pm_provider = p\<rparr>))"

definition as_auth_method :: "jsval \<Rightarrow> auth_method js" where
  "as_auth_method v =
     js_bind (arg_prop ''type'' as_string v) (\<lambda>t.
     js_bind (arg_prop ''instructions'' as_string v) (\<lambda>i.
     js_bind (arg_prop ''challenge'' as_string v) (\<lambda>c.
     js_bind (arg_prop ''mime_type'' (as_optional as_string) v) (\<lambda>m.
     Inr \<lparr>am_type = t, am_instructions = i, am_challenge = c, am_mime_type = m\<rparr>))))"

definition as_timestamp :: "jsval \<Rightarrow> Timestamp js" where
  "as_timestamp v =
     js_bind (js_prop v ''t_ms'') (\<lambda>t.
       case t of
         JStr s \<Rightarrow> if s = ''never'' then Inr Never else Inl IllTyped
       | JNum n \<Rightarrow> Inr (T_ms n)
       | _ \<Rightarrow> Inl IllTyped)"

end
