(* ===== verification/Crock.thy ===== *)
theory Crock
  imports Prelude
begin

text \<open>
  Crockford base 32 (\<open>encodeCrock\<close>, \<open>decodeCrock\<close> of taler-util/src/talerCrypto.ts): the two
  bit-buffer loops with their 32-bit buffers, an abstract account of both as regrouping of a bit
  list, and the round trip that every ciphertext, key and salt of the development rests on.
\<close>

unbundle bit_operations_syntax

section \<open>The code\<close>

definition encTable :: string where
  "encTable = ''0123456789ABCDEFGHJKMNPQRSTVWXYZ''"

text \<open>The relational operators on strings compare code units lexicographically.\<close>

fun str_le :: "string \<Rightarrow> string \<Rightarrow> bool" where
  "str_le [] ys = True"
| "str_le (x # xs) [] = False"
| "str_le (x # xs) (y # ys) =
     ((of_char x :: nat) < of_char y \<or> (x = y \<and> str_le xs ys))"

definition str_less :: "string \<Rightarrow> string \<Rightarrow> bool" where
  "str_less xs ys = (\<not> str_le ys xs)"

definition toUpper :: "char \<Rightarrow> char" where
  "toUpper c = (if 97 \<le> (of_char c :: nat) \<and> (of_char c :: nat) \<le> 122
     then char_of (of_char c - 32 :: nat) else c)"

definition getValue :: "char \<Rightarrow> nat js" where
  "getValue chr =
    (let a = (if chr \<in> {CHR ''O'', CHR ''o''} then ''0;''
              else if chr \<in> {CHR ''i'', CHR ''I'', CHR ''l'', CHR ''L''} then ''1''
              else if chr \<in> {CHR ''u'', CHR ''U''} then ''V''
              else [chr])
     in if str_le ''0'' a \<and> str_le a ''9'' then Inr (of_char (hd a) - of_char (CHR ''0''))
        else
          let a = (if str_le ''a'' a \<and> str_le a ''z'' then map toUpper a else a)
          in if str_le ''A'' a \<and> str_le a ''Z'' then
               (let dec = of_bool (str_less ''I'' a) + of_bool (str_less ''L'' a)
                        + of_bool (str_less ''O'' a) + of_bool (str_less ''U'' a)
                in Inr (of_char (hd a) - of_char (CHR ''A'') + 10 - dec))
             else Inl EncodingError)"

function encode_loop :: "bytes \<Rightarrow> 32 word \<Rightarrow> nat \<Rightarrow> string" where
  "encode_loop bs bitBuf numBits =
    (if bs \<noteq> [] \<or> 0 < numBits then
       let (bs1, buf1, n1) =
             (if bs \<noteq> [] \<and> numBits < 5
              then (tl bs, push_bit 8 bitBuf OR ucast (hd bs), numBits + 8)
              else (bs, bitBuf, numBits));
           (buf2, n2) = (if n1 < 5 then (push_bit (5 - n1) buf1, 5) else (buf1, n1));
           v = drop_bit (n2 - 5) buf2 AND 31
       in encTable ! unat v # encode_loop bs1 buf2 (n2 - 5)
     else [])"
  by pat_completeness auto
termination
  by (relation "measure (\<lambda>(bs, _, n). 8 * length bs + n)") (auto split: if_splits simp: neq_Nil_conv)

declare encode_loop.simps [simp del]

definition encodeCrock :: "bytes \<Rightarrow> string" where
  "encodeCrock data = encode_loop data 0 0"

function emit_loop :: "32 word \<Rightarrow> nat \<Rightarrow> bytes \<Rightarrow> nat \<times> bytes" where
  "emit_loop bitbuf bitpos out =
    (if 8 \<le> bitpos
     then emit_loop bitbuf (bitpos - 8) (out @ [ucast (drop_bit (bitpos - 8) bitbuf AND 0xff)])
     else (bitpos, out))"
  by pat_completeness auto
termination by (relation "measure (\<lambda>(_, n, _). n)") auto

declare emit_loop.simps [simp del]

lemma fst_emit_loop: "fst (emit_loop w n out) = n mod 8"
  by (induction w n out rule: emit_loop.induct) (simp add: emit_loop.simps le_mod_geq)

lemma emit_loop_pos: "(p, out') = emit_loop w n out \<Longrightarrow> p = n mod 8"
  by (metis fst_conv fst_emit_loop)

text \<open>
  The read position is the rest of the input. What the loop writes past the end of the typed
  array \<open>out\<close> is dropped by \<open>decodeCrock\<close>.
\<close>

function decode_loop :: "string \<Rightarrow> nat \<Rightarrow> 32 word \<Rightarrow> bytes \<Rightarrow> bytes js" where
  "decode_loop cs bitpos bitbuf out =
    (if cs \<noteq> [] \<or> 0 < bitpos then
       js_bind
         (if cs \<noteq> []
          then js_bind (getValue (hd cs))
            (\<lambda>v. Inr (tl cs, push_bit 5 bitbuf OR word_of_nat v, bitpos + 5))
          else Inr (cs, bitbuf, bitpos))
         (\<lambda>(cs1, buf1, p1).
            case emit_loop buf1 p1 out of (p2, out2) \<Rightarrow>
              if cs1 = [] \<and> 0 < p2
              then let buf3 = push_bit (8 - p2) buf1 AND 0xff
                   in decode_loop cs1 (if buf3 = 0 then 0 else 8) buf3 out2
              else decode_loop cs1 p2 buf1 out2)
     else Inr out)"
  by pat_completeness auto
termination
  by (relation "measures [\<lambda>(cs, _, _, _). length cs,
    \<lambda>(_, p, _, _). if p = 0 then 0 else if p mod 8 = 0 then 1 else (2::nat)]")
    (auto dest: emit_loop_pos split: if_splits simp: neq_Nil_conv js_bind_Inr_iff)

declare decode_loop.simps [simp del]

definition decodeCrock :: "string \<Rightarrow> bytes js" where
  "decodeCrock encoded =
    (let outLen = length encoded * 5 div 8
     in js_bind (decode_loop encoded 0 0 [])
          (\<lambda>written. Inr (take outLen (written @ replicate outLen 0))))"

section \<open>Bit lists\<close>

text \<open>The \<open>n\<close> low bits of a number, most significant first, and back.\<close>

definition nbits :: "nat \<Rightarrow> nat \<Rightarrow> bool list" where
  "nbits n x = map (bit x) (rev [0..<n])"

definition of_bits :: "bool list \<Rightarrow> nat" where
  "of_bits bs = foldl (\<lambda>a b. 2 * a + of_bool b) 0 bs"

lemma nbits_simps [simp]:
  "nbits 0 x = []" "nbits (Suc n) x = bit x n # nbits n x"
  by (simp_all add: nbits_def)

lemma length_nbits [simp]: "length (nbits n x) = n"
  by (simp add: nbits_def)

lemma nbits_zero [simp]: "nbits k 0 = replicate k False"
  by (induction k) auto

lemma nbits_Nil_iff [simp]: "nbits n x = [] \<longleftrightarrow> n = 0"
  by (cases n) auto

lemma nbits_snoc: "nbits (Suc n) x = nbits n (x div 2) @ [odd x]"
  by (induction n) (auto simp: bit_0 bit_Suc)

lemma of_bits_nbits: "of_bits (nbits n x) = x mod 2 ^ n"
proof (induction n arbitrary: x)
  case 0
  then show ?case by (simp add: of_bits_def)
next
  case (Suc n)
  have "of_bits (nbits (Suc n) x) = 2 * (x div 2 mod 2 ^ n) + of_bool (odd x)"
    unfolding nbits_snoc using Suc [of "x div 2"] by (simp add: of_bits_def)
  also have "\<dots> = x mod 2 ^ Suc n"
    by (simp add: mod_mult2_eq power_Suc odd_iff_mod_2_eq_one)
  finally show ?case .
qed

lemma of_bits_less: "of_bits bs < 2 ^ length bs"
  by (induction bs rule: rev_induct) (auto simp: of_bits_def)

lemma nbits_of_bits: "nbits (length bs) (of_bits bs) = bs"
proof (induction bs rule: rev_induct)
  case (snoc b bs)
  have "of_bits (bs @ [b]) = 2 * of_bits bs + of_bool b" by (simp add: of_bits_def)
  then show ?case using snoc
    by (simp only: length_append list.size nbits_snoc add_Suc_right add_0_right) auto
qed simp

lemma take_nbits: "k \<le> n \<Longrightarrow> take k (nbits n x) = nbits k (x div 2 ^ (n - k))"
  by (rule nth_equalityI) (auto simp: nbits_def rev_nth bit_iff_odd div_mult2_eq [symmetric] power_add [symmetric])

lemma drop_nbits: "drop k (nbits n x) = nbits (n - k) x"
  by (rule nth_equalityI) (auto simp: nbits_def rev_nth)

lemma nbits_append_word:
  fixes w v :: "'a::len word"
  assumes "n + k \<le> LENGTH('a)" and "unat v < 2 ^ k"
  shows "nbits (n + k) (unat (push_bit k w OR v)) = nbits n (unat w) @ nbits k (unat v)"
proof (rule nth_equalityI)
  fix i assume "i < length (nbits (n + k) (unat (push_bit k w OR v)))"
  moreover have "\<not> bit v j" if "k \<le> j" for j
    using assms(2) that by (metis assms(2) bit_take_bit_iff bit_unsigned_iff leD possible_bit_nat take_bit_nat_eq_self)
  ultimately show "nbits (n + k) (unat (push_bit k w OR v)) ! i = (nbits n (unat w) @ nbits k (unat v)) ! i"
    using assms(1) by (auto simp: nbits_def rev_nth nth_append bit_unsigned_iff bit_simps add.commute)
qed simp
section \<open>The loops as regrouping of bits\<close>

function chunk5 :: "bool list \<Rightarrow> bool list list" where
  "chunk5 xs = (if xs = [] then []
     else if length xs < 5 then [xs @ replicate (5 - length xs) False]
     else take 5 xs # chunk5 (drop 5 xs))"
  by pat_completeness auto
termination by (relation "measure length") auto

function chunk8 :: "'a list \<Rightarrow> 'a list list" where
  "chunk8 xs = (if length xs < 8 then [] else take 8 xs # chunk8 (drop 8 xs))"
  by pat_completeness auto
termination by (relation "measure length") auto

declare chunk5.simps [simp del] chunk8.simps [simp del]

definition byte_bits :: "bytes \<Rightarrow> bool list" where
  "byte_bits bs = concat (map (\<lambda>b. nbits 8 (unat b)) bs)"

lemma byte_bits_simps [simp]:
  "byte_bits [] = []" "byte_bits (b # bs) = nbits 8 (unat b) @ byte_bits bs"
  by (simp_all add: byte_bits_def)

lemma length_byte_bits [simp]: "length (byte_bits bs) = 8 * length bs"
  by (induction bs) auto

lemma unat_byte_less [simp]: "unat (b :: 8 word) < 256"
  using unsigned_less [of b] by (simp add: uint_nat flip: of_nat_less_iff)

lemma unat_ucast_byte [simp]: "unat (ucast (b :: 8 word) :: 32 word) = unat b"
proof -
  have "unat b < 2 ^ 32" by (rule less_trans [OF unat_byte_less]) simp
  then show ?thesis by (simp add: unsigned_ucast_eq take_bit_nat_eq_self)
qed

lemma unat_drop_and_mask:
  "unat (drop_bit k w AND mask m :: 'a::len word) = unat w div 2 ^ k mod 2 ^ m"
proof -
  have "unat (drop_bit k w AND mask m) = take_bit m (drop_bit k (unat w))"
    by (simp only: take_bit_eq_mask [symmetric] unsigned_take_bit_eq unat_drop_bit_eq)
  then show ?thesis by (simp only: drop_bit_eq_div take_bit_eq_mod)
qed

lemma unat_drop_and_31: "unat (drop_bit k w AND 31 :: 32 word) = unat w div 2 ^ k mod 32"
  using unat_drop_and_mask [of k w 5] by (simp add: mask_eq_exp_minus_1)

lemma unat_drop_and_255: "unat (drop_bit k w AND 255 :: 32 word) = unat w div 2 ^ k mod 256"
  using unat_drop_and_mask [of k w 8] by (simp add: mask_eq_exp_minus_1)

lemma chunk5_ge: "5 \<le> length xs \<Longrightarrow> chunk5 xs = take 5 xs # chunk5 (drop 5 xs)"
  by (subst chunk5.simps) auto

lemma encode_char:
  assumes "5 \<le> n"
  shows "encTable ! unat (drop_bit (n - 5) w AND 31 :: 32 word) = encTable ! of_bits (take 5 (nbits n (unat w)))"
  using assms by (simp add: unat_drop_and_31 take_nbits of_bits_nbits)

lemma encode_loop_bits:
  "n \<le> 12 \<Longrightarrow> encode_loop bs w n = map (\<lambda>c. encTable ! of_bits c) (chunk5 (nbits n (unat w) @ byte_bits bs))"
proof (induction bs w n rule: encode_loop.induct)
  case (1 bs w n)
  consider (fin) "bs = []" "n = 0" | (load) b bs' where "bs = b # bs'" "n < 5"
    | (full) "5 \<le> n" | (pad) "bs = []" "0 < n" "n < 5"
    by (cases bs; cases "n < 5"; cases "n = 0") (auto simp: not_less)
  then show ?case
  proof cases
    case fin
    then show ?thesis by (simp add: encode_loop.simps chunk5.simps)
  next
    case load
    let ?w = "push_bit 8 w OR ucast b"
    have app: "nbits (n + 8) (unat ?w) = nbits n (unat w) @ nbits 8 (unat b)"
      using nbits_append_word [of n 8 "ucast b :: 32 word" w] load
      by simp
    have "encode_loop bs w n = encTable ! unat (drop_bit (n + 8 - 5) ?w AND 31) # encode_loop bs' ?w (n + 8 - 5)"
      using load by (subst encode_loop.simps) (simp add: Let_def)
    moreover have "encode_loop bs' ?w (n + 8 - 5) = map (\<lambda>c. encTable ! of_bits c) (chunk5 (nbits (n + 8 - 5) (unat ?w) @ byte_bits bs'))"
      using 1 load by simp
    ultimately show ?thesis
      using load app encode_char [of "n + 8" ?w] drop_nbits [of 5 "n + 8" "unat ?w"]
      by (simp add: chunk5_ge)
  next
    case full
    have "encode_loop bs w n = encTable ! unat (drop_bit (n - 5) w AND 31) # encode_loop bs w (n - 5)"
      using full by (subst encode_loop.simps) (simp add: Let_def)
    moreover have "encode_loop bs w (n - 5) = map (\<lambda>c. encTable ! of_bits c) (chunk5 (nbits (n - 5) (unat w) @ byte_bits bs))"
      using 1 full by simp
    ultimately show ?thesis
      using full encode_char [of n w] drop_nbits [of 5 n "unat w"] by (simp add: chunk5_ge)
  next
    case pad
    let ?w = "push_bit (5 - n) w"
    have app: "nbits 5 (unat ?w) = nbits n (unat w) @ replicate (5 - n) False"
      using nbits_append_word [of n "5 - n" 0 w] pad
      by simp
    have "encode_loop bs w n = encTable ! unat (drop_bit 0 ?w AND 31) # encode_loop [] ?w 0"
      using pad by (subst encode_loop.simps) (simp add: Let_def)
    moreover have "encode_loop [] ?w 0 = []" by (subst encode_loop.simps) simp
    ultimately show ?thesis
      using pad app encode_char [of 5 ?w] by (simp add: chunk5.simps)
  qed
qed

lemma chunk8_ge: "8 \<le> length xs \<Longrightarrow> chunk8 xs = take 8 xs # chunk8 (drop 8 xs)"
  by (subst chunk8.simps) auto

lemma chunk8_less [simp]: "length xs < 8 \<Longrightarrow> chunk8 xs = []"
  by (subst chunk8.simps) auto

lemma length_chunk8: "length (chunk8 xs) = length xs div 8"
  by (induction xs rule: chunk8.induct) (subst chunk8.simps, simp add: le_div_geq)

definition byte :: "bool list \<Rightarrow> 8 word" where
  "byte c = word_of_nat (of_bits c)"

lemma byte_nbits [simp]: "byte (nbits 8 (unat b)) = b"
  by (simp add: byte_def of_bits_nbits)

lemma chunk8_byte_bits:
  "length ys < 8 \<Longrightarrow> map byte (chunk8 (byte_bits bs @ ys)) = bs"
  by (induction bs) (auto simp: chunk8_ge)

lemma emit_loop_bits:
  "emit_loop w n out = (n mod 8, out @ map byte (chunk8 (nbits n (unat w))))"
proof (induction w n out rule: emit_loop.induct)
  case (1 w n out)
  show ?case
  proof (cases "8 \<le> n")
    case True
    have "(ucast (drop_bit (n - 8) w AND 0xff) :: 8 word) = word_of_nat (unat (drop_bit (n - 8) w AND 0xff))"
      by simp
    also have "\<dots> = byte (take 8 (nbits n (unat w)))"
      unfolding unat_drop_and_255 using True by (simp add: byte_def take_nbits of_bits_nbits)
    finally show ?thesis
      using 1 True drop_nbits [of 8 n "unat w"]
      by (subst emit_loop.simps) (simp add: chunk8_ge le_mod_geq)
  next
    case False
    then show ?thesis by (subst emit_loop.simps) simp
  qed
qed

section \<open>Decoding\<close>

definition crock_char :: "char \<Rightarrow> nat \<Rightarrow> bool" where
  "crock_char c v \<longleftrightarrow> getValue c = Inr v \<and> v < 32"

definition crock_bits :: "nat list \<Rightarrow> bool list" where
  "crock_bits vs = concat (map (nbits 5) vs)"

lemma crock_bits_simps [simp]:
  "crock_bits [] = []" "crock_bits (v # vs) = nbits 5 v @ crock_bits vs"
  by (simp_all add: crock_bits_def)

lemma length_crock_bits [simp]: "length (crock_bits vs) = 5 * length vs"
  by (induction vs) auto

lemma decode_loop_flush:
  assumes "0 < p" "p < 8"
  shows "decode_loop [] p buf out =
    (let buf3 = push_bit (8 - p) buf AND 0xff in decode_loop [] (if buf3 = 0 then 0 else 8) buf3 out)"
  using assms by (subst decode_loop.simps) (simp add: emit_loop.simps Let_def)

lemma decode_loop_Nil_0: "decode_loop [] 0 buf out = Inr out"
  by (subst decode_loop.simps) simp

lemma decode_loop_Nil:
  assumes "p < 8"
  shows "\<exists>ys. decode_loop [] p buf out = Inr (out @ ys)"
proof (cases "p = 0")
  case True
  then show ?thesis by (simp add: decode_loop_Nil_0)
next
  case False
  have "\<exists>ys. decode_loop [] 8 b out = Inr (out @ ys)" for b
    by (subst decode_loop.simps) (simp add: emit_loop.simps decode_loop_Nil_0)
  with False assms show ?thesis
    by (auto simp: decode_loop_flush Let_def decode_loop_Nil_0)
qed

lemma decode_loop_Cons:
  assumes "crock_char c v" "p < 8"
  shows "decode_loop (c # cs) p buf out =
    (case emit_loop (push_bit 5 buf OR word_of_nat v) (p + 5) out of (p2, out2) \<Rightarrow>
       decode_loop cs p2 (push_bit 5 buf OR word_of_nat v) out2)"
proof -
  have "(p + 5) mod 8 < 8" by simp
  then show ?thesis
    using assms decode_loop_flush
    by (subst decode_loop.simps) (auto simp: crock_char_def emit_loop_bits Let_def)
qed

lemma chunk8_append:
  "chunk8 (xs @ ys) = chunk8 xs @ chunk8 (drop (8 * (length xs div 8)) xs @ ys)"
proof (induction xs rule: chunk8.induct)
  case (1 xs)
  show ?case
  proof (cases "length xs < 8")
    case False
    then have "chunk8 (xs @ ys) = take 8 xs # chunk8 (drop 8 xs @ ys)"
      by (simp add: chunk8_ge)
    moreover have "8 * (length xs div 8) = 8 * (length (drop 8 xs) div 8) + 8"
      using False by (simp add: le_div_geq)
    ultimately show ?thesis using 1 False by (simp add: chunk8_ge add.commute)
  qed simp
qed

lemma decode_loop_bits:
  assumes "list_all2 crock_char cs vs" "p < 8"
  shows "\<exists>ys. decode_loop cs p buf out =
    Inr (out @ map byte (chunk8 (nbits p (unat buf) @ crock_bits vs)) @ ys)"
  using assms
proof (induction cs vs arbitrary: p buf out rule: list_all2_induct)
  case Nil
  then show ?case using decode_loop_Nil [of p buf out] by simp
next
  case (Cons c cs v vs)
  let ?w = "push_bit 5 buf OR word_of_nat v"
  let ?bits = "nbits (p + 5) (unat ?w)"
  have v: "v < 32" using Cons.hyps by (simp add: crock_char_def)
  have app: "?bits = nbits p (unat buf) @ nbits 5 v"
    using nbits_append_word [of p 5 "word_of_nat v :: 32 word" buf] Cons.prems v
    by (simp add: unat_of_nat take_bit_nat_eq_self)
  obtain ys where ys: "decode_loop cs ((p + 5) mod 8) ?w (out @ map byte (chunk8 ?bits)) =
      Inr ((out @ map byte (chunk8 ?bits)) @ map byte (chunk8 (nbits ((p + 5) mod 8) (unat ?w) @ crock_bits vs)) @ ys)"
    using Cons.IH [of "(p + 5) mod 8"] by fastforce
  have rest: "drop (8 * (length ?bits div 8)) ?bits = nbits ((p + 5) mod 8) (unat ?w)"
    by (simp add: drop_nbits minus_mult_div_eq_mod)
  have "chunk8 (?bits @ crock_bits vs) = chunk8 ?bits @ chunk8 (nbits ((p + 5) mod 8) (unat ?w) @ crock_bits vs)"
    using chunk8_append [of ?bits "crock_bits vs"] by (simp only: rest)
  then show ?case
    using ys Cons.hyps(1) Cons.prems app
    by (auto simp: decode_loop_Cons emit_loop_bits)
qed

lemma decodeCrock_bits:
  assumes "list_all2 crock_char s vs"
  shows "decodeCrock s = Inr (map byte (chunk8 (crock_bits vs)))"
proof -
  obtain ys where "decode_loop s 0 0 [] = Inr (map byte (chunk8 (crock_bits vs)) @ ys)"
    using decode_loop_bits [OF assms, of 0 0 "[]"] by auto
  moreover have "length s = length vs" using assms by (rule list_all2_lengthD)
  ultimately show ?thesis
    by (simp add: decodeCrock_def length_chunk8 mult.commute)
qed

lemma getValue_encTable: "v < 32 \<Longrightarrow> crock_char (encTable ! v) v"
proof -
  have "list_all2 crock_char encTable [0..<32]" by code_simp
  then show "v < 32 \<Longrightarrow> ?thesis" by (auto simp: list_all2_conv_all_nth)
qed

lemma concat_chunk5:
  "\<exists>k<5. concat (chunk5 xs) = xs @ replicate k False"
proof (induction xs rule: chunk5.induct)
  case (1 xs)
  consider "xs = []" | "xs \<noteq> []" "length xs < 5" | "5 \<le> length xs" by linarith
  then show ?case
  proof cases
    case 3
    then have "xs \<noteq> []" "\<not> length xs < 5" by auto
    then show ?thesis using 1 3 by (auto simp: chunk5_ge simp flip: append_assoc)
  qed (auto simp: chunk5.simps)
qed

lemma chunk5_length: "c \<in> set (chunk5 xs) \<Longrightarrow> length c = 5"
  by (induction xs rule: chunk5.induct) (subst (asm) chunk5.simps, auto split: if_splits)

lemma decodeCrock_encodeCrock: "decodeCrock (encodeCrock bs) = Inr bs"
proof -
  let ?ch = "chunk5 (byte_bits bs)"
  have enc: "encodeCrock bs = map (\<lambda>c. encTable ! of_bits c) ?ch"
    using encode_loop_bits [of 0 bs 0] by (simp add: encodeCrock_def)
  have v: "of_bits c < 32" if "c \<in> set ?ch" for c
    using of_bits_less [of c] chunk5_length [OF that] by simp
  have "list_all2 crock_char (encodeCrock bs) (map of_bits ?ch)"
    unfolding enc using v by (auto simp: list_all2_conv_all_nth getValue_encTable)
  moreover have "crock_bits (map of_bits ?ch) = concat ?ch"
    unfolding crock_bits_def using nbits_of_bits chunk5_length
    by (metis (no_types, lifting) map_map comp_apply map_idI)
  ultimately show ?thesis
    using concat_chunk5 [of "byte_bits bs"]
    by (auto simp: decodeCrock_bits chunk8_byte_bits)
qed

text \<open>The length of an encoding.\<close>

lemma length_chunk5: "length (chunk5 xs) = (length xs + 4) div 5"
proof (induction xs rule: chunk5.induct)
  case (1 xs)
  consider "xs = []" | "xs \<noteq> []" "length xs < 5" | "5 \<le> length xs" by linarith
  then show ?case
  proof cases
    case 1
    then show ?thesis by (simp add: chunk5.simps)
  next
    case 2
    then have "0 < length xs" "length xs < 5" by auto
    then have "(length xs + 4) div 5 = 1" by presburger
    with 2 show ?thesis by (subst chunk5.simps) simp
  next
    case 3
    then have "length xs + 4 = (length xs - 5 + 4) + 5" by simp
    then have "(length xs + 4) div 5 = Suc ((length xs - 5 + 4) div 5)"
      by (simp only: div_add_self2)
    moreover have "length (chunk5 (drop 5 xs)) = (length (drop 5 xs) + 4) div 5"
      by (rule 1) (use 3 in auto)
    moreover have "length (chunk5 xs) = Suc (length (chunk5 (drop 5 xs)))"
      using 3 by (subst chunk5_ge) simp_all
    ultimately show ?thesis by (simp only: length_drop)
  qed
qed

lemma length_encodeCrock: "length (encodeCrock bs) = (8 * length bs + 4) div 5"
  using encode_loop_bits [of 0 bs 0] by (simp add: encodeCrock_def length_chunk5)

lemma encodeCrock_inj: "inj encodeCrock"
  by (rule inj_on_inverseI [where g = "\<lambda>s. projr (decodeCrock s)"]) (simp add: decodeCrock_encodeCrock)


text \<open>Every character has a value below 32 or is refused.\<close>

definition crock_code :: "nat \<Rightarrow> nat js" where
  "crock_code n = (if 48 \<le> n \<and> n \<le> 57 then Inr (n - 48)
     else if 65 \<le> n \<and> n \<le> 90 then
       Inr (n - 65 + 10 - (of_bool (73 < n) + of_bool (76 < n) + of_bool (79 < n) + of_bool (85 < n)))
     else Inl EncodingError)"

lemma str_le_single: "str_le [c] [d] \<longleftrightarrow> (of_char c :: nat) \<le> of_char d"
  by (auto simp: le_less)

lemma of_char_toUpper:
  "(of_char (toUpper c) :: nat) =
     (if 97 \<le> (of_char c :: nat) \<and> (of_char c :: nat) \<le> 122 then of_char c - 32 else of_char c)"
  by (auto simp: toUpper_def)

lemma getValue_special:
  "getValue (CHR ''O'') = Inr 0" "getValue (CHR ''o'') = Inr 0"
  "getValue (CHR ''i'') = Inr 1" "getValue (CHR ''I'') = Inr 1"
  "getValue (CHR ''l'') = Inr 1" "getValue (CHR ''L'') = Inr 1"
  "getValue (CHR ''u'') = Inr 27" "getValue (CHR ''U'') = Inr 27"
  by code_simp+

lemma special_codes:
  assumes "c \<notin> set ''OoiIlLuU''"
  shows "(of_char c :: nat) \<notin> {79, 111, 105, 73, 108, 76, 117, 85}"
proof
  assume "(of_char c :: nat) \<in> {79, 111, 105, 73, 108, 76, 117, 85}"
  also have "{79, 111, 105, 73, 108, 76, 117, 85 :: nat} = of_char ` set ''OoiIlLuU''" by simp
  finally show False using assms by (simp only: inj_image_mem_iff [OF inj_of_char])
qed

lemma getValue_code:
  assumes "c \<notin> set ''OoiIlLuU''"
  shows "getValue c = crock_code (of_char (toUpper c))"
proof -
  let ?n = "of_char c :: nat" and ?m = "of_char (toUpper c) :: nat"
  have up: "(if 97 \<le> ?n \<and> ?n \<le> 122 then map toUpper [c] else [c]) = [toUpper c]"
    by (simp add: toUpper_def)
  have digit: "48 \<le> ?n \<and> ?n \<le> 57 \<longleftrightarrow> 48 \<le> ?m \<and> ?m \<le> 57" and "?n \<le> 57 \<Longrightarrow> ?n = ?m"
    by (auto simp: of_char_toUpper)
  have low: "65 \<le> ?m \<Longrightarrow> \<not> ?n < 48"
    by (auto simp: of_char_toUpper split: if_splits)
  have "getValue c =
    (if 48 \<le> ?n \<and> ?n \<le> 57 then Inr (?n - 48)
     else if 65 \<le> ?m \<and> ?m \<le> 90 then Inr (?m - 65 + 10 -
       (of_bool (73 < ?m) + of_bool (76 < ?m) + of_bool (79 < ?m) + of_bool (85 < ?m)))
     else Inl EncodingError)"
    using assms low by (simp add: getValue_def Let_def str_le_single str_less_def up not_le
        del: str_le.simps list.map)
  then show ?thesis using digit \<open>?n \<le> 57 \<Longrightarrow> ?n = ?m\<close>
    by (cases "?n \<le> 57") (auto simp: crock_code_def)
qed

lemma crock_code_cases: "(\<exists>v<32. crock_code n = Inr v) \<or> crock_code n = Inl EncodingError"
  by (auto simp: crock_code_def)

lemma getValue_cases: "(\<exists>v. crock_char c v) \<or> getValue c = Inl EncodingError"
proof (cases "c \<in> set ''OoiIlLuU''")
  case True
  then show ?thesis by (auto simp: crock_char_def getValue_special)
next
  case False
  then show ?thesis
    using crock_code_cases [of "of_char (toUpper c)"]
    by (auto simp: crock_char_def getValue_code)
qed

definition toLower :: "char \<Rightarrow> char" where
  "toLower c = (if 65 \<le> (of_char c :: nat) \<and> (of_char c :: nat) \<le> 90
     then char_of (of_char c + 32 :: nat) else c)"

lemma toLower_special:
  "toLower (CHR ''O'') = CHR ''o''" "toLower (CHR ''o'') = CHR ''o''"
  "toLower (CHR ''i'') = CHR ''i''" "toLower (CHR ''I'') = CHR ''i''"
  "toLower (CHR ''l'') = CHR ''l''" "toLower (CHR ''L'') = CHR ''l''"
  "toLower (CHR ''u'') = CHR ''u''" "toLower (CHR ''U'') = CHR ''u''"
  by code_simp+

lemma toLower_not_special:
  assumes "c \<notin> set ''OoiIlLuU''"
  shows "toLower c \<notin> set ''OoiIlLuU''"
proof
  assume a: "toLower c \<in> set ''OoiIlLuU''"
  have n: "(of_char c :: nat) \<notin> {79, 111, 105, 73, 108, 76, 117, 85}"
    using assms by (rule special_codes)
  from a have "(of_char (toLower c) :: nat) \<in> set (map of_char ''OoiIlLuU'')"
    by (metis image_eqI list.set_map)
  then have "(of_char (toLower c) :: nat) \<in> {79, 111, 105, 73, 108, 76, 117, 85}" by simp
  with n show False by (auto simp: toLower_def split: if_splits)
qed

lemma getValue_toLower: "getValue (toLower c) = getValue c"
proof (cases "c \<in> set ''OoiIlLuU''")
  case True
  then show ?thesis by (auto simp: toLower_special getValue_special)
next
  case False
  then have "toLower c \<notin> set ''OoiIlLuU''"
    by (rule toLower_not_special)
  moreover have "(of_char (toUpper (toLower c)) :: nat) = of_char (toUpper c)"
    by (auto simp: of_char_toUpper toLower_def)
  ultimately show ?thesis using False by (simp add: getValue_code)
qed

lemma decode_loop_bad:
  assumes "c \<in> set s" "getValue c = Inl EncodingError" "p < 8"
  shows "decode_loop s p buf out = Inl EncodingError"
  using assms
proof (induction s arbitrary: p buf out)
  case (Cons d s)
  have p: "(p + 5) mod 8 < 8" by simp
  show ?case
  proof (cases "getValue d = Inl EncodingError")
    case True
    then show ?thesis by (subst decode_loop.simps) simp
  next
    case False
    then obtain v where "crock_char d v" using getValue_cases by blast
    moreover have "c \<in> set s" using Cons.prems False by auto
    ultimately show ?thesis
      using Cons.prems Cons.IH [OF _ _ p] by (simp add: decode_loop_Cons emit_loop_bits)
  qed
qed simp

lemma decodeCrock_cases:
  "decodeCrock s = (if \<forall>c\<in>set s. getValue c \<noteq> Inl EncodingError
     then Inr (map byte (chunk8 (crock_bits (map (\<lambda>c. projr (getValue c)) s))))
     else Inl EncodingError)"
proof (cases "\<forall>c\<in>set s. getValue c \<noteq> Inl EncodingError")
  case True
  then have "list_all2 crock_char s (map (\<lambda>c. projr (getValue c)) s)"
    unfolding list_all2_conv_all_nth using getValue_cases
    by (auto simp: crock_char_def) (metis crock_char_def getValue_cases nth_mem sum.sel(2))+
  with True show ?thesis by (simp add: decodeCrock_bits)
next
  case False
  then obtain c where "c \<in> set s" "getValue c = Inl EncodingError" by blast
  with False show ?thesis by (simp add: decodeCrock_def decode_loop_bad)
qed

section \<open>The alphabet\<close>

text \<open>
  The digits of Crockford's base 32, each with the characters that stand for it: letters of either
  case, \<open>O\<close> for zero, \<open>I\<close> and \<open>L\<close> for one, and \<open>U\<close> for \<open>V\<close> (an extension of the code).
\<close>

definition crock_groups :: "string list" where
  "crock_groups =
     [''0Oo'', ''1IiLl'', ''2'', ''3'', ''4'', ''5'', ''6'', ''7'', ''8'', ''9'', ''Aa'', ''Bb'', ''Cc'', ''Dd'', ''Ee'', ''Ff'',
      ''Gg'', ''Hh'', ''Jj'', ''Kk'', ''Mm'', ''Nn'', ''Pp'', ''Qq'', ''Rr'', ''Ss'', ''Tt'', ''VvUu'', ''Ww'', ''Xx'', ''Yy'', ''Zz'']"

definition crock_digit :: "char \<Rightarrow> nat option" where
  "crock_digit c = find (\<lambda>i. c \<in> set (crock_groups ! i)) [0..<32]"

lemma getValue_alphabet:
  "list_all (\<lambda>c. getValue c = (case crock_digit c of Some v \<Rightarrow> Inr v | None \<Rightarrow> Inl EncodingError)) (concat crock_groups)"
  by code_simp

lemma letters_in_alphabet:
  fixes c :: char
  defines "n \<equiv> of_char c :: nat"
  assumes "48 \<le> n \<and> n \<le> 57 \<or> 65 \<le> n \<and> n \<le> 90 \<or> 97 \<le> n \<and> n \<le> 122"
  shows "c \<in> set (concat crock_groups)"
proof -
  let ?cs = "''0123456789ABCDEFGHIJKLMNOPQRSTUVWXYZabcdefghijklmnopqrstuvwxyz''"
  have "n \<in> set ([48..<58] @ [65..<91] @ [97..<123])" using assms(2) unfolding set_append set_upt by fastforce
  also have "[48..<58] @ [65..<91] @ [97..<123] = map of_char ?cs" by simp
  finally have "c \<in> set ?cs" unfolding n_def set_map by (simp only: inj_image_mem_iff [OF inj_of_char])
  moreover have "list_all (\<lambda>d. d \<in> set (concat crock_groups)) ?cs" by code_simp
  ultimately show ?thesis by (simp only: list_all_iff)
qed

lemma getValue_digit: "getValue c = (case crock_digit c of Some v \<Rightarrow> Inr v | None \<Rightarrow> Inl EncodingError)"
proof (cases "c \<in> set (concat crock_groups)")
  case True
  then show ?thesis using getValue_alphabet by (simp only: list_all_iff)
next
  case False
  have "list_all (\<lambda>d. d \<in> set (concat crock_groups)) ''OoiIlLuU''" by code_simp
  with False have s: "c \<notin> set ''OoiIlLuU''" by (auto simp only: list_all_iff)
  have "getValue c = Inl EncodingError"
    using letters_in_alphabet [of c] False unfolding getValue_code [OF s] crock_code_def of_char_toUpper
    by (auto split: if_splits)
  moreover have "crock_groups ! i \<in> set crock_groups" if "i < 32" for i
    by (rule nth_mem) (use that in \<open>simp add: crock_groups_def\<close>)
  with False have "crock_digit c = None" by (auto simp: crock_digit_def find_None_iff)
  ultimately show ?thesis by simp
qed

lemma decodeCrock_digits:
  "decodeCrock s = (if \<forall>c\<in>set s. crock_digit c \<noteq> None
     then Inr (map byte (chunk8 (crock_bits (map (\<lambda>c. the (crock_digit c)) s))))
     else Inl EncodingError)"
proof -
  have g: "getValue c \<noteq> Inl EncodingError \<longleftrightarrow> crock_digit c \<noteq> None" for c
    by (simp add: getValue_digit split: option.split)
  have v: "projr (getValue c) = the (crock_digit c)" if "crock_digit c \<noteq> None" for c
    using that by (auto simp: getValue_digit)
  show ?thesis unfolding decodeCrock_cases g using v by (auto cong: map_cong)
qed

end
