(* ===== verification/Nacl.thy ===== *)
theory Nacl
  imports Prelude
begin

text \<open>
  The authenticated encryption of taler-util/src/nacl-fast.ts: the Salsa20 and HSalsa20 cores, the
  XSalsa20 stream, the Poly1305 one-time authenticator and \<open>secretbox\<close>/\<open>secretbox_open\<close>.
  A \<open>Uint8Array\<close> is a list of 8-bit words; the 32-bit integers of the cores are 32-bit words; the
  \<open>Uint16Array\<close> limbs of Poly1305 are 16-bit words.  An array that a routine fills is its result.
\<close>

unbundle bit_operations_syntax

section \<open>Bytes and words\<close>

text \<open>\<open>(k[i] & 0xff) | ((k[i + 1] & 0xff) << 8) | ...\<close>; reading past the end gives 0.\<close>

definition u8 :: "bytes \<Rightarrow> nat \<Rightarrow> 8 word" where
  "u8 b i = (if i < length b then b ! i else 0)"

definition load32 :: "bytes \<Rightarrow> nat \<Rightarrow> 32 word" where
  "load32 b i = ucast (u8 b i) OR push_bit 8 (ucast (u8 b (i + 1)))
     OR push_bit 16 (ucast (u8 b (i + 2))) OR push_bit 24 (ucast (u8 b (i + 3)))"

definition store32 :: "32 word \<Rightarrow> bytes" where
  "store32 x = map (\<lambda>s. ucast (drop_bit s x)) [0, 8, 16, 24]"

section \<open>Comparison\<close>

definition vn :: "bytes \<Rightarrow> bytes \<Rightarrow> nat \<Rightarrow> int" where
  "vn x y n =
     (let d = fold (\<lambda>i d. d OR (u8 x i XOR u8 y i)) [0..<n] 0
      in of_bool (bit (ucast d - (1 :: 32 word)) 8) - 1)"

definition crypto_verify_16 :: "bytes \<Rightarrow> bytes \<Rightarrow> int" where
  "crypto_verify_16 x y = vn x y 16"

definition verify :: "bytes \<Rightarrow> bytes \<Rightarrow> bool" where
  "verify x y \<longleftrightarrow>
     \<not> (length x = 0 \<or> length y = 0) \<and> length x = length y \<and> vn x y (length x) = 0"

section \<open>The Salsa20 cores\<close>

text \<open>The words \<open>j0\<close> to \<open>j15\<close>, from the input \<open>p\<close>, the key \<open>k\<close> and the constant \<open>c\<close>.\<close>

definition salsa_load :: "bytes \<Rightarrow> bytes \<Rightarrow> bytes \<Rightarrow> 32 word list" where
  "salsa_load p k c =
     [load32 c 0, load32 k 0, load32 k 4, load32 k 8,
      load32 k 12, load32 c 4, load32 p 0, load32 p 4,
      load32 p 8, load32 p 12, load32 c 8, load32 k 16,
      load32 k 20, load32 k 24, load32 k 28, load32 c 12]"

definition rotl :: "nat \<Rightarrow> 32 word \<Rightarrow> 32 word" where
  "rotl n u = push_bit n u OR drop_bit (32 - n) u"

definition quarter :: "nat \<times> nat \<times> nat \<times> nat \<Rightarrow> 32 word list \<Rightarrow> 32 word list" where
  "quarter q x =
     (let (a, b, c, d) = q;
          x = x[b := x ! b XOR rotl 7 (x ! a + x ! d)];
          x = x[c := x ! c XOR rotl 9 (x ! b + x ! a)];
          x = x[d := x ! d XOR rotl 13 (x ! c + x ! b)];
          x = x[a := x ! a XOR rotl 18 (x ! d + x ! c)]
      in x)"

definition double_round :: "32 word list \<Rightarrow> 32 word list" where
  "double_round x = fold quarter
     [(0, 4, 8, 12), (5, 9, 13, 1), (10, 14, 2, 6), (15, 3, 7, 11),
      (0, 1, 2, 3), (5, 6, 7, 4), (10, 11, 8, 9), (15, 12, 13, 14)] x"

definition salsa_rounds :: "32 word list \<Rightarrow> 32 word list" where
  "salsa_rounds x = (double_round ^^ 10) x"

definition core_salsa20 :: "bytes \<Rightarrow> bytes \<Rightarrow> bytes \<Rightarrow> bytes" where
  "core_salsa20 p k c =
     (let j = salsa_load p k c; x = salsa_rounds j
      in concat (map store32 (map2 (+) x j)))"

definition core_hsalsa20 :: "bytes \<Rightarrow> bytes \<Rightarrow> bytes \<Rightarrow> bytes" where
  "core_hsalsa20 p k c =
     (let x = salsa_rounds (salsa_load p k c)
      in concat (map (\<lambda>i. store32 (x ! i)) [0, 5, 10, 15, 6, 7, 8, 9]))"

definition sigma :: bytes where
  "sigma = [101, 120, 112, 97, 110, 100, 32, 51, 50, 45, 98, 121, 116, 101, 32, 107]"

section \<open>The XSalsa20 stream\<close>

text \<open>The block counter \<open>z[8..16]\<close> is incremented little-endian; \<open>u\<close> carries.\<close>

fun bump :: "32 word \<Rightarrow> bytes \<Rightarrow> bytes" where
  "bump u [] = []"
| "bump u (b # bs) = (let u = u + ucast b in ucast u # bump (drop_bit 8 u) bs)"

definition next_block :: "bytes \<Rightarrow> bytes" where
  "next_block z = take 8 z @ bump 1 (drop 8 z)"

definition stream_start :: "bytes \<Rightarrow> bytes" where
  "stream_start n = map (u8 n) [0..<8] @ replicate 8 0"

fun stream_xor_loop :: "bytes \<Rightarrow> bytes \<Rightarrow> bytes \<Rightarrow> bytes" where
  "stream_xor_loop z k m =
     (if 64 \<le> length m
      then map2 (XOR) (take 64 m) (core_salsa20 z k sigma)
             @ stream_xor_loop (next_block z) k (drop 64 m)
      else if 0 < length m then map2 (XOR) m (core_salsa20 z k sigma)
      else [])"

definition crypto_stream_salsa20_xor :: "bytes \<Rightarrow> bytes \<Rightarrow> bytes \<Rightarrow> bytes" where
  "crypto_stream_salsa20_xor m n k = stream_xor_loop (stream_start n) k m"

fun stream_loop :: "bytes \<Rightarrow> bytes \<Rightarrow> nat \<Rightarrow> bytes" where
  "stream_loop z k b =
     (if 64 \<le> b then core_salsa20 z k sigma @ stream_loop (next_block z) k (b - 64)
      else if 0 < b then take b (core_salsa20 z k sigma)
      else [])"

definition crypto_stream_salsa20 :: "nat \<Rightarrow> bytes \<Rightarrow> bytes \<Rightarrow> bytes" where
  "crypto_stream_salsa20 b n k = stream_loop (stream_start n) k b"

definition crypto_stream :: "nat \<Rightarrow> bytes \<Rightarrow> bytes \<Rightarrow> bytes" where
  "crypto_stream d n k =
     (let s = core_hsalsa20 n k sigma; sn = map (\<lambda>i. u8 n (i + 16)) [0..<8]
      in crypto_stream_salsa20 d sn s)"

definition crypto_stream_xor :: "bytes \<Rightarrow> bytes \<Rightarrow> bytes \<Rightarrow> bytes" where
  "crypto_stream_xor m n k =
     (let s = core_hsalsa20 n k sigma; sn = map (\<lambda>i. u8 n (i + 16)) [0..<8]
      in crypto_stream_salsa20_xor m sn s)"

declare stream_xor_loop.simps [simp del] stream_loop.simps [simp del]

section \<open>Poly1305\<close>

record poly1305 =
  buffer :: bytes
  p_r :: "16 word list"
  p_h :: "16 word list"
  p_pad :: "16 word list"
  leftover :: nat
  fin :: nat

definition load16 :: "bytes \<Rightarrow> nat \<Rightarrow> 32 word" where
  "load16 b i = ucast (u8 b i) OR push_bit 8 (ucast (u8 b (i + 1)))"

definition poly1305_new :: "bytes \<Rightarrow> poly1305" where
  "poly1305_new key =
     (let t0 = load16 key 0; t1 = load16 key 2; t2 = load16 key 4; t3 = load16 key 6;
          t4 = load16 key 8; t5 = load16 key 10; t6 = load16 key 12; t7 = load16 key 14
      in \<lparr>buffer = replicate 16 0,
          p_r = map ucast
            [t0 AND 0x1fff,
             (drop_bit 13 t0 OR push_bit 3 t1) AND 0x1fff,
             (drop_bit 10 t1 OR push_bit 6 t2) AND 0x1f03,
             (drop_bit 7 t2 OR push_bit 9 t3) AND 0x1fff,
             (drop_bit 4 t3 OR push_bit 12 t4) AND 0x00ff,
             drop_bit 1 t4 AND 0x1ffe,
             (drop_bit 14 t4 OR push_bit 2 t5) AND 0x1fff,
             (drop_bit 11 t5 OR push_bit 5 t6) AND 0x1f81,
             (drop_bit 8 t6 OR push_bit 8 t7) AND 0x1fff,
             drop_bit 5 t7 AND 0x007f],
          p_h = replicate 10 0,
          p_pad = map (\<lambda>i. ucast (load16 key (16 + 2 * i))) [0..<8],
          leftover = 0, fin = 0\<rparr>)"

text \<open>The 13-bit limbs of a 16-byte block, the high bit of a full block in the last.\<close>

definition poly_limbs :: "32 word \<Rightarrow> bytes \<Rightarrow> 32 word list" where
  "poly_limbs hibit m =
     (let t0 = load16 m 0; t1 = load16 m 2; t2 = load16 m 4; t3 = load16 m 6;
          t4 = load16 m 8; t5 = load16 m 10; t6 = load16 m 12; t7 = load16 m 14
      in [t0 AND 0x1fff,
          (drop_bit 13 t0 OR push_bit 3 t1) AND 0x1fff,
          (drop_bit 10 t1 OR push_bit 6 t2) AND 0x1fff,
          (drop_bit 7 t2 OR push_bit 9 t3) AND 0x1fff,
          (drop_bit 4 t3 OR push_bit 12 t4) AND 0x1fff,
          drop_bit 1 t4 AND 0x1fff,
          (drop_bit 14 t4 OR push_bit 2 t5) AND 0x1fff,
          (drop_bit 11 t5 OR push_bit 5 t6) AND 0x1fff,
          (drop_bit 8 t6 OR push_bit 8 t7) AND 0x1fff,
          drop_bit 5 t7 OR hibit])"

text \<open>
  Row \<open>i\<close> of the product: the limbs \<open>h0\<close> to \<open>h4\<close> first, a partial carry, then \<open>h5\<close> to \<open>h9\<close>; the
  factor of \<open>h_j\<close> is \<open>r_{i-j}\<close>, or \<open>5 * r_{10+i-j}\<close> past the wrap-around.  The sums are below
  \<open>2^53\<close>, so the double arithmetic is exact and \<open>>>> 13\<close> and \<open>& 0x1fff\<close> read it modulo \<open>2^32\<close>.
\<close>

definition poly_coef :: "32 word list \<Rightarrow> nat \<Rightarrow> nat \<Rightarrow> 32 word" where
  "poly_coef r i j = (if j \<le> i then r ! (i - j) else 5 * r ! (10 + i - j))"

definition poly_row ::
  "32 word list \<Rightarrow> 32 word list \<Rightarrow> nat \<Rightarrow> 32 word \<Rightarrow> 32 word \<times> 32 word" where
  "poly_row h r i c =
     (let d = fold (\<lambda>j d. d + h ! j * poly_coef r i j) [0..<5] c;
          c = drop_bit 13 d;
          d = fold (\<lambda>j d. d + h ! j * poly_coef r i j) [5..<10] (d AND 0x1fff)
      in (d AND 0x1fff, c + drop_bit 13 d))"

fun poly_rows ::
  "32 word list \<Rightarrow> 32 word list \<Rightarrow> nat list \<Rightarrow> 32 word \<Rightarrow> 32 word list \<times> 32 word" where
  "poly_rows h r [] c = ([], c)"
| "poly_rows h r (i # is) c =
     (let (d, c) = poly_row h r i c; (ds, c) = poly_rows h r is c in (d # ds, c))"

definition poly_step ::
  "32 word \<Rightarrow> 32 word list \<Rightarrow> bytes \<Rightarrow> 32 word list \<Rightarrow> 32 word list" where
  "poly_step hibit r m h =
     (let h = map2 (+) h (poly_limbs hibit m);
          (d, c) = poly_rows h r [0..<10] 0;
          c = push_bit 2 c + c;
          c = c + d ! 0;
          d = d[0 := c AND 0x1fff];
          c = drop_bit 13 c
      in d[1 := d ! 1 + c])"

fun poly_loop :: "32 word \<Rightarrow> 32 word list \<Rightarrow> bytes \<Rightarrow> 32 word list \<Rightarrow> 32 word list" where
  "poly_loop hibit r m h =
     (if 16 \<le> length m then poly_loop hibit r (drop 16 m) (poly_step hibit r (take 16 m) h)
      else h)"

declare poly_loop.simps [simp del]

definition poly_blocks :: "bytes \<Rightarrow> poly1305 \<Rightarrow> poly1305" where
  "poly_blocks m s =
     (let hibit = (if fin s \<noteq> 0 then 0 else push_bit 11 1)
      in s\<lparr>p_h := map ucast (poly_loop hibit (map ucast (p_r s)) m (map ucast (p_h s)))\<rparr>)"

definition poly_put :: "bytes \<Rightarrow> poly1305 \<Rightarrow> poly1305" where
  "poly_put m s =
     s\<lparr>buffer := take (leftover s) (buffer s) @ m @ drop (leftover s + length m) (buffer s),
       leftover := leftover s + length m\<rparr>"

definition poly_rest :: "bytes \<Rightarrow> poly1305 \<Rightarrow> poly1305" where
  "poly_rest m s =
     (let want = (if 16 \<le> length m then length m - length m mod 16 else 0);
          s = (if 16 \<le> length m then poly_blocks (take want m) s else s);
          m = drop want m
      in if m \<noteq> [] then poly_put m s else s)"

definition poly_update :: "bytes \<Rightarrow> poly1305 \<Rightarrow> poly1305" where
  "poly_update m s =
     (if leftover s \<noteq> 0 then
        (let want = min (16 - leftover s) (length m);
             s = poly_put (take want m) s
         in if leftover s < 16 then s
            else poly_rest (drop want m) ((poly_blocks (buffer s) s)\<lparr>leftover := 0\<rparr>))
      else poly_rest m s)"

text \<open>
  \<open>finish\<close>: pad the last block, reduce the limbs, subtract the modulus when the value reaches it
  (\<open>mask\<close> selects without a branch), regroup to 16-bit words and add the pad.
\<close>

definition poly_pad_last :: "poly1305 \<Rightarrow> poly1305" where
  "poly_pad_last s =
     (if leftover s \<noteq> 0
      then poly_blocks (take (leftover s) (buffer s) @ [1] @ replicate (15 - leftover s) 0)
             (s\<lparr>buffer := take (leftover s) (buffer s) @ [1] @ replicate (15 - leftover s) 0,
                fin := 1\<rparr>)
      else s)"

definition carry_at :: "nat \<Rightarrow> 16 word list \<times> 16 word \<Rightarrow> 16 word list \<times> 16 word" where
  "carry_at i = (\<lambda>(h, c). let x = h ! i + c in (h[i := x AND 0x1fff], drop_bit 13 x))"

definition poly_carry :: "16 word list \<Rightarrow> 16 word list" where
  "poly_carry h =
     (let (h, c) = fold carry_at [1..<10] (h, 0);
          (h, c) = carry_at 0 (h, c * 5);
          (h, c) = carry_at 1 (h, c)
      in h[2 := h ! 2 + c])"

definition poly_reduce :: "16 word list \<Rightarrow> 16 word list" where
  "poly_reduce h =
     (let (g, c) = fold carry_at [0..<10] (h, 5);
          g = g[9 := g ! 9 - push_bit 13 1];
          mask = (c XOR 1) - 1
      in map2 (\<lambda>x y. (x AND NOT mask) OR (y AND mask)) h g)"

definition poly_pack :: "16 word list \<Rightarrow> 16 word list" where
  "poly_pack h =
     [h ! 0 OR push_bit 13 (h ! 1),
      drop_bit 3 (h ! 1) OR push_bit 10 (h ! 2),
      drop_bit 6 (h ! 2) OR push_bit 7 (h ! 3),
      drop_bit 9 (h ! 3) OR push_bit 4 (h ! 4),
      drop_bit 12 (h ! 4) OR push_bit 1 (h ! 5) OR push_bit 14 (h ! 6),
      drop_bit 2 (h ! 6) OR push_bit 11 (h ! 7),
      drop_bit 5 (h ! 7) OR push_bit 8 (h ! 8),
      drop_bit 8 (h ! 8) OR push_bit 5 (h ! 9)]"

fun poly_add_pad :: "32 word \<Rightarrow> 16 word list \<Rightarrow> 16 word list \<Rightarrow> 16 word list" where
  "poly_add_pad c (h # hs) (p # ps) =
     (let f = ucast h + ucast p + c in ucast f # poly_add_pad (drop_bit 16 f) hs ps)"
| "poly_add_pad c hs ps = []"

definition poly_finish :: "poly1305 \<Rightarrow> bytes" where
  "poly_finish s =
     (let s = poly_pad_last s;
          h = poly_add_pad 0 (poly_pack (poly_reduce (poly_carry (p_h s)))) (p_pad s)
      in concat (map (\<lambda>w. [ucast w, ucast (drop_bit 8 w)]) h))"

section \<open>Secret-key authenticated encryption\<close>

definition crypto_onetimeauth :: "bytes \<Rightarrow> bytes \<Rightarrow> bytes" where
  "crypto_onetimeauth m k = poly_finish (poly_update m (poly1305_new k))"

definition crypto_onetimeauth_verify :: "bytes \<Rightarrow> bytes \<Rightarrow> bytes \<Rightarrow> int" where
  "crypto_onetimeauth_verify h m k = crypto_verify_16 h (crypto_onetimeauth m k)"

text \<open>The first 32 bytes of the stream key the authenticator; the tag takes bytes 16 to 31.\<close>

definition crypto_secretbox :: "bytes \<Rightarrow> bytes \<Rightarrow> bytes \<Rightarrow> bytes option" where
  "crypto_secretbox m n k =
     (if length m < 32 then None
      else let c = crypto_stream_xor m n k;
               mac = crypto_onetimeauth (drop 32 c) c
           in Some (replicate 16 0 @ mac @ drop 32 c))"

definition crypto_secretbox_open :: "bytes \<Rightarrow> bytes \<Rightarrow> bytes \<Rightarrow> bytes option" where
  "crypto_secretbox_open c n k =
     (if length c < 32 then None
      else let x = crypto_stream 32 n k
           in if crypto_onetimeauth_verify (take 16 (drop 16 c)) (drop 32 c) x \<noteq> 0 then None
              else Some (replicate 32 0 @ drop 32 (crypto_stream_xor c n k)))"

definition checkLengths :: "bytes \<Rightarrow> bytes \<Rightarrow> unit js" where
  "checkLengths k n =
     (if length k \<noteq> 32 then Inl (JsError ''bad key size'')
      else if length n \<noteq> 24 then Inl (JsError ''bad nonce size'')
      else Inr ())"

definition secretbox :: "bytes \<Rightarrow> bytes \<Rightarrow> bytes \<Rightarrow> bytes js" where
  "secretbox msg nonce key =
     js_bind (checkLengths key nonce) (\<lambda>_.
       let m = replicate 32 0 @ msg
       in Inr (drop 16 (the (crypto_secretbox m nonce key))))"

definition secretbox_open :: "bytes \<Rightarrow> bytes \<Rightarrow> bytes \<Rightarrow> bytes option js" where
  "secretbox_open box nonce key =
     js_bind (checkLengths key nonce) (\<lambda>_.
       let c = replicate 16 0 @ box
       in if length c < 32 then Inr None
          else Inr (map_option (drop 32) (crypto_secretbox_open c nonce key)))"

section \<open>The box opens what it seals, and nothing with another tag\<close>

lemma length_store32 [simp]: "length (store32 x) = 4"
  by (simp add: store32_def)

lemma length_salsa_load [simp]: "length (salsa_load p k c) = 16"
  by (simp add: salsa_load_def)

lemma length_quarter [simp]: "length (quarter q x) = length x"
  by (cases q) (simp add: quarter_def Let_def)

lemma length_double_round [simp]: "length (double_round x) = length x"
  by (simp add: double_round_def)

lemma length_salsa_rounds [simp]: "length (salsa_rounds x) = length x"
proof -
  have "length ((double_round ^^ n) x) = length x" for n
    by (induction n) simp_all
  then show ?thesis by (simp add: salsa_rounds_def)
qed

lemma length_concat_store32: "length (concat (map store32 xs)) = 4 * length xs"
  by (induction xs) simp_all

lemma length_core_salsa20 [simp]: "length (core_salsa20 p k c) = 64"
  by (simp add: core_salsa20_def Let_def length_concat_store32 del: map_map)

lemma length_core_hsalsa20 [simp]: "length (core_hsalsa20 p k c) = 32"
  by (simp add: core_hsalsa20_def Let_def)

lemma length_stream_loop [simp]: "length (stream_loop z k b) = b"
proof (induction z k b rule: stream_loop.induct)
  case (1 z k b)
  then show ?case by (subst stream_loop.simps) auto
qed

lemma zip_take_length: "zip xs (take (length xs) ys) = zip xs ys"
proof (induction xs arbitrary: ys)
  case (Cons x xs)
  then show ?case by (cases ys) simp_all
qed simp

lemma stream_xor_loop_eq: "stream_xor_loop z k m = map2 (XOR) m (stream_loop z k (length m))"
proof (induction z k m rule: stream_xor_loop.induct)
  case (1 z k m)
  consider "64 \<le> length m" | "0 < length m" "length m < 64" | "m = []"
    by fastforce
  then show ?case
  proof cases
    case 1
    have "map2 (XOR) m (core_salsa20 z k sigma @ stream_loop (next_block z) k (length m - 64))
        = map2 (XOR) (take 64 m @ drop 64 m)
            (core_salsa20 z k sigma @ stream_loop (next_block z) k (length m - 64))"
      by simp
    also have "\<dots> = map2 (XOR) (take 64 m) (core_salsa20 z k sigma)
        @ map2 (XOR) (drop 64 m) (stream_loop (next_block z) k (length m - 64))"
      using 1 by (subst zip_append) simp_all
    finally show ?thesis
      using 1 "1.IH" by (simp add: stream_xor_loop.simps [of z k m] stream_loop.simps [of z k "length m"])
  next
    case 2
    then show ?thesis
      by (simp add: stream_xor_loop.simps [of z k m] stream_loop.simps [of z k "length m"]
          zip_take_length)
  next
    case 3
    then show ?thesis
      by (simp add: stream_xor_loop.simps [of z k "[]"])
  qed
qed

lemma take_stream_loop: "j \<le> b \<Longrightarrow> take j (stream_loop z k b) = stream_loop z k j"
proof (induction z k b arbitrary: j rule: stream_loop.induct)
  case (1 z k b)
  show ?case
    using 1
    by (auto simp: stream_loop.simps [of z k b] stream_loop.simps [of z k j] min_def)
qed


lemma length_crypto_stream [simp]: "length (crypto_stream d n k) = d"
  by (simp add: crypto_stream_def crypto_stream_salsa20_def Let_def)

lemma take_crypto_stream: "j \<le> d \<Longrightarrow> take j (crypto_stream d n k) = crypto_stream j n k"
  by (simp add: crypto_stream_def crypto_stream_salsa20_def Let_def take_stream_loop)

lemma crypto_stream_xor_eq:
  "crypto_stream_xor m n k = map2 (XOR) m (crypto_stream (length m) n k)"
  by (simp add: crypto_stream_xor_def crypto_stream_def crypto_stream_salsa20_xor_def
      crypto_stream_salsa20_def Let_def stream_xor_loop_eq)

lemma map2_xor_cancel: "length m = length (s :: bytes) \<Longrightarrow> map2 (XOR) (map2 (XOR) m s) s = m"
  by (induction m s rule: list_induct2) (simp_all add: xor.assoc)

lemma map2_xor_zero: "length s = j \<Longrightarrow> map2 (XOR) (replicate j 0) (s :: bytes) = s"
  by (induction j arbitrary: s) (auto simp: length_Suc_conv)

lemma length_crypto_stream_xor [simp]: "length (crypto_stream_xor m n k) = length m"
  by (simp add: crypto_stream_xor_eq)

lemma crypto_stream_xor_twice: "crypto_stream_xor (crypto_stream_xor m n k) n k = m"
  by (simp add: crypto_stream_xor_eq map2_xor_cancel)

lemma fold_or_zero_iff:
  "fold (\<lambda>i d. d OR f i) is d = (0 :: 8 word) \<longleftrightarrow> d = 0 \<and> (\<forall>i\<in>set is. f i = 0)"
  by (induction "is" arbitrary: d) (auto simp: or_eq_0_iff)

lemma xor_zero_iff: "a XOR b = (0 :: 8 word) \<longleftrightarrow> a = b"
  by (auto simp: bit_eq_iff bit_xor_iff)

lemma vn_zero_iff: "vn x y n = 0 \<longleftrightarrow> (\<forall>i<n. u8 x i = u8 y i)"
proof -
  define d where "d = fold (\<lambda>i d. d OR (u8 x i XOR u8 y i)) [0..<n] (0 :: 8 word)"
  have "bit (ucast d - (1 :: 32 word)) 8 \<longleftrightarrow> d = 0"
  proof (cases "d = 0")
    case True
    then show ?thesis by simp
  next
    case False
    then have "0 < unat d" "unat d < 256"
      using unsigned_less [of d] by (simp_all add: unat_gt_0)
    have "ucast d - (1 :: 32 word) = word_of_nat (unat d - 1)"
      using \<open>0 < unat d\<close> by (simp add: of_nat_diff)
    moreover have "\<not> bit (unat d - 1) 8"
      using \<open>unat d < 256\<close> by (subst bit_iff_odd) simp
    then have "\<not> bit (word_of_nat (unat d - 1) :: 32 word) 8"
      by (simp add: bit_of_nat_iff)
    ultimately show ?thesis using False by simp
  qed
  moreover have "d = 0 \<longleftrightarrow> (\<forall>i<n. u8 x i = u8 y i)"
    unfolding d_def fold_or_zero_iff by (auto simp: xor_zero_iff)
  ultimately show ?thesis
    by (simp add: vn_def flip: d_def)
qed

lemma u8_eq_iff: "length x = n \<Longrightarrow> length y = n \<Longrightarrow> (\<forall>i<n. u8 x i = u8 y i) \<longleftrightarrow> x = y"
  by (auto simp: u8_def list_eq_iff_nth_eq)

lemma crypto_verify_16_iff:
  "length x = 16 \<Longrightarrow> length y = 16 \<Longrightarrow> crypto_verify_16 x y = 0 \<longleftrightarrow> x = y"
  unfolding crypto_verify_16_def vn_zero_iff by (rule u8_eq_iff)

lemma verify_iff: "verify x y \<longleftrightarrow> x \<noteq> [] \<and> x = y"
  unfolding verify_def vn_zero_iff using u8_eq_iff [of x "length x" y] by auto


lemma p_pad_blocks [simp]: "p_pad (poly_blocks m s) = p_pad s"
  by (simp add: poly_blocks_def)

lemma p_pad_put [simp]: "p_pad (poly_put m s) = p_pad s"
  by (simp add: poly_put_def)

lemma p_pad_rest [simp]: "p_pad (poly_rest m s) = p_pad s"
  by (simp add: poly_rest_def Let_def)

lemma p_pad_update [simp]: "p_pad (poly_update m s) = p_pad s"
  by (simp add: poly_update_def Let_def)

lemma p_pad_pad_last [simp]: "p_pad (poly_pad_last s) = p_pad s"
  by (simp add: poly_pad_last_def)

lemma length_poly_add_pad [simp]: "length (poly_add_pad c h p) = min (length h) (length p)"
  by (induction c h p rule: poly_add_pad.induct) (simp_all add: Let_def)

lemma length_concat_pairs: "length (concat (map (\<lambda>w. [f w, g w]) xs)) = 2 * length xs"
  by (induction xs) simp_all

lemma length_crypto_onetimeauth [simp]: "length (crypto_onetimeauth m k) = 16"
  by (simp add: crypto_onetimeauth_def poly_finish_def Let_def length_concat_pairs poly_pack_def
      poly1305_new_def)

text \<open>The authenticator reads only the first 32 bytes of its key.\<close>

lemma u8_take: "i < j \<Longrightarrow> u8 (take j b) i = u8 b i"
  by (simp add: u8_def)

lemma crypto_onetimeauth_take: "crypto_onetimeauth m (take 32 k) = crypto_onetimeauth m k"
proof -
  have l: "load16 (take 32 k) i = load16 k i" if "i < 31" for i
    using that by (simp add: load16_def u8_take)
  have "poly1305_new (take 32 k) = poly1305_new k"
    by (simp add: poly1305_new_def l Let_def cong: map_cong)
  then show ?thesis by (simp add: crypto_onetimeauth_def)
qed

text \<open>The key of the authenticator and the pad of the text: parts of one stream.\<close>

definition box_mac :: "bytes \<Rightarrow> bytes \<Rightarrow> bytes \<Rightarrow> bytes" where
  "box_mac c n k = crypto_onetimeauth c (crypto_stream 32 n k)"

definition box_pad :: "nat \<Rightarrow> bytes \<Rightarrow> bytes \<Rightarrow> bytes" where
  "box_pad l n k = drop 32 (crypto_stream (32 + l) n k)"

lemma length_box_mac [simp]: "length (box_mac c n k) = 16"
  by (simp add: box_mac_def)

lemma length_box_pad [simp]: "length (box_pad l n k) = l"
  by (simp add: box_pad_def)

lemma drop_stream_xor:
  "length p = 32 \<Longrightarrow> drop 32 (crypto_stream_xor (p @ m) n k) = map2 (XOR) m (box_pad (length m) n k)"
  by (simp add: crypto_stream_xor_eq drop_map drop_zip box_pad_def)

lemma secretbox_eq:
  assumes "length k = 32" "length n = 24"
  shows "secretbox m n k =
    Inr (let c = map2 (XOR) m (box_pad (length m) n k) in box_mac c n k @ c)"
proof -
  let ?x = "crypto_stream_xor (replicate 32 0 @ m) n k"
  have "take 32 ?x = crypto_stream 32 n k"
    by (simp add: crypto_stream_xor_eq take_map take_zip take_crypto_stream map2_xor_zero)
  then have "crypto_onetimeauth c ?x = box_mac c n k" for c
    by (metis crypto_onetimeauth_take box_mac_def)
  then show ?thesis
    using assms by (simp add: secretbox_def checkLengths_def crypto_secretbox_def Let_def drop_stream_xor)
qed

lemma secretbox_open_eq:
  assumes "length k = 32" "length n = 24"
  shows "secretbox_open b n k =
    Inr (if 16 \<le> length b \<and> take 16 b = box_mac (drop 16 b) n k
         then Some (map2 (XOR) (drop 16 b) (box_pad (length b - 16) n k)) else None)"
proof (cases "16 \<le> length b")
  case True
  let ?c = "replicate 16 0 @ b"
  have "crypto_onetimeauth_verify (take 16 b) (drop 16 b) (crypto_stream 32 n k) = 0
      \<longleftrightarrow> take 16 b = box_mac (drop 16 b) n k"
    using True by (simp add: crypto_onetimeauth_verify_def crypto_verify_16_iff box_mac_def)
  moreover have "drop 32 (crypto_stream_xor ?c n k)
      = map2 (XOR) (drop 16 b) (box_pad (length b - 16) n k)"
    using True drop_stream_xor [of "replicate 16 0 @ take 16 b" "drop 16 b" n k] by simp
  ultimately show ?thesis
    using True assms by (simp add: secretbox_open_def checkLengths_def crypto_secretbox_open_def Let_def)
qed (use assms in \<open>simp add: secretbox_open_def checkLengths_def\<close>)

lemma secretbox_open_secretbox:
  assumes "length k = 32" "length n = 24"
  shows "\<exists>b. secretbox m n k = Inr b \<and> length b = length m + 16 \<and> secretbox_open b n k = Inr (Some m)"
  by (simp add: secretbox_eq secretbox_open_eq assms Let_def map2_xor_cancel)

end
