(* ===== verification/BlockHash.thy ===== *)
theory BlockHash
  imports Prelude
begin

text \<open>
  Two interfaces the hash functions and the authenticator share.  \<open>block_fold\<close>: a compression step
  applied to every full block of \<open>B\<close> bytes.  \<open>stream_hash\<close>: an object that absorbs data piece by
  piece and, at the end, yields the hash of everything it was given.
\<close>

definition whole :: "nat \<Rightarrow> bytes \<Rightarrow> bytes" where
  "whole B d = take (length d - length d mod B) d"

definition tail :: "nat \<Rightarrow> bytes \<Rightarrow> bytes" where
  "tail B d = drop (length d - length d mod B) d"

lemma drop_length_append: "drop (length x + k) (x @ y) = drop k y"
  by simp

locale block_fold =
  fixes B :: nat
    and step :: "bytes \<Rightarrow> 's \<Rightarrow> 's"
    and blocks :: "bytes \<Rightarrow> 's \<Rightarrow> 's"
  assumes B_pos: "0 < B"
    and blocks_rec:
      "blocks m s = (if B \<le> length m then blocks (drop B m) (step (take B m) s) else s)"
begin

lemma blocks_short: "length m < B \<Longrightarrow> blocks m s = s"
  by (subst blocks_rec) simp

lemma blocks_append: "length x mod B = 0 \<Longrightarrow> blocks (x @ y) s = blocks y (blocks x s)"
proof (induction "length x" arbitrary: x s rule: less_induct)
  case less
  show ?case
  proof (cases "x = []")
    case False
    with less.prems B_pos have "B \<le> length x"
      by (metis length_greater_0_conv mod_less not_le neq0_conv)
    moreover from this have "length (drop B x) mod B = 0"
      using less.prems by (simp add: le_mod_geq)
    ultimately show ?thesis
      using less.hyps [of "drop B x" "step (take B x) s"] B_pos
      by (simp add: blocks_rec [of "x @ y"] blocks_rec [of x])
  qed (use B_pos in \<open>simp add: blocks_short\<close>)
qed

lemma whole_tail: "whole B d @ tail B d = d"
  by (simp add: whole_def tail_def)

lemma length_whole: "length (whole B d) mod B = 0"
  by (simp add: whole_def minus_mod_eq_mult_div)

lemma length_tail: "length (tail B d) = length d mod B"
  by (simp add: tail_def)

lemma length_tail_less: "length (tail B d) < B"
  using B_pos by (simp add: length_tail)

lemma blocks_whole: "blocks d s = blocks (whole B d) s"
  by (metis blocks_append blocks_short length_tail_less length_whole whole_tail)

lemma blocks_tail_append: "blocks (tail B d @ x) (blocks d s) = blocks (d @ x) s"
  by (metis append.assoc blocks_append blocks_whole length_whole whole_tail)

lemma tail_whole_append: "length x mod B = 0 \<Longrightarrow> tail B (x @ y) = tail B y"
proof -
  assume x: "length x mod B = 0"
  then have "length (x @ y) mod B = length y mod B"
    by (metis add_0 length_append mod_add_left_eq)
  moreover have "length y mod B \<le> length y" by simp
  ultimately have "length (x @ y) - length (x @ y) mod B = length x + (length y - length y mod B)"
    by (metis Nat.add_diff_assoc length_append)
  then have "tail B (x @ y) = drop (length x + (length y - length y mod B)) (x @ y)"
    by (simp only: tail_def)
  also have "\<dots> = drop (length y - length y mod B) y"
    by (rule drop_length_append)
  also have "\<dots> = tail B y"
    by (simp only: tail_def)
  finally show ?thesis .
qed

lemma tail_append: "tail B (d @ x) = tail B (tail B d @ x)"
  by (metis append.assoc length_whole tail_whole_append whole_tail)

lemma tail_short: "length x < B \<Longrightarrow> tail B x = x"
  by (simp add: tail_def)

lemma tail_full: "length x = B \<Longrightarrow> tail B x = []"
  by (simp add: tail_def)

lemma tail_append_short: "length (tail B d) + length x < B \<Longrightarrow> tail B (d @ x) = tail B d @ x"
  by (rule trans [OF tail_append tail_short]) simp

lemma tail_append_full: "length (tail B d) + length x = B \<Longrightarrow> tail B (d @ x) = []"
  by (rule trans [OF tail_append tail_full]) simp

lemma blocks_append_short:
  "length (tail B d) + length x < B \<Longrightarrow> blocks (d @ x) s = blocks d s"
  using blocks_short [of "tail B d @ x" "blocks d s"] blocks_tail_append [of d x s] by simp

end

locale stream_hash =
  fixes start :: 's
    and upd :: "bytes \<Rightarrow> 's \<Rightarrow> 's"
    and fin :: "'s \<Rightarrow> bytes"
    and hash :: "bytes \<Rightarrow> bytes"
    and absorbed :: "'s \<Rightarrow> bytes \<Rightarrow> bool"
  assumes start: "absorbed start []"
    and upd: "absorbed s d \<Longrightarrow> absorbed (upd m s) (d @ m)"
    and fin: "absorbed s d \<Longrightarrow> fin s = hash d"
begin

lemma absorbed_fold: "absorbed s d \<Longrightarrow> absorbed (fold upd ms s) (d @ concat ms)"
proof (induction ms arbitrary: s d)
  case (Cons m ms)
  from Cons.IH [OF upd [OF Cons.prems, of m]] show ?case by simp
qed simp

lemma fin_fold: "fin (fold upd ms start) = hash (concat ms)"
  using fin [OF absorbed_fold [OF start, of ms]] by simp

lemma fin_split: "fin (upd y (upd x start)) = hash (x @ y)"
  using fin_fold [of "[x, y]"] by simp

end

end
