(* ===== verification/Fips180.thy ===== *)
theory Fips180
  imports Prelude
begin

text \<open>
  SHA-512 and SHA-256 as FIPS 180-4 defines them, independent of the code: the round constants are
  the first bits of the fractional parts of the cube roots of the first primes, the initial hash
  values those of the square roots of the first eight primes; rotations and big-endian words are the
  library's.  (The standard bounds the length of a message; here it is encoded modulo \<open>2 ^ 64\<close>,
  which changes nothing below \<open>2 ^ 61\<close> bytes.)
\<close>

unbundle bit_operations_syntax

section \<open>The constants\<close>

text \<open>The first 80 prime numbers.\<close>

definition primes :: "nat list" where
  "primes =
    [2, 3, 5, 7, 11, 13, 17, 19, 23, 29, 31, 37, 41, 43, 47, 53, 59, 61, 67, 71,
     73, 79, 83, 89, 97, 101, 103, 107, 109, 113, 127, 131, 137, 139, 149, 151, 157, 163, 167, 173,
     179, 181, 191, 193, 197, 199, 211, 223, 227, 229, 233, 239, 241, 251, 257, 263, 269, 271, 277, 281,
     283, 293, 307, 311, 313, 317, 331, 337, 347, 349, 353, 359, 367, 373, 379, 383, 389, 397, 401, 409]"

text \<open>The integral part of the \<open>k\<close>-th root of \<open>n\<close>, bit by bit from the bit below \<open>b\<close> down.\<close>

fun root_bits :: "nat \<Rightarrow> nat \<Rightarrow> nat \<Rightarrow> nat \<Rightarrow> nat" where
  "root_bits k n 0 r = r"
| "root_bits k n (Suc b) r = root_bits k n b (if (r + 2 ^ b) ^ k \<le> n then r + 2 ^ b else r)"

text \<open>The first \<open>w\<close> bits of the fractional part of the \<open>k\<close>-th root of \<open>p\<close>, for \<open>p < 512 ^ k\<close>.\<close>

definition frac_root :: "nat \<Rightarrow> nat \<Rightarrow> nat \<Rightarrow> nat" where
  "frac_root k w p = root_bits k (p * 2 ^ (k * w)) (w + 9) 0 mod 2 ^ w"

definition fips_K :: "64 word list" where
  "fips_K = map (\<lambda>p. word_of_nat (frac_root 3 64 p)) primes"

definition fips_H :: "64 word list" where
  "fips_H = map (\<lambda>p. word_of_nat (frac_root 2 64 p)) (take 8 primes)"

definition fips256_K :: "32 word list" where
  "fips256_K = map (\<lambda>p. word_of_nat (frac_root 3 32 p)) (take 64 primes)"

definition fips256_H :: "32 word list" where
  "fips256_H = map (\<lambda>p. word_of_nat (frac_root 2 32 p)) (take 8 primes)"

section \<open>SHA-512\<close>

fun fips_W :: "64 word list \<Rightarrow> nat \<Rightarrow> 64 word" where
  "fips_W M t =
     (if t < 16 then M ! t
      else (let s0 = fips_W M (t - 15); s1 = fips_W M (t - 2)
            in (word_rotr 19 s1 XOR word_rotr 61 s1 XOR drop_bit 6 s1) + fips_W M (t - 7)
               + (word_rotr 1 s0 XOR word_rotr 8 s0 XOR drop_bit 7 s0) + fips_W M (t - 16)))"

declare fips_W.simps [simp del]

definition fips_round :: "64 word list \<Rightarrow> nat \<Rightarrow> 64 word list \<Rightarrow> 64 word list" where
  "fips_round M t x =
     (let e = x ! 4; a = x ! 0;
          T1 = x ! 7 + (word_rotr 14 e XOR word_rotr 18 e XOR word_rotr 41 e)
                 + ((e AND x ! 5) XOR (NOT e AND x ! 6)) + fips_K ! t + fips_W M t;
          T2 = (word_rotr 28 a XOR word_rotr 34 a XOR word_rotr 39 a)
                 + ((a AND x ! 1) XOR (a AND x ! 2) XOR (x ! 1 AND x ! 2))
      in [T1 + T2, a, x ! 1, x ! 2, x ! 3 + T1, e, x ! 5, x ! 6])"

definition fips_block :: "64 word list \<Rightarrow> 64 word list \<Rightarrow> 64 word list" where
  "fips_block M H = map2 (+) (fold (fips_round M) [0..<80] H) H"

text \<open>The big-endian words of a block.\<close>

definition block_words :: "bytes \<Rightarrow> 64 word list" where
  "block_words m = map (\<lambda>i. word_rcat (take 8 (drop (8 * i) m))) [0..<16]"

fun fips_blocks :: "bytes \<Rightarrow> 64 word list \<Rightarrow> 64 word list" where
  "fips_blocks m H =
     (if 128 \<le> length m then fips_blocks (drop 128 m) (fips_block (block_words (take 128 m)) H) else H)"

declare fips_blocks.simps [simp del]

definition be64 :: "64 word \<Rightarrow> bytes" where
  "be64 x = map (\<lambda>i. ucast (drop_bit (8 * (7 - i)) x)) [0..<8]"

definition fips_pad :: "nat \<Rightarrow> bytes" where
  "fips_pad n = [128] @ replicate ((239 - n mod 128) mod 128) 0 @ replicate 8 0 @ be64 (word_of_nat (8 * n))"

definition sha512_spec :: "bytes \<Rightarrow> bytes" where
  "sha512_spec m = concat (map be64 (fips_blocks (m @ fips_pad (length m)) fips_H))"

section \<open>SHA-256\<close>

fun fips256_W :: "32 word list \<Rightarrow> nat \<Rightarrow> 32 word" where
  "fips256_W M t =
     (if t < 16 then M ! t
      else (let s0 = fips256_W M (t - 15); s1 = fips256_W M (t - 2)
            in (word_rotr 17 s1 XOR word_rotr 19 s1 XOR drop_bit 10 s1) + fips256_W M (t - 7)
               + (word_rotr 7 s0 XOR word_rotr 18 s0 XOR drop_bit 3 s0) + fips256_W M (t - 16)))"

declare fips256_W.simps [simp del]

definition fips256_round :: "32 word list \<Rightarrow> nat \<Rightarrow> 32 word list \<Rightarrow> 32 word list" where
  "fips256_round M t x =
     (let e = x ! 4; a = x ! 0;
          T1 = x ! 7 + (word_rotr 6 e XOR word_rotr 11 e XOR word_rotr 25 e)
                 + ((e AND x ! 5) XOR (NOT e AND x ! 6)) + fips256_K ! t + fips256_W M t;
          T2 = (word_rotr 2 a XOR word_rotr 13 a XOR word_rotr 22 a)
                 + ((a AND x ! 1) XOR (a AND x ! 2) XOR (x ! 1 AND x ! 2))
      in [T1 + T2, a, x ! 1, x ! 2, x ! 3 + T1, e, x ! 5, x ! 6])"

definition block256_words :: "bytes \<Rightarrow> 32 word list" where
  "block256_words m = map (\<lambda>i. word_rcat (take 4 (drop (4 * i) m))) [0..<16]"

definition fips256_block :: "bytes \<Rightarrow> 32 word list \<Rightarrow> 32 word list" where
  "fips256_block m H = map2 (+) H (fold (fips256_round (block256_words m)) [0..<64] H)"

fun fips256_blocks :: "bytes \<Rightarrow> 32 word list \<Rightarrow> 32 word list" where
  "fips256_blocks m H =
     (if 64 \<le> length m then fips256_blocks (drop 64 m) (fips256_block (take 64 m) H) else H)"

declare fips256_blocks.simps [simp del]

definition be32w :: "32 word \<Rightarrow> bytes" where
  "be32w x = map (\<lambda>i. ucast (drop_bit (8 * (3 - i)) x)) [0..<4]"

definition fips256_pad :: "nat \<Rightarrow> bytes" where
  "fips256_pad n = [128] @ replicate ((119 - n mod 64) mod 64) 0 @ be64 (word_of_nat (8 * n))"

definition sha256_spec :: "bytes \<Rightarrow> bytes" where
  "sha256_spec m = concat (map be32w (fips256_blocks (m @ fips256_pad (length m)) fips256_H))"

section \<open>Roots\<close>

lemma root_bits_le: "r ^ k \<le> n \<Longrightarrow> root_bits k n b r ^ k \<le> n"
  by (induction b arbitrary: r) auto

lemma root_bits_less: "n < (r + 2 ^ b) ^ k \<Longrightarrow> n < Suc (root_bits k n b r) ^ k"
proof (induction b arbitrary: r)
  case (Suc b)
  have "r + 2 ^ Suc b = r + 2 ^ b + 2 ^ b" by simp
  with Suc show ?case by (auto simp: not_le add.assoc mult_2)
qed simp

text \<open>A root is recognised by its two powers.\<close>

lemma root_unique:
  fixes a b :: nat
  assumes "a ^ k \<le> n" "n < Suc a ^ k" "b ^ k \<le> n" "n < Suc b ^ k"
  shows "a = b"
proof (rule ccontr)
  assume "a \<noteq> b"
  then consider "Suc a \<le> b" | "Suc b \<le> a" by linarith
  then show False
    using power_mono [of "Suc a" b k] power_mono [of "Suc b" a k] assms by cases linarith+
qed

definition root_check :: "nat \<Rightarrow> nat \<Rightarrow> nat \<Rightarrow> nat \<Rightarrow> bool" where
  "root_check k w p r \<longleftrightarrow> r ^ k \<le> p * 2 ^ (k * w) \<and> p * 2 ^ (k * w) < (r + 1) ^ k \<and> p < 512 ^ k"

lemma root_check_eq:
  assumes "0 < k" "root_check k w p r"
  shows "frac_root k w p = r mod 2 ^ w"
proof -
  define n where "n = p * 2 ^ (k * w)"
  have c: "r ^ k \<le> n" "n < Suc r ^ k" "p < 512 ^ k"
    using assms(2) by (simp_all add: root_check_def n_def)
  have "n < 512 ^ k * 2 ^ (k * w)" using c(3) by (simp add: n_def)
  also have "\<dots> = (2 ^ (w + 9)) ^ k" by (simp add: power_mult power_mult_distrib power_add mult.commute flip: power_mult)
  finally have "n < (0 + 2 ^ (w + 9)) ^ k" by simp
  from root_bits_less [OF this] root_bits_le [of 0 k n "w + 9"] assms(1)
  have "root_bits k n (w + 9) 0 = r" by (intro root_unique [OF _ _ c(1,2)]) (simp_all add: power_0_left)
  then show ?thesis by (simp add: frac_root_def flip: n_def)
qed

text \<open>A table of fractional parts, recognised with the table of the integral parts.\<close>

definition roots_check :: "nat \<Rightarrow> nat \<Rightarrow> nat list \<Rightarrow> nat list \<Rightarrow> nat list \<Rightarrow> bool" where
  "roots_check k w ps is qs \<longleftrightarrow>
     length is = length qs \<and> list_all2 (\<lambda>p (i, q). root_check k w p (i * 2 ^ w + q) \<and> q < 2 ^ w) ps (zip is qs)"

lemma roots_check_eq:
  assumes "0 < k" "roots_check k w ps is qs"
  shows "map (frac_root k w) ps = qs"
proof -
  have l: "length is = length qs" "length ps = length qs"
    using assms(2) by (auto simp: roots_check_def dest: list_all2_lengthD)
  have "frac_root k w (ps ! n) = qs ! n" if "n < length qs" for n
    using assms that l root_check_eq [OF assms(1), of w "ps ! n" "is ! n * 2 ^ w + qs ! n"]
    by (auto simp: roots_check_def list_all2_conv_all_nth split_def)
  then show ?thesis by (intro nth_equalityI) (simp_all add: l)
qed

lemma roots_check_split:
  assumes "roots_check k w (take n ps) (take n is) (take n qs)" "roots_check k w (drop n ps) (drop n is) (drop n qs)"
    and "length is = length qs"
  shows "roots_check k w ps is qs"
proof -
  have "list_all2 (\<lambda>p (i, q). root_check k w p (i * 2 ^ w + q) \<and> q < 2 ^ w)
      (take n ps @ drop n ps) (take n (zip is qs) @ drop n (zip is qs))"
    by (rule list_all2_appendI) (use assms in \<open>simp_all add: roots_check_def take_zip drop_zip\<close>)
  then show ?thesis by (simp add: roots_check_def assms(3))
qed

definition cube_root_parts :: "nat list" where
  "cube_root_parts =
    [1, 1, 1, 1, 2, 2, 2, 2, 2, 3, 3, 3, 3, 3, 3, 3, 3, 3,
     4, 4, 4, 4, 4, 4, 4, 4, 4, 4, 4, 4, 5, 5, 5, 5, 5, 5, 5, 5, 5, 5, 5, 5, 5, 5, 5, 5, 5,
     6, 6, 6, 6, 6, 6, 6, 6, 6, 6, 6, 6, 6, 6, 6, 6, 6, 6, 6, 6, 6, 7, 7, 7, 7, 7, 7, 7, 7, 7, 7, 7, 7]"

definition square_root_parts :: "nat list" where
  "square_root_parts = [1, 1, 2, 2, 3, 3, 4, 4]"

section \<open>Words\<close>

lemma bit_word_rcat:
  "bit (word_rcat (ws :: bytes) :: 'a :: len word) n \<longleftrightarrow>
    n < LENGTH('a) \<and> n div 8 < length ws \<and> bit (ws ! (length ws - Suc (n div 8))) (n mod 8)"
  using bit_horner_sum_uint_exp_iff [of "rev ws" n] by (auto simp: word_rcat_def bit_word_of_int_iff rev_nth)

end
