(* ===== verification/Sha512.thy ===== *)
theory Sha512
  imports Nacl BlockHash Fips180
begin

text \<open>
  SHA-512 of taler-util/src/nacl-fast.ts: \<open>crypto_hashblocks_hl\<close>, \<open>crypto_hash\<close> and the incremental
  \<open>HashState\<close>.  A 64-bit word is a pair of 32-bit halves (\<open>hh[i]\<close>, \<open>hl[i]\<close>), added through four
  16-bit columns whose carries are resolved at the end.  The second half of the theory shows that
  this is addition and rotation of 64-bit words, so that the compression function is the one of
  FIPS 180-4, and that hashing in pieces gives the hash of the whole.
\<close>

unbundle bit_operations_syntax

section \<open>The code\<close>

type_synonym hl = "32 word \<times> 32 word"

definition sha512_K :: "hl list" where
  "sha512_K = [
     (0x428a2f98, 0xd728ae22), (0x71374491, 0x23ef65cd),
     (0xb5c0fbcf, 0xec4d3b2f), (0xe9b5dba5, 0x8189dbbc),
     (0x3956c25b, 0xf348b538), (0x59f111f1, 0xb605d019),
     (0x923f82a4, 0xaf194f9b), (0xab1c5ed5, 0xda6d8118),
     (0xd807aa98, 0xa3030242), (0x12835b01, 0x45706fbe),
     (0x243185be, 0x4ee4b28c), (0x550c7dc3, 0xd5ffb4e2),
     (0x72be5d74, 0xf27b896f), (0x80deb1fe, 0x3b1696b1),
     (0x9bdc06a7, 0x25c71235), (0xc19bf174, 0xcf692694),
     (0xe49b69c1, 0x9ef14ad2), (0xefbe4786, 0x384f25e3),
     (0x0fc19dc6, 0x8b8cd5b5), (0x240ca1cc, 0x77ac9c65),
     (0x2de92c6f, 0x592b0275), (0x4a7484aa, 0x6ea6e483),
     (0x5cb0a9dc, 0xbd41fbd4), (0x76f988da, 0x831153b5),
     (0x983e5152, 0xee66dfab), (0xa831c66d, 0x2db43210),
     (0xb00327c8, 0x98fb213f), (0xbf597fc7, 0xbeef0ee4),
     (0xc6e00bf3, 0x3da88fc2), (0xd5a79147, 0x930aa725),
     (0x06ca6351, 0xe003826f), (0x14292967, 0x0a0e6e70),
     (0x27b70a85, 0x46d22ffc), (0x2e1b2138, 0x5c26c926),
     (0x4d2c6dfc, 0x5ac42aed), (0x53380d13, 0x9d95b3df),
     (0x650a7354, 0x8baf63de), (0x766a0abb, 0x3c77b2a8),
     (0x81c2c92e, 0x47edaee6), (0x92722c85, 0x1482353b),
     (0xa2bfe8a1, 0x4cf10364), (0xa81a664b, 0xbc423001),
     (0xc24b8b70, 0xd0f89791), (0xc76c51a3, 0x0654be30),
     (0xd192e819, 0xd6ef5218), (0xd6990624, 0x5565a910),
     (0xf40e3585, 0x5771202a), (0x106aa070, 0x32bbd1b8),
     (0x19a4c116, 0xb8d2d0c8), (0x1e376c08, 0x5141ab53),
     (0x2748774c, 0xdf8eeb99), (0x34b0bcb5, 0xe19b48a8),
     (0x391c0cb3, 0xc5c95a63), (0x4ed8aa4a, 0xe3418acb),
     (0x5b9cca4f, 0x7763e373), (0x682e6ff3, 0xd6b2b8a3),
     (0x748f82ee, 0x5defb2fc), (0x78a5636f, 0x43172f60),
     (0x84c87814, 0xa1f0ab72), (0x8cc70208, 0x1a6439ec),
     (0x90befffa, 0x23631e28), (0xa4506ceb, 0xde82bde9),
     (0xbef9a3f7, 0xb2c67915), (0xc67178f2, 0xe372532b),
     (0xca273ece, 0xea26619c), (0xd186b8c7, 0x21c0c207),
     (0xeada7dd6, 0xcde0eb1e), (0xf57d4f7f, 0xee6ed178),
     (0x06f067aa, 0x72176fba), (0x0a637dc5, 0xa2c898a6),
     (0x113f9804, 0xbef90dae), (0x1b710b35, 0x131c471b),
     (0x28db77f5, 0x23047d84), (0x32caab7b, 0x40c72493),
     (0x3c9ebe0a, 0x15c9bebc), (0x431d67c4, 0x9c100d4c),
     (0x4cc5d4be, 0xcb3e42b6), (0x597f299c, 0xfc657e2a),
     (0x5fcb6fab, 0x3ad6faec), (0x6c44198c, 0x4a475817)]"

text \<open>The columns \<open>a\<close>, \<open>b\<close>, \<open>c\<close>, \<open>d\<close> of the sums: first summand, further summands, carries.\<close>

definition col_start :: "hl \<Rightarrow> 32 word \<times> 32 word \<times> 32 word \<times> 32 word" where
  "col_start = (\<lambda>(h, l). (l AND 0xffff, drop_bit 16 l, h AND 0xffff, drop_bit 16 h))"

definition col_add ::
  "hl \<Rightarrow> 32 word \<times> 32 word \<times> 32 word \<times> 32 word \<Rightarrow> 32 word \<times> 32 word \<times> 32 word \<times> 32 word"
  where
  "col_add = (\<lambda>(h, l) (a, b, c, d).
     (a + (l AND 0xffff), b + drop_bit 16 l, c + (h AND 0xffff), d + drop_bit 16 h))"

definition col_end :: "32 word \<times> 32 word \<times> 32 word \<times> 32 word \<Rightarrow> hl" where
  "col_end = (\<lambda>(a, b, c, d).
     let b = b + drop_bit 16 a; c = c + drop_bit 16 b; d = d + drop_bit 16 c
     in ((c AND 0xffff) OR push_bit 16 d, (a AND 0xffff) OR push_bit 16 b))"

definition hl_sum :: "hl \<Rightarrow> hl list \<Rightarrow> hl" where
  "hl_sum x xs = col_end (fold col_add xs (col_start x))"

definition Sigma1 :: "hl \<Rightarrow> hl" where
  "Sigma1 = (\<lambda>(h, l).
     ((drop_bit 14 h OR push_bit (32 - 14) l) XOR (drop_bit 18 h OR push_bit (32 - 18) l)
        XOR (drop_bit (41 - 32) l OR push_bit (32 - (41 - 32)) h),
      (drop_bit 14 l OR push_bit (32 - 14) h) XOR (drop_bit 18 l OR push_bit (32 - 18) h)
        XOR (drop_bit (41 - 32) h OR push_bit (32 - (41 - 32)) l)))"

definition Sigma0 :: "hl \<Rightarrow> hl" where
  "Sigma0 = (\<lambda>(h, l).
     ((drop_bit 28 h OR push_bit (32 - 28) l)
        XOR (drop_bit (34 - 32) l OR push_bit (32 - (34 - 32)) h)
        XOR (drop_bit (39 - 32) l OR push_bit (32 - (39 - 32)) h),
      (drop_bit 28 l OR push_bit (32 - 28) h)
        XOR (drop_bit (34 - 32) h OR push_bit (32 - (34 - 32)) l)
        XOR (drop_bit (39 - 32) h OR push_bit (32 - (39 - 32)) l)))"

definition Ch :: "hl \<Rightarrow> hl \<Rightarrow> hl \<Rightarrow> hl" where
  "Ch = (\<lambda>(eh, el) (fh, fl) (gh, gl).
     ((eh AND fh) XOR (NOT eh AND gh), (el AND fl) XOR (NOT el AND gl)))"

definition Maj :: "hl \<Rightarrow> hl \<Rightarrow> hl \<Rightarrow> hl" where
  "Maj = (\<lambda>(ah, al) (bh, bl) (ch, cl).
     ((ah AND bh) XOR (ah AND ch) XOR (bh AND ch), (al AND bl) XOR (al AND cl) XOR (bl AND cl)))"

definition sigma0 :: "hl \<Rightarrow> hl" where
  "sigma0 = (\<lambda>(th, tl).
     ((drop_bit 1 th OR push_bit (32 - 1) tl) XOR (drop_bit 8 th OR push_bit (32 - 8) tl)
        XOR drop_bit 7 th,
      (drop_bit 1 tl OR push_bit (32 - 1) th) XOR (drop_bit 8 tl OR push_bit (32 - 8) th)
        XOR (drop_bit 7 tl OR push_bit (32 - 7) th)))"

definition sigma1 :: "hl \<Rightarrow> hl" where
  "sigma1 = (\<lambda>(th, tl).
     ((drop_bit 19 th OR push_bit (32 - 19) tl)
        XOR (drop_bit (61 - 32) tl OR push_bit (32 - (61 - 32)) th) XOR drop_bit 6 th,
      (drop_bit 19 tl OR push_bit (32 - 19) th)
        XOR (drop_bit (61 - 32) th OR push_bit (32 - (61 - 32)) tl)
        XOR (drop_bit 6 tl OR push_bit (32 - 6) th)))"

text \<open>One of the 80 rounds, and the new message words every 16 rounds, computed in place.\<close>

definition schedule_word :: "nat \<Rightarrow> hl list \<Rightarrow> hl list" where
  "schedule_word j w = w[j := hl_sum (w ! j)
     [w ! ((j + 9) mod 16), sigma0 (w ! ((j + 1) mod 16)), sigma1 (w ! ((j + 14) mod 16))]]"

definition schedule :: "hl list \<Rightarrow> hl list" where
  "schedule w = fold schedule_word [0..<16] w"

definition sha512_round :: "nat \<Rightarrow> hl list \<times> hl list \<Rightarrow> hl list \<times> hl list" where
  "sha512_round i = (\<lambda>(a, w).
     let t = hl_sum (a ! 7) [Sigma1 (a ! 4), Ch (a ! 4) (a ! 5) (a ! 6), sha512_K ! i, w ! (i mod 16)];
         b7 = hl_sum t [Sigma0 (a ! 0), Maj (a ! 0) (a ! 1) (a ! 2)];
         b3 = hl_sum (a ! 3) [t]
     in ([b7, a ! 0, a ! 1, a ! 2, b3, a ! 4, a ! 5, a ! 6],
         if i mod 16 = 15 then schedule w else w))"

definition load32_be :: "bytes \<Rightarrow> nat \<Rightarrow> 32 word" where
  "load32_be m j = push_bit 24 (ucast (u8 m j)) OR push_bit 16 (ucast (u8 m (j + 1)))
     OR push_bit 8 (ucast (u8 m (j + 2))) OR ucast (u8 m (j + 3))"

definition sha512_block :: "bytes \<Rightarrow> hl list \<Rightarrow> hl list" where
  "sha512_block m hs =
     (let w = map (\<lambda>i. (load32_be m (8 * i), load32_be m (8 * i + 4))) [0..<16];
          (a, _) = fold sha512_round [0..<80] (hs, w)
      in map2 (\<lambda>x y. hl_sum x [y]) a hs)"

fun crypto_hashblocks_hl :: "bytes \<Rightarrow> hl list \<Rightarrow> hl list" where
  "crypto_hashblocks_hl m hs =
     (if 128 \<le> length m then crypto_hashblocks_hl (drop 128 m) (sha512_block (take 128 m) hs)
      else hs)"

declare crypto_hashblocks_hl.simps [simp del]

definition sha512_init :: "hl list" where
  "sha512_init =
     [(0x6a09e667, 0xf3bcc908), (0xbb67ae85, 0x84caa73b),
      (0x3c6ef372, 0xfe94f82b), (0xa54ff53a, 0x5f1d36f1),
      (0x510e527f, 0xade682d1), (0x9b05688c, 0x2b3e6c1f),
      (0x1f83d9ab, 0xfb41bd6b), (0x5be0cd19, 0x137e2179)]"

definition ts64 :: "hl \<Rightarrow> bytes" where
  "ts64 = (\<lambda>(h, l). map (\<lambda>s. ucast (drop_bit s h)) [24, 16, 8, 0]
                     @ map (\<lambda>s. ucast (drop_bit s l)) [24, 16, 8, 0])"

text \<open>The last block or two: the rest \<open>r\<close> of the message, the bit 1, zeros and the length.\<close>

definition sha512_last :: "bytes \<Rightarrow> nat \<Rightarrow> bytes" where
  "sha512_last r b =
     (let n = (if length r < 112 then 128 else 256)
      in r @ [128] @ replicate (n - 9 - length r) 0
           @ ts64 (word_of_nat (b div 0x20000000), push_bit 3 (word_of_nat b)))"

definition crypto_hash :: "bytes \<Rightarrow> bytes" where
  "crypto_hash m =
     (let hs = crypto_hashblocks_hl m sha512_init;
          n = length m mod 128;
          hs = crypto_hashblocks_hl (sha512_last (drop (length m - n) m) (length m)) hs
      in concat (map ts64 hs))"

definition nacl_hash :: "bytes \<Rightarrow> bytes" where
  "nacl_hash msg = crypto_hash msg"

record HashState =
  hs_state :: "hl list"
  hs_next :: bytes
  hs_p :: nat
  hs_total :: nat

definition HashState_new :: HashState where
  "HashState_new = \<lparr>hs_state = sha512_init, hs_next = replicate 128 0, hs_p = 0, hs_total = 0\<rparr>"

definition hs_put :: "bytes \<Rightarrow> HashState \<Rightarrow> HashState" where
  "hs_put d s = s\<lparr>hs_next := take (hs_p s) (hs_next s) @ d @ drop (hs_p s + length d) (hs_next s)\<rparr>"

function hs_update_loop :: "bytes \<Rightarrow> HashState \<Rightarrow> HashState" where
  "hs_update_loop data s =
     (if data = [] then s
      else let r = 128 - hs_p s
           in if length data < r then (hs_put data s)\<lparr>hs_p := hs_p s + length data\<rparr>
              else let s = hs_put (take r data) s
                   in hs_update_loop (drop r data)
                        (s\<lparr>hs_state := crypto_hashblocks_hl (hs_next s) (hs_state s), hs_p := 0\<rparr>))"
  by pat_completeness auto

termination
  by (relation "measure (\<lambda>(d, s). 2 * length d + (if hs_p s = 0 then 0 else 1))")
    (auto simp: hs_put_def)

declare hs_update_loop.simps [simp del]

definition HashState_update :: "bytes \<Rightarrow> HashState \<Rightarrow> HashState" where
  "HashState_update data s = hs_update_loop data (s\<lparr>hs_total := hs_total s + length data\<rparr>)"

definition HashState_finish :: "HashState \<Rightarrow> bytes" where
  "HashState_finish s =
     concat (map ts64 (crypto_hashblocks_hl (sha512_last (take (hs_p s) (hs_next s)) (hs_total s))
       (hs_state s)))"

section \<open>The code computes on 64-bit words\<close>

text \<open>The 64-bit word a pair of halves stands for.\<close>

definition join :: "hl \<Rightarrow> 64 word" where
  "join = (\<lambda>(h, l). push_bit 32 (ucast h) OR ucast l)"

lemma bit_join: "n < 64 \<Longrightarrow> bit (join (h, l)) n = (if n < 32 then bit l n else bit h (n - 32))"
  by (auto simp: join_def bit_or_iff bit_push_bit_iff bit_ucast_iff dest: bit_imp_le_length)

lemma word64_eqI: "(\<And>n. n < 64 \<Longrightarrow> bit x n = bit (y :: 64 word) n) \<Longrightarrow> x = y"
  by (rule bit_word_eqI) simp

lemma uint_join: "unat (join (h, l)) = unat h * 2 ^ 32 + unat l"
proof -
  have "join (h, l) = push_bit 32 (ucast h) + ucast l"
    unfolding join_def prod.case
    by (rule disjunctive_add [symmetric])
      (auto simp: bit_push_bit_iff bit_ucast_iff dest: bit_imp_le_length)
  also have "\<dots> = word_of_nat (unat h * 2 ^ 32 + unat l)"
    by (simp add: push_bit_eq_mult)
  finally have "join (h, l) = word_of_nat (unat h * 2 ^ 32 + unat l)" .
  moreover have "unat h < 2 ^ 32" "unat l < 2 ^ 32"
    using unsigned_less [of h] unsigned_less [of l] by simp_all
  then have "unat h * 2 ^ 32 + unat l < 2 ^ 64" by simp
  moreover have "unat (word_of_nat n :: 64 word) = n" if "n < 2 ^ 64" for n
    using that by (simp add: unat_of_nat take_bit_nat_eq_self)
  ultimately show ?thesis by metis
qed

lemma bit_rotr64:
  "0 < n \<Longrightarrow> n < 64 \<Longrightarrow> i < 64 \<Longrightarrow> bit (word_rotr n (x :: 64 word)) i = bit x (if i + n < 64 then i + n else i + n - 64)"
  by (auto simp: bit_word_rotr_iff mod_if)

lemma bit_rot_half:
  "0 < n \<Longrightarrow> n < 32 \<Longrightarrow> i < 32 \<Longrightarrow>
    bit (drop_bit n (a :: 32 word) OR push_bit (32 - n) b) i = (if i + n < 32 then bit a (i + n) else bit b (i + n - 32))"
  by (auto simp: bit_simps add.commute dest: bit_imp_le_length)

lemma join_rotr_low:
  "0 < n \<Longrightarrow> n < 32 \<Longrightarrow>
    join (drop_bit n h OR push_bit (32 - n) l, drop_bit n l OR push_bit (32 - n) h) = word_rotr n (join (h, l))"
  by (rule word64_eqI) (auto simp: bit_join bit_rotr64 bit_rot_half)

lemma join_rotr_high:
  "0 < n \<Longrightarrow> n < 32 \<Longrightarrow>
    join (drop_bit n l OR push_bit (32 - n) h, drop_bit n h OR push_bit (32 - n) l) = word_rotr (32 + n) (join (h, l))"
  by (rule word64_eqI) (auto simp: bit_join bit_rotr64 bit_rot_half)

lemma join_drop:
  "0 < n \<Longrightarrow> n < 32 \<Longrightarrow> join (drop_bit n h, drop_bit n l OR push_bit (32 - n) h) = drop_bit n (join (h, l))"
proof (rule word64_eqI)
  fix i :: nat
  assume n: "0 < n" "n < 32" and i: "i < 64"
  show "bit (join (drop_bit n h, drop_bit n l OR push_bit (32 - n) h)) i = bit (drop_bit n (join (h, l))) i"
  proof (cases "i + n < 64")
    case True
    then show ?thesis
      using n i by (auto simp: bit_join bit_rot_half bit_drop_bit_eq add.commute)
  next
    case False
    then show ?thesis
      using n i by (auto simp: bit_join bit_drop_bit_eq dest: bit_imp_le_length)
  qed
qed

lemma join_xor: "join (a XOR b, c XOR d) = join (a, c) XOR join (b, d)"
  by (rule word64_eqI) (simp add: bit_join bit_xor_iff)

lemma join_and: "join (a AND b, c AND d) = join (a, c) AND join (b, d)"
  by (rule word64_eqI) (simp add: bit_join bit_and_iff)

lemma join_not: "join (NOT a, NOT c) = NOT (join (a, c))"
  by (rule word64_eqI) (auto simp: bit_join bit_not_iff)

lemmas join_bits = join_xor join_and join_not join_rotr_low [of 14] join_rotr_low [of 18]
  join_rotr_high [of 9] join_rotr_low [of 28] join_rotr_high [of 2] join_rotr_high [of 7]
  join_rotr_low [of 1] join_rotr_low [of 8] join_drop [of 7] join_rotr_low [of 19]
  join_rotr_high [of 29] join_drop [of 6]

lemma join_Sigma1: "join (Sigma1 x) = word_rotr 14 (join x) XOR word_rotr 18 (join x) XOR word_rotr 41 (join x)"
  by (cases x) (use join_bits in \<open>simp add: Sigma1_def\<close>)

lemma join_Sigma0: "join (Sigma0 x) = word_rotr 28 (join x) XOR word_rotr 34 (join x) XOR word_rotr 39 (join x)"
  by (cases x) (use join_bits in \<open>simp add: Sigma0_def\<close>)

lemma join_sigma0: "join (sigma0 x) = word_rotr 1 (join x) XOR word_rotr 8 (join x) XOR drop_bit 7 (join x)"
  by (cases x) (use join_bits in \<open>simp add: sigma0_def\<close>)

lemma join_sigma1: "join (sigma1 x) = word_rotr 19 (join x) XOR word_rotr 61 (join x) XOR drop_bit 6 (join x)"
  by (cases x) (use join_bits in \<open>simp add: sigma1_def\<close>)

lemma join_Ch: "join (Ch x y z) = (join x AND join y) XOR (NOT (join x) AND join z)"
  by (cases x; cases y; cases z) (simp add: Ch_def join_xor join_and join_not)

lemma join_Maj: "join (Maj x y z) = (join x AND join y) XOR (join x AND join z) XOR (join y AND join z)"
  by (cases x; cases y; cases z) (simp add: Maj_def join_xor join_and)


text \<open>
  The four columns as numbers: the value of the columns is the sum of the summands as long as no
  column overflows, and \<open>col_end\<close> reads it modulo \<open>2^64\<close>.
\<close>

definition col_val :: "32 word \<times> 32 word \<times> 32 word \<times> 32 word \<Rightarrow> nat" where
  "col_val = (\<lambda>(a, b, c, d). unat a + unat b * 2 ^ 16 + unat c * 2 ^ 32 + unat d * 2 ^ 48)"

definition col_le :: "nat \<Rightarrow> 32 word \<times> 32 word \<times> 32 word \<times> 32 word \<Rightarrow> bool" where
  "col_le n = (\<lambda>(a, b, c, d).
     unat a \<le> n * 0xffff \<and> unat b \<le> n * 0xffff \<and> unat c \<le> n * 0xffff \<and> unat d \<le> n * 0xffff)"

lemma unat_low16: "unat (x AND 0xffff :: 32 word) = unat x mod 2 ^ 16"
proof -
  have "x AND 0xffff = take_bit 16 x" by (simp add: take_bit_eq_mask mask_eq_exp_minus_1)
  then show ?thesis by (simp only: unsigned_take_bit_eq) (simp only: take_bit_eq_mod)
qed

lemma unat_high16: "unat (drop_bit 16 x :: 32 word) = unat x div 2 ^ 16"
  by (simp only: unat_drop_bit_eq) (simp only: drop_bit_eq_div)

lemma unat_high16_le: "unat (drop_bit 16 x :: 32 word) \<le> 0xffff"
proof -
  have "unat x < 2 ^ 32" using unsigned_less [of x] by simp
  then show ?thesis by (simp add: unat_high16)
qed

lemma unat_low16_le: "unat (x AND 0xffff :: 32 word) \<le> 0xffff"
proof -
  have "unat x mod 2 ^ 16 < 2 ^ 16" by simp
  then show ?thesis unfolding unat_low16 by simp
qed

lemma split16: "unat (x AND 0xffff :: 32 word) + unat (drop_bit 16 x) * 2 ^ 16 = unat x"
  unfolding unat_low16 unat_high16 by (simp only: mod_mult_div_eq mult.commute)

lemma col_start_val: "col_val (col_start x) = unat (join x)" "col_le 1 (col_start x)"
proof -
  obtain h l where x: "x = (h, l)" by (cases x)
  show "col_val (col_start x) = unat (join x)"
    using split16 [of l] split16 [of h] by (simp add: x col_start_def col_val_def uint_join)
  show "col_le 1 (col_start x)"
    using unat_low16_le unat_high16_le by (simp add: x col_start_def col_le_def)
qed

lemma unat_add_le:
  "unat (a :: 32 word) \<le> n * 0xffff \<Longrightarrow> unat b \<le> 0xffff \<Longrightarrow> n < 0x1000 \<Longrightarrow> unat (a + b) = unat a + unat b"
  by (subst unat_add_lem [symmetric]) simp

lemma col_add_val:
  assumes "col_le n s" "n < 0x1000"
  shows "col_val (col_add x s) = col_val s + unat (join x)" "col_le (Suc n) (col_add x s)"
proof -
  obtain h l where x: "x = (h, l)" by (cases x)
  obtain a b c d where s: "s = (a, b, c, d)" by (cases s)
  note add = unat_add_le [OF _ unat_low16_le assms(2)] unat_add_le [OF _ unat_high16_le assms(2)]
  have le: "unat a \<le> n * 0xffff" "unat b \<le> n * 0xffff" "unat c \<le> n * 0xffff" "unat d \<le> n * 0xffff"
    using assms(1) by (simp_all add: s col_le_def)
  show "col_val (col_add x s) = col_val s + unat (join x)"
    using split16 [of l] split16 [of h]
    by (simp add: x s col_add_def col_val_def uint_join add le)
  show "col_le (Suc n) (col_add x s)"
    using le unat_low16_le [of l] unat_low16_le [of h] unat_high16_le [of l] unat_high16_le [of h]
    by (simp add: x s col_add_def col_le_def add)
qed


lemma unat_word_halves:
  "unat ((c AND 0xffff) OR push_bit 16 d :: 32 word) = unat c mod 2 ^ 16 + (unat d mod 2 ^ 16) * 2 ^ 16"
proof -
  have m: "(c AND 0xffff) = take_bit 16 c"
    by (simp add: take_bit_eq_mask mask_eq_exp_minus_1)
  have "(c AND 0xffff) OR push_bit 16 d = (c AND 0xffff) + push_bit 16 d"
    unfolding m by (rule disjunctive_add [symmetric]) (auto simp: bit_push_bit_iff bit_take_bit_iff)
  moreover have "unat (push_bit 16 d) = (unat d mod 2 ^ 16) * 2 ^ 16"
  proof -
    have "unat (push_bit 16 d) = take_bit 32 (push_bit 16 (unat d))"
      by (simp only: unsigned_push_bit_eq) simp
    also have "\<dots> = (unat d * 2 ^ 16) mod (2 ^ 16 * 2 ^ 16)"
      by (simp only: push_bit_eq_mult take_bit_eq_mod) simp
    also have "\<dots> = (unat d mod 2 ^ 16) * 2 ^ 16"
      by (simp only: mult_mod_left)
    finally show ?thesis .
  qed
  moreover have "unat (c AND 0xffff) + unat (push_bit 16 d) < 2 ^ LENGTH(32)"
  proof -
    have "unat c mod 2 ^ 16 < 2 ^ 16" "unat d mod 2 ^ 16 < 2 ^ 16" by simp_all
    then show ?thesis unfolding unat_low16 calculation(2) by simp
  qed
  ultimately show ?thesis
    by (simp add: unat_add_lem [THEN iffD1] unat_low16)
qed

lemma columns_mod:
  assumes "b' = b + a div 2 ^ 16" "c' = c + b' div 2 ^ 16" "d' = d + c' div 2 ^ 16"
  shows "a mod 2 ^ 16 + b' mod 2 ^ 16 * 2 ^ 16 + (c' mod 2 ^ 16 + d' mod 2 ^ 16 * 2 ^ 16) * 2 ^ 32
    = (a + b * 2 ^ 16 + c * 2 ^ 32 + d * 2 ^ 48 :: nat) mod 2 ^ 64"
proof -
  define k :: nat where "k = 2 ^ 16"
  have k: "0 < k" "(2::nat) ^ 32 = k * k" "(2::nat) ^ 48 = k * (k * k)" "(2::nat) ^ 64 = k * (k * (k * k))"
    by (simp_all add: k_def)
  have step: "(x + k * y) mod (k * m) = x mod k + k * ((y + x div k) mod m)" for x y m :: nat
  proof -
    have "(x + k * y) mod (k * m) = k * ((x + k * y) div k mod m) + (x + k * y) mod k"
      by (rule mod_mult2_eq)
    then show ?thesis using k(1) by (simp add: add.commute)
  qed
  have c: "(d + c' div k) mod k = d' mod k" "b' = b + a div k" "c' = c + b' div k"
    by (simp_all add: assms k_def)
  have "(a + k * (b + k * (c + k * d))) mod (k * (k * (k * k)))
      = a mod k + k * ((b' + k * (c + k * d)) mod (k * (k * k)))"
    by (subst step) (simp only: c(2) ac_simps)
  also have "(b' + k * (c + k * d)) mod (k * (k * k)) = b' mod k + k * ((c' + k * d) mod (k * k))"
    by (subst step) (simp only: c(3) ac_simps)
  also have "(c' + k * d) mod (k * k) = c' mod k + k * (d' mod k)"
    by (simp only: step c(1))
  finally show ?thesis
    unfolding k k_def [symmetric] by (simp add: algebra_simps)
qed

lemma join_col_end:
  assumes "col_le n s" "n < 0x1000"
  shows "unat (join (col_end s)) = col_val s mod 2 ^ 64"
proof -
  obtain a b c d where s: "s = (a, b, c, d)" by (cases s)
  have le: "unat b \<le> n * 0xffff" "unat c \<le> n * 0xffff"
    using assms(1) by (simp_all add: s col_le_def)
  define b' where "b' = b + drop_bit 16 a"
  define c' where "c' = c + drop_bit 16 b'"
  define d' where "d' = d + drop_bit 16 c'"
  have u: "unat b' = unat b + unat a div 2 ^ 16" "unat c' = unat c + unat b' div 2 ^ 16"
    unfolding b'_def c'_def
    using unat_add_le [OF le(1) unat_high16_le assms(2)] unat_add_le [OF le(2) unat_high16_le assms(2)]
    by (simp_all only: unat_high16)
  have "unat d' mod 2 ^ 16 = (unat d + unat c' div 2 ^ 16) mod 2 ^ 16"
  proof -
    have "unat d' = (unat d + unat c' div 2 ^ 16) mod 2 ^ 32"
      unfolding d'_def by (simp only: unat_word_ariths unat_high16) simp
    then show ?thesis by (simp add: mod_mod_cancel)
  qed
  then have "unat (join (col_end s)) = unat a mod 2 ^ 16 + unat b' mod 2 ^ 16 * 2 ^ 16
      + (unat c' mod 2 ^ 16 + (unat d + unat c' div 2 ^ 16) mod 2 ^ 16 * 2 ^ 16) * 2 ^ 32"
    by (simp only: s col_end_def prod.case Let_def uint_join unat_word_halves
        flip: b'_def c'_def d'_def) 
  also have "\<dots> = col_val s mod 2 ^ 64"
    unfolding s col_val_def prod.case by (rule columns_mod [OF u refl])
  finally show ?thesis .
qed

lemma fold_col_add:
  "col_le n s \<Longrightarrow> n + length xs < 0x1000 \<Longrightarrow>
    col_val (fold col_add xs s) = col_val s + (\<Sum>x\<leftarrow>xs. unat (join x))
    \<and> col_le (n + length xs) (fold col_add xs s)"
proof (induction xs arbitrary: n s)
  case (Cons x xs)
  then show ?case
    using col_add_val [of n s x] Cons.IH [of "Suc n" "col_add x s"] by simp
qed simp

lemma join_hl_sum: "length xs < 0xfff \<Longrightarrow> join (hl_sum x xs) = join x + sum_list (map join xs)"
proof -
  assume l: "length xs < 0xfff"
  have "unat (join (hl_sum x xs)) = (unat (join x) + (\<Sum>x\<leftarrow>xs. unat (join x))) mod 2 ^ 64"
    using fold_col_add [OF col_start_val(2) [of x], of xs] l
      join_col_end [of "1 + length xs" "fold col_add xs (col_start x)"]
    by (simp add: hl_sum_def col_start_val)
  moreover have "unat (word_of_nat n :: 64 word) = n mod 2 ^ 64" for n
    by (simp add: unat_of_nat take_bit_eq_mod)
  ultimately have "unat (join (hl_sum x xs))
      = unat (word_of_nat (unat (join x) + (\<Sum>x\<leftarrow>xs. unat (join x))) :: 64 word)"
    by metis
  then have "join (hl_sum x xs) = word_of_nat (unat (join x) + (\<Sum>x\<leftarrow>xs. unat (join x)))"
    by (simp only: word_unat_eq_iff)
  also have "\<dots> = join x + sum_list (map join xs)"
    by (simp add: sum_list_of_nat [symmetric] comp_def)
  finally show ?thesis .
qed

section \<open>The tables\<close>

lemma sha512_K_roots: "map (frac_root 3 64) primes = map (\<lambda>(h, l). unat h * 2 ^ 32 + unat l) sha512_K"
proof (rule roots_check_eq [of _ _ _ cube_root_parts])
  let ?qs = "map (\<lambda>(h, l). unat h * 2 ^ 32 + unat l) sha512_K"
  show "roots_check 3 64 primes cube_root_parts ?qs"
  proof (rule roots_check_split [of _ _ 40])
    show "roots_check 3 64 (take 40 primes) (take 40 cube_root_parts) (take 40 ?qs)"
      by (simp add: primes_def sha512_K_def cube_root_parts_def root_check_def roots_check_def)
    show "roots_check 3 64 (drop 40 primes) (drop 40 cube_root_parts) (drop 40 ?qs)"
      by (simp add: primes_def sha512_K_def cube_root_parts_def root_check_def roots_check_def)
  qed (simp add: cube_root_parts_def sha512_K_def)
qed simp

lemma sha512_init_roots: "map (frac_root 2 64) (take 8 primes) = map (\<lambda>(h, l). unat h * 2 ^ 32 + unat l) sha512_init"
  by (rule roots_check_eq [of _ _ _ square_root_parts])
    (simp_all add: primes_def sha512_init_def square_root_parts_def root_check_def roots_check_def)

lemma join_tables: "fips_K = map join sha512_K" "fips_H = map join sha512_init"
proof -
  have u: "word_of_nat ((\<lambda>(h, l). unat h * 2 ^ 32 + unat l) x) = join x" for x
  proof -
    have "word_of_nat (unat (join x)) = join x" by simp
    moreover have "unat (join x) = (case x of (h, l) \<Rightarrow> unat h * 2 ^ 32 + unat l)"
      by (cases x) (simp only: uint_join prod.case)
    ultimately show ?thesis by (simp only:)
  qed
  have "fips_K = map word_of_nat (map (frac_root 3 64) primes)" "fips_H = map word_of_nat (map (frac_root 2 64) (take 8 primes))"
    by (simp_all add: fips_K_def fips_H_def)
  then show "fips_K = map join sha512_K" "fips_H = map join sha512_init"
    by (simp_all only: sha512_K_roots sha512_init_roots map_map comp_def u)
qed

lemma length_sha512_K: "length sha512_K = 80"
  by (simp add: sha512_K_def)

lemma fips_K_nth: "i < 80 \<Longrightarrow> join (sha512_K ! i) = fips_K ! i"
  by (simp add: join_tables length_sha512_K)

section \<open>The compression function of FIPS 180-4\<close>

definition sched_at :: "64 word list \<Rightarrow> nat \<Rightarrow> nat \<Rightarrow> hl list \<Rightarrow> bool" where
  "sched_at M k j w \<longleftrightarrow> length w = 16 \<and>
     (\<forall>i<16. join (w ! i) = fips_W M (16 * (if i < j then k + 1 else k) + i))"

lemma sched_at_nth:
  "sched_at M k j w \<Longrightarrow> i < 16 \<Longrightarrow> join (w ! i) = fips_W M (16 * (if i < j then k + 1 else k) + i)"
  by (simp add: sched_at_def)

lemma sched_at_step:
  assumes w: "sched_at M k j w" and j: "j < 16"
  shows "sched_at M k (Suc j) (schedule_word j w)"
proof -
  define t where "t = 16 * (k + 1) + j"
  have "\<not> t < 16" by (simp add: t_def)
  have m: "join (w ! ((j + d) mod 16)) = fips_W M (t - (16 - d))" if "d \<le> 15" for d
  proof (cases "j + d < 16")
    case True
    then have "join (w ! ((j + d) mod 16)) = fips_W M (16 * k + (j + d))" if "0 < d"
      using sched_at_nth [OF w, of "j + d"] that by simp
    moreover have "join (w ! (j mod 16)) = fips_W M (16 * k + j)"
      using sched_at_nth [OF w j] j by simp
    ultimately show ?thesis using True that by (cases "d = 0") (auto simp: t_def)
  next
    case False
    then have "(j + d) mod 16 = j + d - 16" using j that by (simp add: mod_if)
    moreover have "j + d - 16 < j" using that False by simp
    moreover have "16 * (k + 1) + (j + d - 16) = t - (16 - d)" using False that by (simp add: t_def)
    ultimately show ?thesis using sched_at_nth [OF w, of "j + d - 16"] j by simp
  qed
  have "join (hl_sum (w ! j)
       [w ! ((j + 9) mod 16), sigma0 (w ! ((j + 1) mod 16)), sigma1 (w ! ((j + 14) mod 16))])
      = fips_W M t"
    using m [of 0] m [of 9] m [of 1] m [of 14] j \<open>\<not> t < 16\<close>
    by (simp add: join_hl_sum join_sigma0 join_sigma1 fips_W.simps [of M t] Let_def ac_simps)
  then show ?thesis
    using w j by (auto simp: sched_at_def schedule_word_def nth_list_update t_def less_Suc_eq)
qed

lemma sched_at_fold:
  "n \<le> 16 \<Longrightarrow> sched_at M k 0 w \<Longrightarrow> sched_at M k n (fold schedule_word [0..<n] w)"
  by (induction n) (simp_all add: sched_at_step)

lemma sched_at_schedule: "sched_at M k 0 w \<Longrightarrow> sched_at M (k + 1) 0 (schedule w)"
  using sched_at_fold [of 16 M k w] by (simp add: schedule_def sched_at_def)

lemma join_round:
  assumes i: "i < 80" and w: "sched_at M (i div 16) 0 w" and a: "length a = 8"
    and r: "sha512_round i (a, w) = (a', w')"
  shows "map join a' = fips_round M i (map join a)" "length a' = 8" "sched_at M (Suc i div 16) 0 w'"
proof -
  have wi: "join (w ! (i mod 16)) = fips_W M i"
    using sched_at_nth [OF w, of "i mod 16"] by simp
  show "map join a' = fips_round M i (map join a)"
    using r a by (auto simp: sha512_round_def fips_round_def Let_def join_hl_sum join_Sigma0 join_Sigma1
        join_Ch join_Maj wi fips_K_nth [OF i] ac_simps)
  show "length a' = 8" using r by (auto simp: sha512_round_def Let_def)
  show "sched_at M (Suc i div 16) 0 w'"
    using r w sched_at_schedule [OF w] by (auto simp: sha512_round_def Let_def div_Suc mod_Suc split: if_splits)
qed


lemma byte_of: "8 * k \<le> n \<Longrightarrow> n < 8 * k + 8 \<Longrightarrow> n div 8 = k \<and> n mod 8 = n - 8 * k" for n :: nat
  by (simp add: div_nat_eqI modulo_nat_def)

lemma load32_be_eq: "j + 4 \<le> length m \<Longrightarrow> load32_be m j = word_rcat (take 4 (drop j m))"
proof (rule bit_word_eqI)
  fix n assume m: "j + 4 \<le> length m" and n: "n < LENGTH(32)"
  then consider "n < 8" | "8 \<le> n" "n < 16" | "16 \<le> n" "n < 24" | "24 \<le> n" "n < 32" by fastforce
  then show "bit (load32_be m j) n = bit (word_rcat (take 4 (drop j m)) :: 32 word) n"
  proof cases
    case 1
    with m show ?thesis using byte_of [of 0 n]
      by (auto simp: bit_word_rcat load32_be_def bit_or_iff bit_push_bit_iff bit_ucast_iff u8_def)
  next
    case 2
    with m show ?thesis using byte_of [of 1 n] bit_imp_le_length [of "m ! (j + 3)" n]
      by (auto simp: bit_word_rcat load32_be_def bit_or_iff bit_push_bit_iff bit_ucast_iff u8_def)
  next
    case 3
    with m show ?thesis using byte_of [of 2 n] bit_imp_le_length [of "m ! (j + 3)" n] bit_imp_le_length [of "m ! (j + 2)" "n - 8"]
      by (auto simp: bit_word_rcat load32_be_def bit_or_iff bit_push_bit_iff bit_ucast_iff u8_def)
  next
    case 4
    with m show ?thesis
      using byte_of [of 3 n] bit_imp_le_length [of "m ! (j + 3)" n] bit_imp_le_length [of "m ! (j + 2)" "n - 8"]
        bit_imp_le_length [of "m ! (j + 1)" "n - 16"]
      by (auto simp: bit_word_rcat load32_be_def bit_or_iff bit_push_bit_iff bit_ucast_iff u8_def)
  qed
qed

lemma join_load:
  assumes "j + 8 \<le> length m"
  shows "join (load32_be m j, load32_be m (j + 4)) = word_rcat (take 8 (drop j m))"
proof (rule word64_eqI)
  fix n :: nat assume n: "n < 64"
  have l: "length (take 8 (drop j m)) = 8" using assms by simp
  have rcat: "bit (word_rcat (take 8 (drop j m)) :: 64 word) n \<longleftrightarrow> bit (take 8 (drop j m) ! (7 - n div 8)) (n mod 8)"
  proof -
    have "n div 8 < 8" using n by simp
    then show ?thesis unfolding bit_word_rcat l using n by simp
  qed
  show "bit (join (load32_be m j, load32_be m (j + 4))) n = bit (word_rcat (take 8 (drop j m)) :: 64 word) n"
  proof (cases "n < 32")
    case True
    have q: "take 4 (drop (j + 4) m) ! (3 - n div 8) = take 8 (drop j m) ! (7 - n div 8)"
      using True assms by (simp add: add.commute)
    have "n div 8 < 4" using True by simp
    then have "bit (load32_be m (j + 4)) n \<longleftrightarrow> bit (take 4 (drop (j + 4) m) ! (3 - n div 8)) (n mod 8)"
      using True assms by (simp add: load32_be_eq bit_word_rcat)
    then show ?thesis using True n by (simp only: bit_join if_True rcat q)
  next
    case False
    then obtain i where i: "n = i + 32" by (metis add.commute le_Suc_ex not_less)
    have d: "(i + 32) div 8 = i div 8 + 4" "(i + 32) mod 8 = i mod 8" by presburger+
    have q: "take 4 (drop j m) ! (3 - i div 8) = take 8 (drop j m) ! (7 - (i div 8 + 4))"
      using n i assms by simp
    have "i div 8 < 4" using n i by simp
    then have "bit (load32_be m j) i \<longleftrightarrow> bit (take 4 (drop j m) ! (3 - i div 8)) (i mod 8)"
      using n i assms by (simp add: load32_be_eq bit_word_rcat)
    then show ?thesis using n False unfolding rcat by (simp add: bit_join i d q)
  qed
qed

lemma sched_at_start: "length m = 128 \<Longrightarrow> sched_at (block_words m) 0 0
    (map (\<lambda>i. (load32_be m (8 * i), load32_be m (8 * i + 4))) [0..<16])"
  by (simp add: sched_at_def fips_W.simps block_words_def join_load)

lemma join_rounds:
  assumes "sched_at M 0 0 w" "length a = 8" "fold sha512_round [0..<n] (a, w) = (a', w')" "n \<le> 80"
  shows "map join a' = fold (fips_round M) [0..<n] (map join a) \<and> length a' = 8
    \<and> sched_at M (n div 16) 0 w'"
  using assms(3,4)
proof (induction n arbitrary: a' w')
  case 0
  then show ?case using assms by simp
next
  case (Suc n)
  obtain x v where xv: "fold sha512_round [0..<n] (a, w) = (x, v)" by fastforce
  with Suc.prems have r: "sha512_round n (x, v) = (a', w')" by simp
  from Suc.IH [OF xv] join_round [where M = M, OF _ _ _ r] Suc.prems(2) show ?case by simp
qed

lemma join_sha512_block:
  assumes "length hs = 8" "length m = 128"
  shows "map join (sha512_block m hs) = fips_block (block_words m) (map join hs)"
    "length (sha512_block m hs) = 8"
proof -
  let ?w = "map (\<lambda>i. (load32_be m (8 * i), load32_be m (8 * i + 4))) [0..<16]"
  obtain a' w' where f: "fold sha512_round [0..<80] (hs, ?w) = (a', w')" by fastforce
  have b: "sha512_block m hs = map2 (\<lambda>x y. hl_sum x [y]) a' hs"
    by (simp add: sha512_block_def Let_def f del: upt_Suc)
  have j: "map join a' = fold (fips_round (block_words m)) [0..<80] (map join hs)" "length a' = 8"
    using join_rounds [OF sched_at_start [OF assms(2)] assms(1) f] by simp_all
  have "map join (map2 (\<lambda>x y. hl_sum x [y]) a' hs) = map2 (+) (map join a') (map join hs)"
    by (simp add: join_hl_sum zip_map_map comp_def split_def)
  then show "map join (sha512_block m hs) = fips_block (block_words m) (map join hs)"
    by (simp only: b fips_block_def j(1))
  show "length (sha512_block m hs) = 8" using j(2) assms by (simp add: b)
qed

interpretation sha512: block_fold 128 sha512_block crypto_hashblocks_hl
proof
  fix m s
  show "crypto_hashblocks_hl m s =
    (if 128 \<le> length m then crypto_hashblocks_hl (drop 128 m) (sha512_block (take 128 m) s) else s)"
    by (rule crypto_hashblocks_hl.simps)
qed simp

lemma join_hashblocks:
  "length hs = 8 \<Longrightarrow> map join (crypto_hashblocks_hl m hs) = fips_blocks m (map join hs)
    \<and> length (crypto_hashblocks_hl m hs) = 8"
proof (induction m hs rule: crypto_hashblocks_hl.induct)
  case (1 m hs)
  show ?case
  proof (cases "128 \<le> length m")
    case True
    then show ?thesis
      using 1 join_sha512_block [OF "1.prems", of "take 128 m"]
      by (simp add: crypto_hashblocks_hl.simps [of m hs] fips_blocks.simps [of m "map join hs"])
  qed (simp add: crypto_hashblocks_hl.simps [of m hs] fips_blocks.simps [of m "map join hs"] "1.prems")
qed

lemma ts64_be64: "ts64 x = be64 (join x)"
proof -
  have hi: "ucast (drop_bit (n + 32) (join (h, l))) = (ucast (drop_bit n h) :: 8 word)" if "n \<le> 24" for n h l
    by (rule bit_word_eqI) (use that in \<open>auto simp: bit_simps bit_join\<close>)
  have lo: "ucast (drop_bit n (join (h, l))) = (ucast (drop_bit n l) :: 8 word)" if "n \<le> 24" for n h l
    by (rule bit_word_eqI) (use that in \<open>auto simp: bit_simps bit_join\<close>)
  show ?thesis
    by (cases x) (use hi [of 24] hi [of 16] hi [of 8] hi [of 0] lo [of 24] lo [of 16] lo [of 8] lo [of 0]
        in \<open>simp add: ts64_def be64_def upt_rec\<close>)
qed

lemma join_length: "join (word_of_nat (b div 0x20000000), push_bit 3 (word_of_nat b)) = word_of_nat (8 * b)"
proof (rule word64_eqI)
  fix n :: nat
  assume n: "n < 64"
  have e: "bit (8 * b) n \<longleftrightarrow> 3 \<le> n \<and> bit b (n - 3)"
    using bit_push_bit_iff [of 3 b n] by (simp add: push_bit_eq_mult mult.commute)
  have h: "bit (b div 0x20000000) (n - 32) \<longleftrightarrow> bit b (n - 3)" if "32 \<le> n"
    using bit_drop_bit_eq [of 29 b] that by (simp add: drop_bit_eq_div fun_eq_iff)
  have w: "bit (word_of_nat (8 * b) :: 64 word) n \<longleftrightarrow> 3 \<le> n \<and> bit b (n - 3)"
    using n by (simp only: bit_of_nat_iff e) simp
  show "bit (join (word_of_nat (b div 0x20000000), push_bit 3 (word_of_nat b))) n
      = bit (word_of_nat (8 * b) :: 64 word) n"
    unfolding w using n h by (cases "n < 32") (auto simp: bit_join bit_of_nat_iff bit_push_bit_iff)
qed

lemma length_ts64 [simp]: "length (ts64 x) = 8"
  by (cases x) (simp add: ts64_def)

lemma sha512_last_eq: "r = tail 128 m \<Longrightarrow> sha512_last r (length m) = r @ fips_pad (length m)"
proof -
  assume r: "r = tail 128 m"
  then have l: "length r = length m mod 128" by (simp add: sha512.length_tail)
  define k where "k = length m mod 128"
  have "k < 128" by (simp add: k_def)
  then have "(if k < 112 then 128 else 256) - 9 - k = (239 - k) mod 128 + 8"
    by (auto simp: mod_if)
  then have "replicate ((if k < 112 then 128 else 256) - 9 - k) (0 :: 8 word)
      = replicate ((239 - k) mod 128) 0 @ replicate 8 0"
    by (simp only: replicate_add)
  then show ?thesis
    by (simp only: sha512_last_def fips_pad_def Let_def l ts64_be64 join_length append.assoc flip: k_def)
qed

lemma concat_ts64: "concat (map ts64 hs) = concat (map be64 (map join hs))"
proof -
  have "ts64 = be64 \<circ> join" by (simp add: fun_eq_iff ts64_be64)
  then show ?thesis by simp
qed

lemma length_concat_ts64: "length (concat (map ts64 hs)) = 8 * length hs"
  by (induction hs) simp_all

lemma length_sha512_init [simp]: "length sha512_init = 8"
  by (simp add: sha512_init_def)

lemma hashblocks_last:
  "concat (map ts64 (crypto_hashblocks_hl (sha512_last (tail 128 m) (length m)) (crypto_hashblocks_hl m sha512_init)))
    = sha512_spec m"
  by (simp add: sha512_last_eq sha512.blocks_tail_append concat_ts64 join_hashblocks sha512_spec_def join_tables)

lemma crypto_hash_eq: "crypto_hash m = sha512_spec m"
  using hashblocks_last [of m] by (simp add: crypto_hash_def Let_def tail_def)

lemma length_sha512_spec [simp]: "length (sha512_spec m) = 64"
  using hashblocks_last [of m, symmetric]
    length_concat_ts64 [of "crypto_hashblocks_hl (sha512_last (tail 128 m) (length m)) (crypto_hashblocks_hl m sha512_init)"]
  by (simp add: join_hashblocks)

text \<open>The incremental hash: what the state holds after absorbing \<open>d\<close>.\<close>

definition hs_absorbed :: "HashState \<Rightarrow> bytes \<Rightarrow> bool" where
  "hs_absorbed s d \<longleftrightarrow> hs_state s = crypto_hashblocks_hl d sha512_init \<and> hs_p s = length (tail 128 d)
     \<and> take (hs_p s) (hs_next s) = tail 128 d \<and> length (hs_next s) = 128"

lemma hs_update_loop_absorbed:
  "hs_absorbed s d \<Longrightarrow> hs_absorbed (hs_update_loop data s) (d @ data)
    \<and> hs_total (hs_update_loop data s) = hs_total s"
proof (induction data s arbitrary: d rule: hs_update_loop.induct)
  case (1 data s)
  let ?r = "128 - hs_p s"
  have p: "hs_p s < 128" "hs_p s = length (tail 128 d)" "take (hs_p s) (hs_next s) = tail 128 d"
      "length (hs_next s) = 128" "hs_state s = crypto_hashblocks_hl d sha512_init"
    using "1.prems" sha512.length_tail_less [of d] by (auto simp: hs_absorbed_def)
  consider "data = []" | "data \<noteq> []" "length data < ?r" | "data \<noteq> []" "\<not> length data < ?r"
    by blast
  then show ?case
  proof cases
    case 1
    then show ?thesis using "1.prems" by (simp add: hs_update_loop.simps [of "[]" s])
  next
    case 2
    then have "length (tail 128 d) + length data < 128" using p by simp
    then show ?thesis
      using 2 p sha512.tail_append_short [of d data] sha512.blocks_append_short [of d data]
      by (simp add: hs_update_loop.simps [of data s] hs_absorbed_def hs_put_def)
  next
    case 3
    define s1 where "s1 = hs_put (take ?r data) s"
    define s2 where "s2 = s1\<lparr>hs_state := crypto_hashblocks_hl (hs_next s1) (hs_state s1), hs_p := 0\<rparr>"
    have n: "hs_next s1 = tail 128 d @ take ?r data"
      using 3 p by (simp add: s1_def hs_put_def)
    have full: "length (tail 128 d) + length (take ?r data) = 128"
      using 3 p by simp
    have "hs_state s2 = crypto_hashblocks_hl (d @ take ?r data) sha512_init"
      using p by (simp add: s2_def n sha512.blocks_tail_append) (simp add: s1_def hs_put_def sha512.blocks_tail_append)
    then have "hs_absorbed s2 (d @ take ?r data)"
      using sha512.tail_append_full [OF full] full by (simp add: hs_absorbed_def s2_def n)
    from "1.IH" [OF 3(1) refl 3(2) s1_def this [unfolded s2_def]]
    show ?thesis
      using 3 by (simp add: hs_update_loop.simps [of data s] Let_def flip: s1_def)
       (simp add: s1_def hs_put_def)
  qed
qed


definition hs_holds :: "HashState \<Rightarrow> bytes \<Rightarrow> bool" where
  "hs_holds s d \<longleftrightarrow> hs_absorbed s d \<and> hs_total s = length d"

lemma hs_holds_update: "hs_holds s d \<Longrightarrow> hs_holds (HashState_update m s) (d @ m)"
proof -
  assume s: "hs_holds s d"
  let ?s = "s\<lparr>hs_total := hs_total s + length m\<rparr>"
  have "hs_absorbed ?s d" using s unfolding hs_holds_def hs_absorbed_def by auto
  from hs_update_loop_absorbed [OF this, of m] s show ?thesis
    unfolding hs_holds_def HashState_update_def by simp
qed

lemma hs_holds_finish: "hs_holds s d \<Longrightarrow> HashState_finish s = sha512_spec d"
  by (auto simp: hs_holds_def hs_absorbed_def HashState_finish_def hashblocks_last)

interpretation HashState: stream_hash HashState_new HashState_update HashState_finish sha512_spec hs_holds
proof
  show "hs_holds HashState_new []"
    by (simp add: hs_holds_def hs_absorbed_def HashState_new_def tail_def sha512.blocks_short)
qed (simp_all add: hs_holds_update hs_holds_finish)

lemma HashState_hash: "HashState_finish (fold HashState_update ms HashState_new) = nacl_hash (concat ms)"
  by (simp add: HashState.fin_fold nacl_hash_def crypto_hash_eq)

end
