(* ===== verification/Sha256.thy ===== *)
theory Sha256
  imports Sha512
begin

text \<open>
  SHA-256 and HMAC-SHA-256 of taler-util/src/sha256.ts: \<open>hashBlocks\<close>, the incremental
  \<open>HashSha256\<close> object (a state machine that refuses data once it is finished) and the \<open>HMAC\<close>
  object, which hashes the key once and restores the saved states on \<open>reset\<close>.
\<close>

unbundle bit_operations_syntax

section \<open>The code\<close>

definition sha256_K :: "32 word list" where
  "sha256_K = concat [
     [0x428a2f98, 0x71374491, 0xb5c0fbcf, 0xe9b5dba5, 0x3956c25b, 0x59f111f1, 0x923f82a4, 0xab1c5ed5],
     [0xd807aa98, 0x12835b01, 0x243185be, 0x550c7dc3, 0x72be5d74, 0x80deb1fe, 0x9bdc06a7, 0xc19bf174],
     [0xe49b69c1, 0xefbe4786, 0x0fc19dc6, 0x240ca1cc, 0x2de92c6f, 0x4a7484aa, 0x5cb0a9dc, 0x76f988da],
     [0x983e5152, 0xa831c66d, 0xb00327c8, 0xbf597fc7, 0xc6e00bf3, 0xd5a79147, 0x06ca6351, 0x14292967],
     [0x27b70a85, 0x2e1b2138, 0x4d2c6dfc, 0x53380d13, 0x650a7354, 0x766a0abb, 0x81c2c92e, 0x92722c85],
     [0xa2bfe8a1, 0xa81a664b, 0xc24b8b70, 0xc76c51a3, 0xd192e819, 0xd6990624, 0xf40e3585, 0x106aa070],
     [0x19a4c116, 0x1e376c08, 0x2748774c, 0x34b0bcb5, 0x391c0cb3, 0x4ed8aa4a, 0x5b9cca4f, 0x682e6ff3],
     [0x748f82ee, 0x78a5636f, 0x84c87814, 0x8cc70208, 0x90befffa, 0xa4506ceb, 0xbef9a3f7, 0xc67178f2]]"

definition rotr32 :: "nat \<Rightarrow> 32 word \<Rightarrow> 32 word" where
  "rotr32 n x = drop_bit n x OR push_bit (32 - n) x"

text \<open>\<open>w[i]\<close>, from the first 16 words on.\<close>

definition sha256_extend :: "nat \<Rightarrow> 32 word list \<Rightarrow> 32 word list" where
  "sha256_extend i w =
     (let u = w ! (i - 2); t1 = rotr32 17 u XOR rotr32 19 u XOR drop_bit 10 u;
          u = w ! (i - 15); t2 = rotr32 7 u XOR rotr32 18 u XOR drop_bit 3 u
      in w @ [(t1 + w ! (i - 7)) + (t2 + w ! (i - 16))])"

definition sha256_round :: "32 word list \<Rightarrow> nat \<Rightarrow> 32 word list \<Rightarrow> 32 word list" where
  "sha256_round w i v =
     (let a = v ! 0; b = v ! 1; c = v ! 2; d = v ! 3; e = v ! 4; f = v ! 5; g = v ! 6; h = v ! 7;
          t1 = ((rotr32 6 e XOR rotr32 11 e XOR rotr32 25 e) + ((e AND f) XOR (NOT e AND g)))
                 + (h + (sha256_K ! i + w ! i));
          t2 = (rotr32 2 a XOR rotr32 13 a XOR rotr32 22 a)
                 + ((a AND b) XOR (a AND c) XOR (b AND c))
      in [t1 + t2, a, b, c, d + t1, e, f, g])"

definition sha256_block :: "bytes \<Rightarrow> 32 word list \<Rightarrow> 32 word list" where
  "sha256_block p v =
     (let w = fold sha256_extend [16..<64] (map (\<lambda>i. load32_be p (i * 4)) [0..<16])
      in map2 (+) v (fold (sha256_round w) [0..<64] v))"

fun hashBlocks :: "bytes \<Rightarrow> 32 word list \<Rightarrow> 32 word list" where
  "hashBlocks p v = (if 64 \<le> length p then hashBlocks (drop 64 p) (sha256_block (take 64 p) v) else v)"

declare hashBlocks.simps [simp del]

record HashSha256 =
  h_state :: "32 word list"
  h_buffer :: bytes
  bufferLength :: nat
  bytesHashed :: nat
  finished :: bool

definition sha256_init :: "32 word list" where
  "sha256_init = [0x6a09e667, 0xbb67ae85, 0x3c6ef372, 0xa54ff53a,
                  0x510e527f, 0x9b05688c, 0x1f83d9ab, 0x5be0cd19]"

definition sha256_reset :: "HashSha256 \<Rightarrow> HashSha256" where
  "sha256_reset s = s\<lparr>h_state := sha256_init, bufferLength := 0, bytesHashed := 0, finished := False\<rparr>"

definition HashSha256_new :: HashSha256 where
  "HashSha256_new = sha256_reset
     \<lparr>h_state = replicate 8 0, h_buffer = replicate 128 0, bufferLength = 0, bytesHashed = 0,
      finished = False\<rparr>"

definition sha256_clean :: "HashSha256 \<Rightarrow> HashSha256" where
  "sha256_clean s = sha256_reset (s\<lparr>h_buffer := replicate (length (h_buffer s)) 0\<rparr>)"

text \<open>The copying loops: \<open>buffer[bufferLength++] = data[dataPos++]\<close>.\<close>

definition sha256_put :: "bytes \<Rightarrow> HashSha256 \<Rightarrow> HashSha256" where
  "sha256_put d s =
     s\<lparr>h_buffer := take (bufferLength s) (h_buffer s) @ d @ drop (bufferLength s + length d) (h_buffer s),
       bufferLength := bufferLength s + length d\<rparr>"

text \<open>Complete the buffered block; then hash the whole blocks and buffer the rest.\<close>

definition sha256_fill :: "bytes \<Rightarrow> HashSha256 \<Rightarrow> bytes \<times> HashSha256" where
  "sha256_fill data s =
     (if 0 < bufferLength s
      then let n = min (64 - bufferLength s) (length data); s = sha256_put (take n data) s
           in (drop n data,
               if bufferLength s = 64
               then s\<lparr>h_state := hashBlocks (take 64 (h_buffer s)) (h_state s), bufferLength := 0\<rparr>
               else s)
      else (data, s))"

definition sha256_update :: "bytes \<Rightarrow> HashSha256 \<Rightarrow> HashSha256 js" where
  "sha256_update data s =
     (if finished s then Inl (JsError ''SHA256: can't update because hash was finished.'')
      else
        let (data, s) = sha256_fill data (s\<lparr>bytesHashed := bytesHashed s + length data\<rparr>);
            s' = (if 64 \<le> length data then s\<lparr>h_state := hashBlocks data (h_state s)\<rparr> else s);
            rest = (if 64 \<le> length data then drop (length data - length data mod 64) data else data)
        in Inr (sha256_put rest s'))"

definition store32_be :: "32 word \<Rightarrow> bytes" where
  "store32_be x = map (\<lambda>s. ucast (drop_bit s x)) [24, 16, 8, 0]"

definition sha256_finish :: "HashSha256 \<Rightarrow> bytes \<times> HashSha256" where
  "sha256_finish s =
     (let s = (if finished s then s
               else let left = bufferLength s;
                        bitLenHi = word_of_nat (bytesHashed s div 0x20000000);
                        bitLenLo = push_bit 3 (word_of_nat (bytesHashed s));
                        padLength = (if bytesHashed s mod 64 < 56 then 64 else 128);
                        buf = take left (h_buffer s) @ [0x80] @ replicate (padLength - 8 - (left + 1)) 0
                                @ store32_be bitLenHi @ store32_be bitLenLo @ drop padLength (h_buffer s)
                    in s\<lparr>h_buffer := buf, h_state := hashBlocks (take padLength buf) (h_state s),
                         finished := True\<rparr>)
      in (concat (map store32_be (h_state s)), s))"

definition sha256 :: "bytes \<Rightarrow> bytes js" where
  "sha256 data = js_bind (sha256_update data HashSha256_new) (\<lambda>h. Inr (fst (sha256_finish h)))"

definition saveState :: "HashSha256 \<Rightarrow> 32 word list" where
  "saveState s = h_state s"

definition restoreState :: "32 word list \<Rightarrow> nat \<Rightarrow> HashSha256 \<Rightarrow> HashSha256" where
  "restoreState v n s = s\<lparr>h_state := v, bytesHashed := n, finished := False, bufferLength := 0\<rparr>"

record HMAC =
  inner :: HashSha256
  outer :: HashSha256
  istate :: "32 word list"
  ostate :: "32 word list"

definition HMAC_new :: "bytes \<Rightarrow> HMAC js" where
  "HMAC_new key =
     js_bind (if 64 < length key
              then js_bind (sha256 key) (\<lambda>d. Inr (d @ replicate (64 - length d) 0))
              else Inr (key @ replicate (64 - length key) 0)) (\<lambda>pad.
     let pad = map (\<lambda>b. b XOR 0x36) pad
     in js_bind (sha256_update pad HashSha256_new) (\<lambda>inn.
        let pad = map (\<lambda>b. b XOR (0x36 XOR 0x5c)) pad
        in js_bind (sha256_update pad HashSha256_new) (\<lambda>out.
           Inr \<lparr>inner = inn, outer = out, istate = saveState inn, ostate = saveState out\<rparr>)))"

definition HMAC_reset :: "HMAC \<Rightarrow> HMAC" where
  "HMAC_reset h = h\<lparr>inner := restoreState (istate h) 64 (inner h),
                    outer := restoreState (ostate h) 64 (outer h)\<rparr>"

definition HMAC_clean :: "HMAC \<Rightarrow> HMAC" where
  "HMAC_clean h = h\<lparr>istate := replicate (length (istate h)) 0, ostate := replicate (length (istate h)) 0,
                    inner := sha256_clean (inner h), outer := sha256_clean (outer h)\<rparr>"

definition HMAC_update :: "bytes \<Rightarrow> HMAC \<Rightarrow> HMAC js" where
  "HMAC_update data h = js_bind (sha256_update data (inner h)) (\<lambda>i. Inr (h\<lparr>inner := i\<rparr>))"

definition HMAC_finish :: "HMAC \<Rightarrow> (bytes \<times> HMAC) js" where
  "HMAC_finish h =
     (if finished (outer h)
      then let (out, o') = sha256_finish (outer h) in Inr (out, h\<lparr>outer := o'\<rparr>)
      else let (out, i') = sha256_finish (inner h)
           in js_bind (sha256_update (take 32 out) (outer h)) (\<lambda>o1.
              let (out, o') = sha256_finish o1 in Inr (out, h\<lparr>inner := i', outer := o'\<rparr>)))"

definition sha256_hmac :: "bytes \<Rightarrow> bytes \<Rightarrow> bytes js" where
  "sha256_hmac key data =
     js_bind (HMAC_new key) (\<lambda>h. js_bind (HMAC_update data h) (\<lambda>h.
       js_bind (HMAC_finish h) (\<lambda>(out, _). Inr out)))"

section \<open>The standard, and what the objects hold\<close>

lemma sha256_K_roots: "map (frac_root 3 32) (take 64 primes) = map unat sha256_K"
  by (rule roots_check_eq [of _ _ _ "take 64 cube_root_parts"])
    (simp_all add: primes_def sha256_K_def cube_root_parts_def root_check_def roots_check_def)

lemma sha256_init_roots: "map (frac_root 2 32) (take 8 primes) = map unat sha256_init"
  by (rule roots_check_eq [of _ _ _ square_root_parts])
    (simp_all add: primes_def sha256_init_def square_root_parts_def root_check_def roots_check_def)

lemma word_tables: "fips256_K = sha256_K" "fips256_H = sha256_init"
proof -
  have "fips256_K = map word_of_nat (map (frac_root 3 32) (take 64 primes))" "fips256_H = map word_of_nat (map (frac_root 2 32) (take 8 primes))"
    by (simp_all add: fips256_K_def fips256_H_def)
  then show "fips256_K = sha256_K" "fips256_H = sha256_init"
    by (simp_all add: sha256_K_roots sha256_init_roots comp_def)
qed

lemma rotr32_eq: "0 < n \<Longrightarrow> n < 32 \<Longrightarrow> rotr32 n x = word_rotr n x"
proof (rule bit_word_eqI)
  fix i assume "0 < n" "n < 32" "i < LENGTH(32)"
  then have "bit (rotr32 n x) i = bit x (if i + n < 32 then i + n else i + n - 32)"
    by (auto simp: rotr32_def bit_or_iff bit_drop_bit_eq bit_push_bit_iff add.commute dest: bit_imp_le_length)
  with \<open>n < 32\<close> \<open>i < LENGTH(32)\<close> show "bit (rotr32 n x) i = bit (word_rotr n x) i"
    by (simp add: bit_word_rotr_iff mod_if)
qed

lemmas rotr32_eqs = rotr32_eq [of 17] rotr32_eq [of 19] rotr32_eq [of 7] rotr32_eq [of 18] rotr32_eq [of 6]
  rotr32_eq [of 11] rotr32_eq [of 25] rotr32_eq [of 2] rotr32_eq [of 13] rotr32_eq [of 22]

lemma extend_W:
  assumes "length M = 16" "16 \<le> n"
  shows "length (fold sha256_extend [16..<n] M) = n \<and>
    (\<forall>i<n. fold sha256_extend [16..<n] M ! i = fips256_W M i)"
  using assms(2)
proof (induction n rule: dec_induct)
  case base
  then show ?case by (simp add: assms(1) fips256_W.simps)
next
  case (step n)
  then show ?case
    by (auto simp: sha256_extend_def Let_def nth_append less_Suc_eq fips256_W.simps [of M n] rotr32_eqs ac_simps)
qed

lemma round_eq:
  "(\<And>i. i < 64 \<Longrightarrow> w ! i = fips256_W M i) \<Longrightarrow> i < 64 \<Longrightarrow> sha256_round w i v = fips256_round M i v"
  by (simp add: sha256_round_def fips256_round_def Let_def rotr32_eqs word_tables ac_simps)

lemma sha256_block_eq: "length p = 64 \<Longrightarrow> sha256_block p v = fips256_block p v"
proof -
  assume "length p = 64"
  then have b: "map (\<lambda>i. load32_be p (i * 4)) [0..<16] = block256_words p"
    by (simp add: block256_words_def load32_be_eq mult.commute)
  define M where "M = map (\<lambda>i. load32_be p (i * 4)) [0..<16]"
  define w where "w = fold sha256_extend [16..<64] M"
  have "w ! i = fips256_W M i" if "i < 64" for i
    using extend_W [of M 64] that by (simp add: w_def M_def)
  then have "sha256_round w i = fips256_round M i" if "i < 64" for i
    using round_eq [of w M i] that by (simp add: fun_eq_iff)
  then have "fold (sha256_round w) [0..<64] v = fold (fips256_round M) [0..<64] v"
    by (intro fold_cong) (simp_all del: upt_Suc)
  then show ?thesis
    unfolding sha256_block_def fips256_block_def Let_def b [symmetric] by (simp only: flip: M_def w_def)
qed

interpretation sha256_blocks: block_fold 64 sha256_block hashBlocks
proof
  fix m s
  show "hashBlocks m s = (if 64 \<le> length m then hashBlocks (drop 64 m) (sha256_block (take 64 m) s) else s)"
    by (rule hashBlocks.simps)
qed simp

lemma hashBlocks_eq: "hashBlocks p v = fips256_blocks p v"
proof (induction p v rule: hashBlocks.induct)
  case (1 p v)
  then show ?case
    by (simp add: hashBlocks.simps [of p v] fips256_blocks.simps [of p v] sha256_block_eq)
qed

lemma length_sha256_block: "length v = 8 \<Longrightarrow> length (sha256_block p v) = 8"
proof -
  assume v: "length v = 8"
  have "length (fold (sha256_round w) is v) = 8" for w "is"
    using v by (induction "is" rule: rev_induct) (simp_all add: sha256_round_def Let_def)
  then show ?thesis using v by (simp add: sha256_block_def Let_def)
qed

lemma length_hashBlocks: "length v = 8 \<Longrightarrow> length (hashBlocks p v) = 8"
proof (induction p v rule: hashBlocks.induct)
  case (1 p v)
  then show ?case by (simp add: hashBlocks.simps [of p v] length_sha256_block)
qed

lemma store32_be_eq: "store32_be = be32w"
  by (simp add: fun_eq_iff store32_be_def be32w_def upt_rec)

lemma length_sha256_init [simp]: "length sha256_init = 8"
  by (simp add: sha256_init_def)

lemma length_concat_store32_be: "length (concat (map store32_be xs)) = 4 * length xs"
  by (induction xs) (simp_all add: store32_be_def)

lemma length_sha256_spec [simp]: "length (sha256_spec m) = 32"
  by (simp add: sha256_spec_def length_concat_store32_be length_hashBlocks word_tables flip: hashBlocks_eq store32_be_eq)

definition sha256_holds :: "HashSha256 \<Rightarrow> bytes \<Rightarrow> bool" where
  "sha256_holds s d \<longleftrightarrow> \<not> finished s \<and> h_state s = hashBlocks d sha256_init
     \<and> bytesHashed s = length d \<and> bufferLength s = length (tail 64 d)
     \<and> take (bufferLength s) (h_buffer s) = tail 64 d \<and> length (h_buffer s) = 128"

lemma sha256_put_fields:
  "bufferLength s + length d \<le> length (h_buffer s) \<Longrightarrow>
    take (bufferLength s + length d) (h_buffer (sha256_put d s)) = take (bufferLength s) (h_buffer s) @ d
    \<and> length (h_buffer (sha256_put d s)) = length (h_buffer s)"
  by (simp add: sha256_put_def)

lemma sha256_put_simps [simp]:
  "bufferLength (sha256_put d s) = bufferLength s + length d"
  "h_state (sha256_put d s) = h_state s" "finished (sha256_put d s) = finished s"
  "bytesHashed (sha256_put d s) = bytesHashed s"
  by (simp_all add: sha256_put_def)

text \<open>The part of \<open>update\<close> after the buffer is empty or too short to be full.\<close>

lemma sha256_rest:
  assumes h: "h_state s = hashBlocks d sha256_init" "tail 64 d = []" "bufferLength s = 0"
    and l: "length (h_buffer s) = 128" "\<not> finished s" "bytesHashed s = length (d @ x)"
  shows "sha256_holds (sha256_put (tail 64 x) (s\<lparr>h_state := hashBlocks x (h_state s)\<rparr>)) (d @ x)"
proof -
  have "tail 64 (d @ x) = tail 64 x"
    using sha256_blocks.tail_append [of d x] h(2) by simp
  moreover have "hashBlocks x (h_state s) = hashBlocks (d @ x) sha256_init"
    using sha256_blocks.blocks_tail_append [of d x sha256_init] h by simp
  moreover have "length (tail 64 x) < 64" by (rule sha256_blocks.length_tail_less)
  ultimately show ?thesis
    using h l by (simp add: sha256_holds_def sha256_put_def)
qed


lemma sha256_fill_holds:
  assumes s: "sha256_holds s d" and f: "sha256_fill x (s\<lparr>bytesHashed := length d + length x\<rparr>) = (y, t)"
  shows "\<exists>e. d @ x = e @ y \<and> h_state t = hashBlocks e sha256_init \<and> bufferLength t = length (tail 64 e)
    \<and> take (bufferLength t) (h_buffer t) = tail 64 e \<and> length (h_buffer t) = 128 \<and> \<not> finished t
    \<and> bytesHashed t = length d + length x \<and> (tail 64 e = [] \<or> y = [])"
proof -
  let ?b = "bufferLength s"
  let ?s = "s\<lparr>bytesHashed := length d + length x\<rparr>"
  have b: "?b = length (tail 64 d)" "take ?b (h_buffer s) = tail 64 d" "length (h_buffer s) = 128"
      "\<not> finished s" "h_state s = hashBlocks d sha256_init" "?b < 64"
    using s sha256_blocks.length_tail_less [of d] by (auto simp: sha256_holds_def)
  consider "?b = 0" | "0 < ?b" "?b + length x < 64" | "0 < ?b" "64 \<le> ?b + length x"
    by linarith
  then show ?thesis
  proof cases
    case 1
    then have "y = x" "t = ?s" using f by (auto simp: sha256_fill_def)
    then show ?thesis using 1 b by (intro exI [of _ d]) simp
  next
    case 2
    then have "min (64 - ?b) (length x) = length x" by simp
    with 2 f have yt: "y = []" "t = sha256_put x ?s" by (auto simp: sha256_fill_def Let_def)
    have "tail 64 (d @ x) = tail 64 d @ x" "hashBlocks (d @ x) sha256_init = hashBlocks d sha256_init"
      using 2 b(1) sha256_blocks.tail_append_short sha256_blocks.blocks_append_short by auto
    then show ?thesis
      using 2 b by (intro exI [of _ "d @ x"]) (simp add: yt sha256_put_def)
  next
    case 3
    let ?x = "take (64 - ?b) x"
    have full: "length (tail 64 d) + length ?x = 64" using 3 b(1) b(6) by simp
    have h: "take 64 (h_buffer (sha256_put ?x ?s)) = tail 64 d @ ?x"
      using 3 b by (simp add: sha256_put_def)
    have m: "min (64 - ?b) (length x) = 64 - ?b" using 3 by simp
    have yt: "y = drop (64 - ?b) x"
        "t = (sha256_put ?x ?s)\<lparr>h_state := hashBlocks (tail 64 d @ ?x) (h_state s), bufferLength := 0\<rparr>"
      using f 3 m b(6) by (auto simp: sha256_fill_def Let_def h)
    show ?thesis
      using b 3 sha256_blocks.tail_append_full [OF full]
      by (intro exI [of _ "d @ ?x"])
        (simp add: yt sha256_blocks.blocks_tail_append, simp add: sha256_put_def)
  qed
qed

lemma sha256_update_holds:
  assumes "sha256_holds s d"
  shows "\<exists>t. sha256_update x s = Inr t \<and> sha256_holds t (d @ x)"
proof -
  obtain y t where f: "sha256_fill x (s\<lparr>bytesHashed := length d + length x\<rparr>) = (y, t)" by fastforce
  from sha256_fill_holds [OF assms f] obtain e where e: "d @ x = e @ y" "h_state t = hashBlocks e sha256_init"
    "bufferLength t = length (tail 64 e)" "take (bufferLength t) (h_buffer t) = tail 64 e"
    "length (h_buffer t) = 128" "\<not> finished t" "bytesHashed t = length d + length x" "tail 64 e = [] \<or> y = []"
    by blast
  have s: "\<not> finished s" "bytesHashed s = length d" using assms by (simp_all add: sha256_holds_def)
  have y: "(if 64 \<le> length y then drop (length y - length y mod 64) y else y) = tail 64 y"
      "(if 64 \<le> length y then t\<lparr>h_state := hashBlocks y (h_state t)\<rparr> else t)
        = t\<lparr>h_state := hashBlocks y (h_state t)\<rparr>"
    by (auto simp: tail_def sha256_blocks.blocks_short)
  have "sha256_update x s = Inr (sha256_put (tail 64 y) (t\<lparr>h_state := hashBlocks y (h_state t)\<rparr>))"
    using f s by (simp add: sha256_update_def y)
  moreover have "sha256_holds (sha256_put (tail 64 y) (t\<lparr>h_state := hashBlocks y (h_state t)\<rparr>)) (e @ y)"
  proof (cases "y = []")
    case True
    then show ?thesis
      using e by (auto simp: sha256_holds_def sha256_put_def tail_def sha256_blocks.blocks_short)
  next
    case False
    have "length d + length x = length e + length y"
      using arg_cong [OF e(1), of length] by simp
    with False e show ?thesis by (intro sha256_rest) auto
  qed
  ultimately show ?thesis using e(1) by auto
qed

lemma store_length: "store32_be (word_of_nat (b div 0x20000000)) @ store32_be (push_bit 3 (word_of_nat b))
    = be64 (word_of_nat (8 * b))"
  by (simp only: join_length [symmetric] ts64_be64 [symmetric]) (simp add: ts64_def store32_be_def)

lemma pad256_zeros:
  "k < 64 \<Longrightarrow> (if k < 56 then 64 else 128) - 8 - (k + 1) = (119 - k) mod (64 :: nat)"
  by (auto simp: mod_if)

definition sha256_last :: "bytes \<Rightarrow> nat \<Rightarrow> bytes" where
  "sha256_last r b =
     (let padLength = (if b mod 64 < 56 then 64 else 128)
      in r @ [0x80] @ replicate (padLength - 8 - (length r + 1)) 0
           @ store32_be (word_of_nat (b div 0x20000000)) @ store32_be (push_bit 3 (word_of_nat b)))"

lemma sha256_last_eq: "sha256_last (tail 64 d) (length d) = tail 64 d @ fips256_pad (length d)"
  using pad256_zeros [of "length d mod 64"]
  by (simp only: sha256_last_def Let_def fips256_pad_def sha256_blocks.length_tail store_length)

lemma length_sha256_last:
  "length (sha256_last (tail 64 d) (length d)) = (if length d mod 64 < 56 then 64 else 128)"
proof -
  define k where "k = length d mod 64"
  have "k < 64" by (simp add: k_def)
  then show ?thesis
    unfolding sha256_last_def Let_def length_append sha256_blocks.length_tail k_def [symmetric]
    by (simp add: store32_be_def)
qed

lemma sha256_finish_holds:
  assumes s: "sha256_holds s d"
  shows "fst (sha256_finish s) = sha256_spec d" "finished (snd (sha256_finish s))"
proof -
  let ?p = "if length d mod 64 < 56 then 64 else 128 :: nat"
  have f: "\<not> finished s" "bytesHashed s = length d" "h_state s = hashBlocks d sha256_init"
      "bufferLength s = length (tail 64 d)" "take (length (tail 64 d)) (h_buffer s) = tail 64 d"
    using s by (auto simp: sha256_holds_def)
  have "take ?p (sha256_last (tail 64 d) (length d) @ z) = sha256_last (tail 64 d) (length d)" for z
    using length_sha256_last [of d] by (simp only: take_append) simp
  moreover have "tail 64 d @ [0x80] @ replicate (?p - 8 - (length (tail 64 d) + 1)) 0
      @ store32_be (word_of_nat (length d div 0x20000000))
      @ store32_be (push_bit 3 (word_of_nat (length d))) @ z = sha256_last (tail 64 d) (length d) @ z" for z
    by (simp only: sha256_last_def Let_def append.assoc)
  ultimately have t: "take ?p (tail 64 d @ [0x80] @ replicate (?p - 8 - (length (tail 64 d) + 1)) 0
      @ store32_be (word_of_nat (length d div 0x20000000))
      @ store32_be (push_bit 3 (word_of_nat (length d))) @ z) = tail 64 d @ fips256_pad (length d)" for z
    by (simp only: sha256_last_eq)
  show "fst (sha256_finish s) = sha256_spec d"
    unfolding sha256_finish_def Let_def f(2-5) t
    using f(1) by (simp add: sha256_spec_def sha256_blocks.blocks_tail_append word_tables flip: hashBlocks_eq store32_be_eq)
  show "finished (snd (sha256_finish s))"
    by (simp add: sha256_finish_def Let_def)
qed


lemma sha256_new_holds: "sha256_holds HashSha256_new []"
  by (simp add: sha256_holds_def HashSha256_new_def sha256_reset_def tail_def sha256_blocks.blocks_short)

definition sha256_upd :: "bytes \<Rightarrow> HashSha256 \<Rightarrow> HashSha256" where
  "sha256_upd x s = (case sha256_update x s of Inr t \<Rightarrow> t | Inl _ \<Rightarrow> s)"

interpretation HashSha256: stream_hash HashSha256_new sha256_upd "\<lambda>s. fst (sha256_finish s)"
  sha256_spec sha256_holds
proof
  fix s d m
  assume "sha256_holds s d"
  then show "sha256_holds (sha256_upd m s) (d @ m)"
    using sha256_update_holds [of s d m] by (auto simp: sha256_upd_def)
qed (simp_all add: sha256_new_holds sha256_finish_holds)

lemma sha256_eq: "sha256 m = Inr (sha256_spec m)"
  using sha256_update_holds [OF sha256_new_holds, of m] by (auto simp: sha256_def sha256_finish_holds)

lemma HashSha256_fold:
  "js_bind (js_fold sha256_update ms HashSha256_new) (\<lambda>s. Inr (fst (sha256_finish s))) = sha256 (concat ms)"
proof -
  have "\<exists>t. js_fold sha256_update ms s = Inr t \<and> sha256_holds t (d @ concat ms)"
    if "sha256_holds s d" for s d
    using that
  proof (induction ms arbitrary: s d)
    case (Cons m ms)
    then obtain t where t: "sha256_update m s = Inr t" "sha256_holds t (d @ m)"
      using sha256_update_holds by blast
    from Cons.IH [OF t(2)] t(1) show ?case by simp
  qed simp
  from this [OF sha256_new_holds] show ?thesis by (auto simp: sha256_eq sha256_finish_holds)
qed

lemma sha256_update_finished:
  "sha256_update x (snd (sha256_finish s)) = Inl (JsError ''SHA256: can't update because hash was finished.'')"
proof -
  have "finished (snd (sha256_finish s))" by (simp add: sha256_finish_def Let_def)
  then show ?thesis by (simp add: sha256_update_def)
qed


section \<open>HMAC\<close>

text \<open>RFC 2104 with SHA-256.\<close>

definition hmac256_key :: "bytes \<Rightarrow> bytes" where
  "hmac256_key key = (let k = (if 64 < length key then sha256_spec key else key)
                      in k @ replicate (64 - length k) 0)"

definition hmac256_spec :: "bytes \<Rightarrow> bytes \<Rightarrow> bytes" where
  "hmac256_spec key m =
     sha256_spec (map (\<lambda>b. b XOR 0x5c) (hmac256_key key)
       @ sha256_spec (map (\<lambda>b. b XOR 0x36) (hmac256_key key) @ m))"

definition HMAC_holds :: "bytes \<Rightarrow> HMAC \<Rightarrow> bytes \<Rightarrow> bool" where
  "HMAC_holds key h m \<longleftrightarrow>
     sha256_holds (inner h) (map (\<lambda>b. b XOR 0x36) (hmac256_key key) @ m)
     \<and> sha256_holds (outer h) (map (\<lambda>b. b XOR 0x5c) (hmac256_key key))"

definition HMAC_keyed :: "bytes \<Rightarrow> HMAC \<Rightarrow> bool" where
  "HMAC_keyed key h \<longleftrightarrow> istate h = hashBlocks (map (\<lambda>b. b XOR 0x36) (hmac256_key key)) sha256_init
     \<and> ostate h = hashBlocks (map (\<lambda>b. b XOR 0x5c) (hmac256_key key)) sha256_init
     \<and> length (h_buffer (inner h)) = 128 \<and> length (h_buffer (outer h)) = 128"

lemma length_hmac256_key [simp]: "length (hmac256_key key) = 64"
  by (simp add: hmac256_key_def Let_def)

lemma HMAC_new_holds: "\<exists>h. HMAC_new key = Inr h \<and> HMAC_holds key h [] \<and> HMAC_keyed key h"
proof -
  let ?i = "map (\<lambda>b. b XOR 0x36) (hmac256_key key)"
  let ?o = "map (\<lambda>b. b XOR 0x5c) (hmac256_key key)"
  obtain i where i: "sha256_update ?i HashSha256_new = Inr i" "sha256_holds i ?i"
    using sha256_update_holds [OF sha256_new_holds, of ?i] by auto
  obtain j where j: "sha256_update ?o HashSha256_new = Inr j" "sha256_holds j ?o"
    using sha256_update_holds [OF sha256_new_holds, of ?o] by auto
  have x: "(b XOR 0x36) XOR 0x6A = b XOR 0x5c" for b :: "8 word"
    by (simp add: xor.assoc)
  have "HMAC_new key = Inr \<lparr>inner = i, outer = j, istate = saveState i, ostate = saveState j\<rparr>"
    using i(1) j(1) by (auto simp: HMAC_new_def sha256_eq hmac256_key_def Let_def comp_def x)
  with i(2) j(2) show ?thesis
    by (auto simp: HMAC_holds_def HMAC_keyed_def saveState_def sha256_holds_def)
qed

lemma HMAC_update_holds:
  "HMAC_holds key h m \<Longrightarrow> \<exists>h'. HMAC_update x h = Inr h' \<and> HMAC_holds key h' (m @ x)"
  using sha256_update_holds [of "inner h" "map (\<lambda>b. b XOR 0x36) (hmac256_key key) @ m" x]
  by (auto simp: HMAC_holds_def HMAC_update_def)

lemma HMAC_finish_holds:
  assumes "HMAC_holds key h m"
  shows "\<exists>h'. HMAC_finish h = Inr (hmac256_spec key m, h')"
proof -
  let ?d = "sha256_spec (map (\<lambda>b. b XOR 0x36) (hmac256_key key) @ m)"
  have o: "sha256_holds (outer h) (map (\<lambda>b. b XOR 0x5c) (hmac256_key key))" "\<not> finished (outer h)"
    using assms by (auto simp: HMAC_holds_def sha256_holds_def)
  have i: "fst (sha256_finish (inner h)) = ?d"
    using assms by (auto simp: HMAC_holds_def sha256_finish_holds)
  obtain t where t: "sha256_update ?d (outer h) = Inr t"
      "sha256_holds t (map (\<lambda>b. b XOR 0x5c) (hmac256_key key) @ ?d)"
    using sha256_update_holds [OF o(1)] by blast
  from sha256_finish_holds(1) [OF t(2)] i t(1) o(2) show ?thesis
    by (auto simp: HMAC_finish_def hmac256_spec_def split: prod.splits)
qed

lemma sha256_hmac_eq: "sha256_hmac key m = Inr (hmac256_spec key m)"
proof -
  obtain h where h: "HMAC_new key = Inr h" "HMAC_holds key h []"
    using HMAC_new_holds by blast
  obtain h' where h': "HMAC_update m h = Inr h'" "HMAC_holds key h' m"
    using HMAC_update_holds [OF h(2), of m] by auto
  obtain h'' where "HMAC_finish h' = Inr (hmac256_spec key m, h'')"
    using HMAC_finish_holds [OF h'(2)] by blast
  with h h' show ?thesis by (simp add: sha256_hmac_def)
qed

lemma HMAC_reset_holds: "HMAC_keyed key h \<Longrightarrow> HMAC_holds key (HMAC_reset h) []"
  by (simp add: HMAC_keyed_def HMAC_holds_def HMAC_reset_def restoreState_def sha256_holds_def tail_def)


text \<open>The keyed object can be used again: nothing of an earlier message is left after \<open>reset\<close>.\<close>

lemma sha256_finish_buffer:
  assumes "sha256_holds s d"
  shows "length (h_buffer (snd (sha256_finish s))) = 128"
proof -
  define k where "k = length d mod 64"
  have "k < 64" "bufferLength s = k" "bytesHashed s mod 64 = k" "length (h_buffer s) = 128" "\<not> finished s"
    using assms by (auto simp: k_def sha256_holds_def sha256_blocks.length_tail)
  then show ?thesis by (simp add: sha256_finish_def Let_def store32_be_def)
qed

lemma HMAC_keyed_update:
  "HMAC_keyed key h \<Longrightarrow> HMAC_holds key h m \<Longrightarrow> HMAC_update x h = Inr h' \<Longrightarrow> HMAC_keyed key h'"
  using sha256_update_holds [of "inner h" "map (\<lambda>b. b XOR 0x36) (hmac256_key key) @ m" x]
  by (auto simp: HMAC_holds_def HMAC_update_def HMAC_keyed_def sha256_holds_def)

lemma HMAC_keyed_finish:
  assumes "HMAC_keyed key h" "HMAC_holds key h m" "HMAC_finish h = Inr (out, h')"
  shows "HMAC_keyed key h'"
proof -
  let ?d = "take 32 (fst (sha256_finish (inner h)))"
  have o: "sha256_holds (outer h) (map (\<lambda>b. b XOR 0x5c) (hmac256_key key))" "\<not> finished (outer h)"
    and i: "sha256_holds (inner h) (map (\<lambda>b. b XOR 0x36) (hmac256_key key) @ m)"
    using assms(2) by (auto simp: HMAC_holds_def sha256_holds_def)
  obtain t where t: "sha256_update ?d (outer h) = Inr t"
      "sha256_holds t (map (\<lambda>b. b XOR 0x5c) (hmac256_key key) @ ?d)"
    using sha256_update_holds [OF o(1)] by blast
  have "h' = h\<lparr>inner := snd (sha256_finish (inner h)), outer := snd (sha256_finish t)\<rparr>"
    using assms(3) o(2) t(1) by (auto simp: HMAC_finish_def split: prod.splits)
  then show ?thesis
    using assms(1) sha256_finish_buffer [OF i] sha256_finish_buffer [OF t(2)] by (simp add: HMAC_keyed_def)
qed

lemma HMAC_reuse:
  assumes "HMAC_new key = Inr h" "HMAC_update a h = Inr h1" "HMAC_finish h1 = Inr (x, h2)"
  shows "js_bind (HMAC_update b (HMAC_reset h2)) (\<lambda>h. js_bind (HMAC_finish h) (\<lambda>(out, _). Inr out))
    = sha256_hmac key b"
proof -
  have h: "HMAC_holds key h []" "HMAC_keyed key h"
    using HMAC_new_holds [of key] assms(1) by auto
  have h1: "HMAC_holds key h1 a" "HMAC_keyed key h1"
    using HMAC_update_holds [OF h(1), of a] HMAC_keyed_update [OF h(2,1) assms(2)] assms(2) by auto
  have "HMAC_keyed key h2" by (rule HMAC_keyed_finish [OF h1(2,1) assms(3)])
  from HMAC_update_holds [OF HMAC_reset_holds [OF this], of b]
  obtain h3 where h3: "HMAC_update b (HMAC_reset h2) = Inr h3" "HMAC_holds key h3 b" by auto
  from HMAC_finish_holds [OF h3(2)] h3(1) show ?thesis by (auto simp: sha256_hmac_eq)
qed

end
