(* ===== verification/Kdf.thy ===== *)
theory Kdf
  imports Sha256
begin

text \<open>
  HMAC over either hash and the HKDF key derivation of taler-util/src/kdf.ts, and the proof that
  its HMAC-SHA-256 agrees with the object of sha256.ts.
\<close>

unbundle bit_operations_syntax

definition sha512 :: "bytes \<Rightarrow> bytes js" where
  "sha512 data = Inr (nacl_hash data)"

definition hmac :: "(bytes \<Rightarrow> bytes js) \<Rightarrow> nat \<Rightarrow> bytes \<Rightarrow> bytes \<Rightarrow> bytes js" where
  "hmac digest blockSize key message =
     js_bind (if blockSize < length key then digest key else Inr key) (\<lambda>key.
       let key = (if length key < blockSize then key @ replicate (blockSize - length key) 0 else key);
           ikp = map (\<lambda>i. key ! i XOR 0x36) [0..<blockSize];
           okp = map (\<lambda>i. key ! i XOR 0x5c) [0..<blockSize]
       in js_bind (digest (ikp @ message)) (\<lambda>h0. digest (okp @ h0)))"

definition hmacSha512 :: "bytes \<Rightarrow> bytes \<Rightarrow> bytes js" where
  "hmacSha512 key message = hmac sha512 128 key message"

definition hmacSha256 :: "bytes \<Rightarrow> bytes \<Rightarrow> bytes js" where
  "hmacSha256 key message = hmac sha256 64 key message"

text \<open>The expansion loop: chunk \<open>i\<close> is the HMAC of the chunk before it, \<open>info\<close> and the byte \<open>i + 1\<close>.\<close>

fun kdf_loop :: "bytes \<Rightarrow> bytes \<Rightarrow> nat list \<Rightarrow> bytes \<Rightarrow> bytes js" where
  "kdf_loop prk info [] output = Inr output"
| "kdf_loop prk info (i # is) output =
     (let buf = (if i = 0 then info else take 32 (drop ((i - 1) * 32) output) @ info) @ [word_of_nat (i + 1)]
      in js_bind (hmacSha256 prk buf) (\<lambda>chunk.
           kdf_loop prk info is
             (take (i * 32) output @ chunk @ drop (i * 32 + length chunk) output)))"

definition kdf :: "nat \<Rightarrow> bytes \<Rightarrow> bytes option \<Rightarrow> bytes option \<Rightarrow> bytes js" where
  "kdf outputLength ikm salt info =
     (let salt = (case salt of Some s \<Rightarrow> s | None \<Rightarrow> replicate 64 0)
      in js_bind (hmacSha512 salt ikm) (\<lambda>prk.
           let info = (case info of Some i \<Rightarrow> i | None \<Rightarrow> []);
               N = (outputLength + 31) div 32
           in js_bind (kdf_loop prk info [0..<N] (replicate (N * 32) 0)) (\<lambda>output.
                Inr (take outputLength output))))"

record kdf_args =
  kdf_outputLength :: nat
  kdf_ikm :: bytes
  kdf_salt :: "bytes option"
  kdf_info :: "bytes option"

definition kdfKw :: "kdf_args \<Rightarrow> bytes js" where
  "kdfKw args = kdf (kdf_outputLength args) (kdf_ikm args) (kdf_salt args) (kdf_info args)"

section \<open>What the derivation computes\<close>

lemma hmacSha256_eq: "hmacSha256 key m = Inr (hmac256_spec key m)"
proof -
  have pad: "map (\<lambda>i. f (k ! i)) [0..<64] = map f k" if "length k = 64" for f and k :: bytes
    by (rule nth_equalityI) (simp_all add: that)
  have k: "hmac256_key key = (let k = if 64 < length key then sha256_spec key else key
      in if length k < 64 then k @ replicate (64 - length k) 0 else k)"
    by (simp add: hmac256_key_def Let_def)
  have "hmac sha256 64 key m = Inr (sha256_spec (map (\<lambda>i. hmac256_key key ! i XOR 0x5c) [0..<64]
       @ sha256_spec (map (\<lambda>i. hmac256_key key ! i XOR 0x36) [0..<64] @ m)))"
    unfolding hmac_def by (cases "64 < length key") (simp_all add: sha256_eq k Let_def del: upt_Suc upt_rec)
  then show ?thesis
    using pad [of "hmac256_key key" "\<lambda>b. b XOR 0x36"] pad [of "hmac256_key key" "\<lambda>b. b XOR 0x5c"]
    by (simp only: hmacSha256_def hmac256_spec_def length_hmac256_key)
qed

theorem hmac_objects_agree: "hmacSha256 key m = sha256_hmac key m"
  by (simp add: hmacSha256_eq sha256_hmac_eq)

definition hmac512_key :: "bytes \<Rightarrow> bytes" where
  "hmac512_key key = (let k = (if 128 < length key then sha512_spec key else key)
                      in k @ replicate (128 - length k) 0)"

definition hmac512_spec :: "bytes \<Rightarrow> bytes \<Rightarrow> bytes" where
  "hmac512_spec key m =
     sha512_spec (map (\<lambda>b. b XOR 0x5c) (hmac512_key key)
       @ sha512_spec (map (\<lambda>b. b XOR 0x36) (hmac512_key key) @ m))"

lemma length_hmac512_key [simp]: "length (hmac512_key key) = 128"
  by (simp add: hmac512_key_def Let_def)

lemma length_hmac256_spec [simp]: "length (hmac256_spec key m) = 32"
  by (simp add: hmac256_spec_def)

lemma length_hmac512_spec [simp]: "length (hmac512_spec key m) = 64"
  by (simp add: hmac512_spec_def)

lemma sha512_eq: "sha512 m = Inr (sha512_spec m)"
  by (simp add: sha512_def nacl_hash_def crypto_hash_eq)

lemma hmacSha512_eq: "hmacSha512 key m = Inr (hmac512_spec key m)"
proof -
  have pad: "map (\<lambda>i. f (k ! i)) [0..<128] = map f k" if "length k = 128" for f and k :: bytes
    by (rule nth_equalityI) (simp_all add: that)
  have k: "hmac512_key key = (let k = if 128 < length key then sha512_spec key else key
      in if length k < 128 then k @ replicate (128 - length k) 0 else k)"
    by (simp add: hmac512_key_def Let_def)
  have "hmac sha512 128 key m = Inr (sha512_spec (map (\<lambda>i. hmac512_key key ! i XOR 0x5c) [0..<128]
       @ sha512_spec (map (\<lambda>i. hmac512_key key ! i XOR 0x36) [0..<128] @ m)))"
    unfolding hmac_def by (cases "128 < length key") (simp_all add: sha512_eq k Let_def del: upt_Suc upt_rec)
  then show ?thesis
    using pad [of "hmac512_key key" "\<lambda>b. b XOR 0x36"] pad [of "hmac512_key key" "\<lambda>b. b XOR 0x5c"]
    by (simp only: hmacSha512_def hmac512_spec_def length_hmac512_key)
qed

text \<open>RFC 5869: \<open>T(i)\<close>, and the output as the first bytes of \<open>T(1) T(2) ...\<close>.\<close>

fun hkdf_T :: "bytes \<Rightarrow> bytes \<Rightarrow> nat \<Rightarrow> bytes" where
  "hkdf_T prk info 0 = []"
| "hkdf_T prk info (Suc i) = hmac256_spec prk (hkdf_T prk info i @ info @ [word_of_nat (Suc i)])"

definition hkdf_stream :: "bytes \<Rightarrow> bytes \<Rightarrow> nat \<Rightarrow> bytes" where
  "hkdf_stream prk info n = concat (map (hkdf_T prk info) [1..<Suc n])"

lemma length_hkdf_stream [simp]: "length (hkdf_stream prk info n) = n * 32"
  by (induction n) (simp_all add: hkdf_stream_def)

lemma hkdf_stream_Suc: "hkdf_stream prk info (Suc n) = hkdf_stream prk info n @ hkdf_T prk info (Suc n)"
  by (simp add: hkdf_stream_def)

lemma hkdf_T_last: "take 32 (drop ((n - 1) * 32) (hkdf_stream prk info n @ z)) = hkdf_T prk info n"
  if "0 < n"
  using that by (cases n) (simp_all add: hkdf_stream_Suc)

lemma kdf_loop_eq:
  "i \<le> n \<Longrightarrow> kdf_loop prk info [i..<n] (hkdf_stream prk info i @ replicate ((n - i) * 32) 0)
    = Inr (hkdf_stream prk info n)"
proof (induction "n - i" arbitrary: i)
  case (Suc k)
  then have i: "i < n" "k = n - Suc i" by simp_all
  have buf: "(if i = 0 then info
      else take 32 (drop ((i - 1) * 32) (hkdf_stream prk info i @ replicate ((n - i) * 32) 0)) @ info)
      @ [word_of_nat (i + 1)] = hkdf_T prk info i @ info @ [word_of_nat (Suc i)]"
    using hkdf_T_last [of i prk info "replicate ((n - i) * 32) 0"]
    by (cases "i = 0") (simp_all del: drop_append take_append)
  have parts: "drop (i * 32 + 32) (hkdf_stream prk info i @ replicate ((n - i) * 32) 0)
        = replicate ((n - Suc i) * 32) 0"
      "take (i * 32) (hkdf_stream prk info i @ replicate ((n - i) * 32) 0) = hkdf_stream prk info i"
    using i by (simp_all add: diff_mult_distrib algebra_simps)
  have "kdf_loop prk info [i..<n] (hkdf_stream prk info i @ replicate ((n - i) * 32) 0)
      = kdf_loop prk info [Suc i..<n] (hkdf_stream prk info (Suc i) @ replicate ((n - Suc i) * 32) 0)"
    by (simp only: upt_conv_Cons [OF i(1)] kdf_loop.simps Let_def buf hmacSha256_eq js_bind_simps
        length_hmac256_spec parts hkdf_stream_Suc hkdf_T.simps append.assoc)
  with Suc.hyps(1) [OF i(2)] i show ?case by simp
qed simp

lemma kdf_eq:
  "kdf n k slt inf0 = Inr (take n (hkdf_stream (hmac512_spec (case slt of Some s \<Rightarrow> s | None \<Rightarrow> replicate 64 0) k)
     (case inf0 of Some i \<Rightarrow> i | None \<Rightarrow> []) ((n + 31) div 32)))"
  using kdf_loop_eq [of 0 "(n + 31) div 32"]
  by (simp add: kdf_def hmacSha512_eq Let_def hkdf_stream_def)

lemma kdf_length: "kdf n k slt inf0 = Inr b \<Longrightarrow> length b = n"
  by (auto simp: kdf_eq)

end
