(* ===== verification/LittleEndian.thy ===== *)
theory LittleEndian
  imports Nacl
begin

text \<open>
  Byte strings as numbers, least significant byte first: the number of a string, the string of a
  number, their bytes and bits.
\<close>

fun le_val :: "bytes \<Rightarrow> nat" where
  "le_val [] = 0"
| "le_val (b # bs) = unat b + 256 * le_val bs"

definition le_bytes :: "nat \<Rightarrow> nat \<Rightarrow> bytes" where
  "le_bytes k n = map (\<lambda>i. word_of_nat (n div 256 ^ i)) [0..<k]"

text \<open>Digits put a number together again.\<close>

lemma digits_sum: "(\<Sum>i<k. (n div b ^ i mod b) * b ^ i) = n mod b ^ k" for n b :: nat
proof (induction k)
  case (Suc k)
  have "n mod (b ^ k * b) = b ^ k * (n div b ^ k mod b) + n mod b ^ k" by (rule mod_mult2_eq)
  with Suc show ?case by (simp add: ac_simps)
qed simp

lemma le_val_append: "le_val (a @ b) = le_val a + 256 ^ length a * le_val b"
  by (induction a) (simp_all add: algebra_simps)

lemma le_val_less: "le_val b < 256 ^ length b"
proof (induction b)
  case (Cons x b)
  have "unat x < 256" using unsigned_less [of x] by simp
  with Cons show ?case by simp
qed simp

lemma le_val_zeros [simp]: "le_val (replicate n 0) = 0"
  by (induction n) simp_all

lemma le_val_digit: "i < length b \<Longrightarrow> le_val b div 256 ^ i mod 256 = unat (b ! i)"
proof (induction b arbitrary: i)
  case (Cons x b)
  have x: "unat x < 256" using unsigned_less [of x] by simp
  show ?case
  proof (cases i)
    case 0
    with x show ?thesis by simp
  next
    case (Suc j)
    have "(unat x + 256 * le_val b) div (256 * 256 ^ j) = le_val b div 256 ^ j"
      using x by (simp add: div_mult2_eq)
    with Suc Cons show ?thesis by simp
  qed
qed simp

lemma bit_le_val: "bit (le_val b) n \<longleftrightarrow> n div 8 < length b \<and> bit (b ! (n div 8)) (n mod 8)"
proof (cases "n div 8 < length b")
  case True
  have "bit (le_val b) n \<longleftrightarrow> bit (le_val b div 256 ^ (n div 8) mod 256) (n mod 8)"
  proof -
    have "(256 :: nat) ^ (n div 8) = 2 ^ (8 * (n div 8))" by (simp add: power_mult)
    moreover have "(256 :: nat) = 2 ^ 8" by simp
    ultimately have "le_val b div 256 ^ (n div 8) mod 256 = take_bit 8 (drop_bit (8 * (n div 8)) (le_val b))"
      by (metis drop_bit_eq_div take_bit_eq_mod)
    then show ?thesis by (simp add: bit_simps)
  qed
  with True le_val_digit [OF True] show ?thesis
    by (simp add: bit_unsigned_iff)
next
  case False
  then have "le_val b < 2 ^ n"
  proof -
    have "le_val b < 2 ^ (8 * length b)" using le_val_less [of b] by (simp add: power_mult)
    also have "\<dots> \<le> 2 ^ n" using False by (intro power_increasing) auto
    finally show ?thesis .
  qed
  then have "\<not> bit (le_val b) n"
    by (metis bit_take_bit_iff less_irrefl take_bit_nat_eq_self)
  with False show ?thesis by simp
qed

lemma not_bit_above: "(n :: nat) < 2 ^ k \<Longrightarrow> k \<le> j \<Longrightarrow> \<not> bit n j"
  by (metis bit_take_bit_iff not_less take_bit_nat_eq_self)

lemma div_mod_above: "0 < b \<Longrightarrow> (t + b * (m * c)) div b mod m = t div b mod (m :: nat)"
  by simp

lemma le_bytes_unique:
  assumes "length b = n" "le_val b = x mod 256 ^ n"
  shows "b = le_bytes n x"
proof (rule nth_equalityI)
  show "length b = length (le_bytes n x)" using assms(1) by (simp add: le_bytes_def)
  fix i assume i: "i < length b"
  have "(256 :: nat) ^ n = 256 ^ i * (256 * 256 ^ (n - Suc i))"
    using i assms(1) unfolding power_Suc [symmetric] power_add [symmetric] by simp
  moreover have "x = le_val b + 256 ^ n * (x div 256 ^ n)" using assms(2) by simp
  ultimately have "x = le_val b + 256 ^ i * (256 * (256 ^ (n - Suc i) * (x div 256 ^ n)))"
    by (simp only: mult.assoc)
  then have "x div 256 ^ i mod 256 = (le_val b + 256 ^ i * (256 * (256 ^ (n - Suc i) * (x div 256 ^ n)))) div 256 ^ i mod 256"
    by (rule arg_cong)
  then have "x div 256 ^ i mod 256 = le_val b div 256 ^ i mod 256"
    by (simp only: div_mod_above [OF zero_less_power] zero_less_numeral)
  then have "unat (word_of_nat (x div 256 ^ i) :: 8 word) = unat (b ! i)"
    using le_val_digit [OF i] by (simp add: unat_of_nat)
  then show "b ! i = le_bytes n x ! i"
    using i assms(1) by (simp add: le_bytes_def word_unat_eq_iff)
qed

end
