(* ===== verification/Field25519.thy ===== *)
theory Field25519
  imports LittleEndian
begin

text \<open>
  The field of nacl-fast.ts modulo \<open>2 ^ 255 - 19\<close>: a number is sixteen limbs in base \<open>2 ^ 16\<close>, held in
  doubles and not always reduced.  The limbs are integers here; the bounds show that every value the
  code computes stays below \<open>2 ^ 53\<close>, where doubles are exact.
\<close>

section \<open>The operations\<close>

type_synonym gf = "int list"

definition gf :: "int list \<Rightarrow> gf" where
  "gf init = map (\<lambda>i. if i < length init then init ! i else 0) [0..<16]"

text \<open>\<open>ToInt32\<close>, which the bitwise operators apply to a number.\<close>

definition int32 :: "int \<Rightarrow> int" where
  "int32 = signed_take_bit 31"

definition gf0 :: gf where "gf0 = gf []"

definition gf1 :: gf where "gf1 = gf [1]"

definition gf_121665 :: gf where "gf_121665 = gf [0xdb41, 1]"

definition car_step :: "nat \<Rightarrow> gf \<times> int \<Rightarrow> gf \<times> int" where
  "car_step i = (\<lambda>(t, c). let v = t ! i + c + 65535; c = v div 65536 in (t[i := v - c * 65536], c))"

definition car25519 :: "gf \<Rightarrow> gf" where
  "car25519 t = (let (t, c) = fold car_step [0..<16] (t, 1) in t[0 := t ! 0 + (c - 1 + 37 * (c - 1))])"

definition sel25519 :: "gf \<Rightarrow> gf \<Rightarrow> int \<Rightarrow> gf \<times> gf" where
  "sel25519 p q b =
     (let c = NOT (b - 1); t = map2 (\<lambda>x y. c AND (int32 x XOR int32 y)) p q
      in (map2 (\<lambda>x u. int32 x XOR u) p t, map2 (\<lambda>x u. int32 x XOR u) q t))"

text \<open>Subtracting the modulus limb by limb, the borrow read from bit 16 of the limb before.\<close>

definition borrow :: "int \<Rightarrow> int" where
  "borrow x = drop_bit 16 (int32 x) AND 1"

definition pack_sub_step :: "gf \<Rightarrow> nat \<Rightarrow> gf \<Rightarrow> gf" where
  "pack_sub_step t i m =
     (let m = m[i := t ! i - 0xffff - borrow (m ! (i - 1))] in m[i - 1 := int32 (m ! (i - 1)) AND 0xffff])"

definition pack_sub :: "gf \<Rightarrow> gf" where
  "pack_sub t =
     (let m = fold (pack_sub_step t) [1..<15] (gf0[0 := t ! 0 - 0xffed]);
          m = m[15 := t ! 15 - 0x7fff - borrow (m ! 14)];
          b = borrow (m ! 15);
          m = m[14 := int32 (m ! 14) AND 0xffff]
      in fst (sel25519 t m (1 - b)))"

definition pack25519 :: "gf \<Rightarrow> bytes" where
  "pack25519 n =
     (let t = car25519 (car25519 (car25519 n)); t = pack_sub (pack_sub t)
      in concat (map (\<lambda>x. [word_of_int (int32 x AND 0xff), word_of_int (drop_bit 8 (int32 x))]) t))"

definition crypto_verify_32 :: "bytes \<Rightarrow> bytes \<Rightarrow> int" where
  "crypto_verify_32 x y = vn x y 32"

definition neq25519 :: "gf \<Rightarrow> gf \<Rightarrow> int" where
  "neq25519 a b = crypto_verify_32 (pack25519 a) (pack25519 b)"

definition par25519 :: "gf \<Rightarrow> 8 word" where
  "par25519 a = u8 (pack25519 a) 0 AND 1"

definition unpack25519 :: "bytes \<Rightarrow> gf" where
  "unpack25519 n =
     (let t = map (\<lambda>i. uint (u8 n (2 * i)) + push_bit 8 (uint (u8 n (2 * i + 1)))) [0..<16]
      in t[15 := t ! 15 AND 0x7fff])"

definition A25519 :: "gf \<Rightarrow> gf \<Rightarrow> gf" where
  "A25519 a b = map2 (+) a b"

definition Z25519 :: "gf \<Rightarrow> gf \<Rightarrow> gf" where
  "Z25519 a b = map2 (-) a b"

text \<open>
  The product: row \<open>i\<close> adds \<open>a_i\<close> times every limb of \<open>b\<close> to the columns from \<open>i\<close> on, the upper columns
  come back multiplied by 38, and two carry passes reduce the limbs.
\<close>

definition M_row :: "gf \<Rightarrow> gf \<Rightarrow> nat \<Rightarrow> int list \<Rightarrow> int list" where
  "M_row a b i t = map (\<lambda>k. if i \<le> k \<and> k < i + 16 then t ! k + a ! i * b ! (k - i) else t ! k) [0..<31]"

definition M_fold :: "int list \<Rightarrow> gf" where
  "M_fold t = map (\<lambda>k. if k < 15 then t ! k + 38 * t ! (k + 16) else t ! k) [0..<16]"

definition M25519 :: "gf \<Rightarrow> gf \<Rightarrow> gf" where
  "M25519 a b = car25519 (car25519 (M_fold (fold (M_row a b) [0..<16] (replicate 31 0))))"

definition S25519 :: "gf \<Rightarrow> gf" where
  "S25519 a = M25519 a a"

definition inv_step :: "gf \<Rightarrow> nat \<Rightarrow> gf \<Rightarrow> gf" where
  "inv_step x a c = (let c = S25519 c in if a \<noteq> 2 \<and> a \<noteq> 4 then M25519 c x else c)"

definition inv25519 :: "gf \<Rightarrow> gf" where
  "inv25519 x = fold (inv_step x) (rev [0..<254]) x"

definition pow_step :: "gf \<Rightarrow> nat \<Rightarrow> gf \<Rightarrow> gf" where
  "pow_step x a c = (let c = S25519 c in if a \<noteq> 1 then M25519 c x else c)"

definition pow2523 :: "gf \<Rightarrow> gf" where
  "pow2523 x = fold (pow_step x) (rev [0..<251]) x"

section \<open>The number of limbs\<close>

definition P25519 :: int where "P25519 = 2 ^ 255 - 19"

fun fval :: "int list \<Rightarrow> int" where
  "fval [] = 0"
| "fval (x # xs) = x + 65536 * fval xs"

lemma fval_sum: "fval xs = (\<Sum>i<length xs. xs ! i * 65536 ^ i)"
proof (induction xs)
  case (Cons x xs)
  have "65536 * fval xs = (\<Sum>i<length xs. xs ! i * 65536 ^ Suc i)"
    by (simp only: Cons.IH sum_distrib_left) (simp add: ac_simps)
  then show ?case by (simp only: fval.simps length_Cons sum.lessThan_Suc_shift) simp
qed simp

lemma fval_append: "fval (xs @ ys) = fval xs + 65536 ^ length xs * fval ys"
  by (induction xs) (simp_all add: algebra_simps)

lemma fval_update: "i < length xs \<Longrightarrow> fval (xs[i := y]) = fval xs + 65536 ^ i * (y - xs ! i)"
proof (induction xs arbitrary: i)
  case (Cons x xs)
  show ?case
  proof (cases i)
    case (Suc j)
    with Cons have "fval (xs[j := y]) = fval xs + 65536 ^ j * (y - xs ! j)" by simp
    with Suc show ?thesis by (simp add: distrib_left mult.assoc)
  qed simp
qed simp

lemma fval_map2: "length a = length b \<Longrightarrow> fval (map2 (+) a b) = fval a + fval b"
  "length a = length b \<Longrightarrow> fval (map2 (-) a b) = fval a - fval b"
  by (induction a b rule: list_induct2) (simp_all add: algebra_simps)

definition digits16 :: "int list \<Rightarrow> bool" where
  "digits16 t \<longleftrightarrow> (\<forall>x\<in>set t. 0 \<le> x \<and> x < 65536)"

lemma digits16_simps [simp]: "digits16 []" "digits16 (x # xs) \<longleftrightarrow> 0 \<le> x \<and> x < 65536 \<and> digits16 xs"
  by (auto simp: digits16_def)

lemma fval_bounds: "digits16 t \<Longrightarrow> 0 \<le> fval t \<and> fval t < 65536 ^ length t"
proof (induction t)
  case (Cons x t)
  then have "0 \<le> fval t" "fval t + 1 \<le> 65536 ^ length t" by simp_all
  then have "65536 * (fval t + 1) \<le> 65536 * 65536 ^ length t" "0 \<le> fval t" by simp_all
  with Cons.prems show ?case by simp
qed simp

section \<open>Carries\<close>

fun ripple :: "int \<Rightarrow> int list \<Rightarrow> int list \<times> int" where
  "ripple k [] = ([], k)"
| "ripple k (x # xs) = (let (ys, k') = ripple ((x + k) div 65536) xs in ((x + k) mod 65536 # ys, k'))"

lemma fold_car_step:
  "fold car_step [length pre..<length pre + length xs] (pre @ xs, k + 1)
    = (pre @ fst (ripple k xs), snd (ripple k xs) + 1)"
proof (induction xs arbitrary: pre k)
  case (Cons x xs)
  let ?n = "length pre"
  have e: "x + (k + 1) + 65535 = x + k + 65536" by simp
  have v: "(x + (k + 1) + 65535) div 65536 = (x + k) div 65536 + 1"
    unfolding e by (rule div_add_self2) simp
  have m: "x + (k + 1) + 65535 - ((x + k) div 65536 + 1) * 65536 = (x + k) mod 65536"
    unfolding e by (simp add: minus_div_mult_eq_mod [symmetric] algebra_simps)
  have "car_step ?n (pre @ x # xs, k + 1) = ((pre @ [(x + k) mod 65536]) @ xs, (x + k) div 65536 + 1)"
    unfolding car_step_def Let_def prod.case nth_append_length v m list_update_length by simp
  moreover have "[?n..<?n + length (x # xs)] = ?n # [length (pre @ [y])..<length (pre @ [y]) + length xs]" for y
    by (simp add: upt_conv_Cons del: upt_Suc)
  ultimately show ?case
    using Cons.IH [of "pre @ [(x + k) mod 65536]" "(x + k) div 65536"] by (simp add: split_beta)
qed simp

lemma ripple_value:
  "fval (fst (ripple k xs)) + 65536 ^ length xs * snd (ripple k xs) = fval xs + k
    \<and> length (fst (ripple k xs)) = length xs \<and> digits16 (fst (ripple k xs))"
proof (induction k xs rule: ripple.induct)
  case (2 k x xs)
  let ?r = "ripple ((x + k) div 65536) xs"
  have IH: "fval (fst ?r) + 65536 ^ length xs * snd ?r = fval xs + (x + k) div 65536"
    "length (fst ?r) = length xs" "digits16 (fst ?r)" using "2.IH" by simp_all
  have "(x + k) mod 65536 + 65536 * (fval (fst ?r) + 65536 ^ length xs * snd ?r) = x + k + 65536 * fval xs"
    unfolding IH(1) by (simp add: algebra_simps)
  with IH(2,3) show ?case by (simp add: split_beta algebra_simps)
qed simp

lemma car25519_ripple:
  "length t = 16 \<Longrightarrow> car25519 t = (fst (ripple 0 t))[0 := fst (ripple 0 t) ! 0 + 38 * snd (ripple 0 t)]"
  using fold_car_step [of "[]" t 0] by (simp add: car25519_def Let_def)

lemma fval_car25519:
  assumes "length t = 16"
  shows "fval (car25519 t) mod P25519 = fval t mod P25519" "length (car25519 t) = 16"
proof -
  have r: "fval (fst (ripple 0 t)) + 65536 ^ 16 * snd (ripple 0 t) = fval t" "length (fst (ripple 0 t)) = 16"
    using ripple_value [of 0 t] assms by simp_all
  then have "fval (car25519 t) = fval (fst (ripple 0 t)) + 38 * snd (ripple 0 t)"
    using fval_update [of 0 "fst (ripple 0 t)"] by (simp add: car25519_ripple [OF assms])
  also have "\<dots> = fval t + P25519 * (- 2 * snd (ripple 0 t))"
    using r(1) by (simp add: P25519_def)
  finally show "fval (car25519 t) mod P25519 = fval t mod P25519" by (simp only: mod_mult_self2)
  show "length (car25519 t) = 16" using r(2) by (simp add: car25519_ripple [OF assms])
qed

lemma div_limb: "65536 * (y div 65536) \<le> y" "y < 65536 * (y div 65536) + (65536 :: int)"
proof -
  have "y = 65536 * (y div 65536) + y mod 65536" by simp
  moreover have "0 \<le> y mod 65536" "y mod 65536 < 65536" by simp_all
  ultimately show "65536 * (y div 65536) \<le> y" "y < 65536 * (y div 65536) + 65536" by linarith+
qed

lemma carry_bound: "\<bar>x\<bar> \<le> b \<Longrightarrow> \<bar>k\<bar> \<le> c \<Longrightarrow> \<bar>(x + k) div 65536\<bar> \<le> (b + c) div 65536 + (1 :: int)"
  using div_limb [of "x + k"] div_limb [of "b + c"] by linarith

lemma small_carry: "0 \<le> x \<Longrightarrow> x < 65536 \<Longrightarrow> \<bar>k\<bar> \<le> 65536 \<Longrightarrow> \<bar>(x + k) div 65536\<bar> \<le> (1 :: int)"
  using div_limb [of "x + k"] by linarith

lemma ripple_bound:
  "\<forall>x\<in>set xs. \<bar>x\<bar> \<le> b \<Longrightarrow> \<bar>k\<bar> \<le> b \<Longrightarrow> 65536 \<le> b \<Longrightarrow> xs \<noteq> [] \<Longrightarrow> \<bar>snd (ripple k xs)\<bar> \<le> 2 * b div 65536 + 1"
proof (induction k xs rule: ripple.induct)
  case (2 k x xs)
  have c: "\<bar>(x + k) div 65536\<bar> \<le> 2 * b div 65536 + 1"
    using carry_bound [of x b k b] "2.prems" by simp
  show ?case
  proof (cases "xs = []")
    case True
    with c show ?thesis by simp
  next
    case False
    have "2 * b div 65536 + 1 \<le> b" using "2.prems"(3) div_limb [of "2 * b"] by linarith
    with "2.IH" [OF _ _ "2.prems"(3) False] "2.prems" c show ?thesis by (simp add: split_beta)
  qed
qed simp

text \<open>Past a few reduced limbs the carry is at most one.\<close>

lemma ripple_digits_bound: "digits16 xs \<Longrightarrow> \<bar>k\<bar> \<le> 1 \<Longrightarrow> \<bar>snd (ripple k xs)\<bar> \<le> 1"
proof (induction k xs rule: ripple.induct)
  case (2 k x xs)
  have "\<bar>(x + k) div 65536\<bar> \<le> 1" using "2.prems" by (intro small_carry) simp_all
  with 2 show ?case by (simp add: split_beta)
qed simp

lemma second_carry:
  assumes "length t = 16" "digits16 (tl t)" "\<bar>hd t\<bar> \<le> 2 ^ 45"
  shows "\<bar>snd (ripple 0 t)\<bar> \<le> 1"
proof -
  obtain x0 x1 x2 xs where t: "t = x0 # x1 # x2 # xs"
    using assms(1) by (cases t; cases "tl t"; cases "tl (tl t)") auto
  have d: "0 \<le> x1" "x1 < 65536" "0 \<le> x2" "x2 < 65536" "digits16 xs" "\<bar>x0\<bar> \<le> 2 ^ 45"
    using assms(2,3) by (simp_all add: t)
  let ?k0 = "x0 div 65536" let ?k1 = "(x1 + ?k0) div 65536" let ?k2 = "(x2 + ?k1) div 65536"
  have k0: "\<bar>?k0\<bar> \<le> 536870913" using carry_bound [of x0 "2 ^ 45" 0 0] d(6) by simp
  have k1: "\<bar>?k1\<bar> \<le> 8194" using carry_bound [of x1 65535 ?k0 536870913] k0 d(1,2) by simp
  have "\<bar>?k2\<bar> \<le> 1" by (rule small_carry [OF d(3,4)]) (use k1 in simp)
  then have "\<bar>snd (ripple ?k2 xs)\<bar> \<le> 1" by (rule ripple_digits_bound [OF d(5)])
  moreover have "snd (ripple 0 t) = snd (ripple ?k2 xs)"
    unfolding t ripple.simps Let_def split_beta snd_conv add_0_right ..
  ultimately show ?thesis by simp
qed

end
