(* ===== verification/FieldProduct.thy ===== *)
theory FieldProduct
  imports Field25519
begin

text \<open>
  Sums, products and powers of the field modulo \<open>2 ^ 255 - 19\<close>: the number of the result, and the
  bounds of its limbs.
\<close>

section \<open>Reduced limbs and operands\<close>

definition gf_red :: "gf \<Rightarrow> bool" where
  "gf_red a \<longleftrightarrow> length a = 16 \<and> (\<forall>x\<in>set a. - 38 \<le> x \<and> x \<le> 65573)"

definition gf_le :: "int \<Rightarrow> gf \<Rightarrow> bool" where
  "gf_le c a \<longleftrightarrow> length a = 16 \<and> (\<forall>x\<in>set a. \<bar>x\<bar> \<le> c)"

abbreviation gf_ok :: "gf \<Rightarrow> bool" where
  "gf_ok \<equiv> gf_le 262144"

lemma gf_le_mono: "gf_le c a \<Longrightarrow> c \<le> d \<Longrightarrow> gf_le d a"
  by (fastforce simp: gf_le_def)

lemma gf_red_le: "gf_red a \<Longrightarrow> gf_le 65573 a"
  by (fastforce simp: gf_red_def gf_le_def)

lemma gf_red_ok [simp]: "gf_red a \<Longrightarrow> gf_ok a"
  using gf_le_mono [OF gf_red_le] by simp

lemma abs_add_le: "\<bar>x\<bar> \<le> c \<Longrightarrow> \<bar>y\<bar> \<le> d \<Longrightarrow> \<bar>x + y\<bar> \<le> c + d \<and> \<bar>x - y\<bar> \<le> c + (d :: int)"
  by linarith

lemma A25519_value:
  assumes "gf_le c a" "gf_le d b"
  shows "fval (A25519 a b) = fval a + fval b" "gf_le (c + d) (A25519 a b)"
    "fval (Z25519 a b) = fval a - fval b" "gf_le (c + d) (Z25519 a b)"
proof -
  have l: "length a = length b" "length a = 16" using assms by (simp_all add: gf_le_def)
  show "fval (A25519 a b) = fval a + fval b" "fval (Z25519 a b) = fval a - fval b"
    unfolding A25519_def Z25519_def by (rule fval_map2 [OF l(1)])+
  have "\<bar>x + y\<bar> \<le> c + d \<and> \<bar>x - y\<bar> \<le> c + d" if "(x, y) \<in> set (zip a b)" for x y
    using abs_add_le assms set_zip_leftD [OF that] set_zip_rightD [OF that] by (auto simp: gf_le_def)
  then show "gf_le (c + d) (A25519 a b)" "gf_le (c + d) (Z25519 a b)"
    using l by (auto simp: gf_le_def A25519_def Z25519_def)
qed

lemma car25519_digits:
  assumes "length t = 16"
  shows "\<exists>x xs. car25519 t = x # xs \<and> digits16 xs \<and> \<bar>x\<bar> \<le> 65535 + 38 * \<bar>snd (ripple 0 t)\<bar>
    \<and> - 38 * \<bar>snd (ripple 0 t)\<bar> \<le> x"
proof -
  have r: "length (fst (ripple 0 t)) = 16" "digits16 (fst (ripple 0 t))"
    using ripple_value [of 0 t] assms by simp_all
  then obtain y ys where y: "fst (ripple 0 t) = y # ys" "0 \<le> y" "y < 65536" "digits16 ys"
    by (cases "fst (ripple 0 t)") auto
  then show ?thesis by (auto simp: car25519_ripple [OF assms])
qed

lemma two_cars_red:
  assumes "length t = 16" "\<forall>x\<in>set t. \<bar>x\<bar> \<le> 2 ^ 50"
  shows "gf_red (car25519 (car25519 t))"
proof -
  have "\<bar>snd (ripple 0 t)\<bar> \<le> 2 * 2 ^ 50 div 65536 + 1"
    by (rule ripple_bound) (use assms in auto)
  then have k: "\<bar>snd (ripple 0 t)\<bar> \<le> 34359738369" by simp
  obtain x xs where c: "car25519 t = x # xs" "digits16 xs" "\<bar>x\<bar> \<le> 65535 + 38 * \<bar>snd (ripple 0 t)\<bar>"
    using car25519_digits [OF assms(1)] by blast
  have l: "length (car25519 t) = 16" by (rule fval_car25519(2) [OF assms(1)])
  have k2: "\<bar>snd (ripple 0 (car25519 t))\<bar> \<le> 1"
    by (rule second_carry [OF l]) (use c k in simp_all)
  obtain z zs where d: "car25519 (car25519 t) = z # zs" "digits16 zs"
      "\<bar>z\<bar> \<le> 65535 + 38 * \<bar>snd (ripple 0 (car25519 t))\<bar>" "- 38 * \<bar>snd (ripple 0 (car25519 t))\<bar> \<le> z"
    using car25519_digits [OF l] by blast
  have "- 38 \<le> z" "z \<le> 65573" using d(3,4) k2 by linarith+
  moreover have "length (car25519 (car25519 t)) = 16" by (rule fval_car25519(2) [OF l])
  ultimately show ?thesis using d(1,2) by (auto simp: gf_red_def digits16_def)
qed

section \<open>The product\<close>

lemma length_M_row [simp]: "length (M_row a b i t) = 31"
  by (simp add: M_row_def)

lemma M_row_value:
  assumes "length b = 16" "i < 16" "length t = 31"
  shows "fval (M_row a b i t) = fval t + 65536 ^ i * (a ! i * fval b)"
proof -
  let ?f = "\<lambda>k. a ! i * b ! (k - i) * 65536 ^ k"
  have "fval (M_row a b i t) = (\<Sum>k<31. t ! k * 65536 ^ k + (if i \<le> k \<and> k < i + 16 then ?f k else 0))"
    unfolding fval_sum length_M_row by (rule sum.cong) (simp_all add: M_row_def algebra_simps)
  also have "\<dots> = fval t + (\<Sum>k<31. if i \<le> k \<and> k < i + 16 then ?f k else 0)"
    by (simp add: sum.distrib fval_sum assms(3))
  also have "(\<Sum>k<31. if i \<le> k \<and> k < i + 16 then ?f k else 0) = sum ?f {i..<i + 16}"
    using assms(2) by (intro sum.mono_neutral_cong_right) auto
  also have "\<dots> = (\<Sum>j<16. ?f (j + i))"
    using sum.shift_bounds_nat_ivl [of ?f 0 i 16] by (simp add: lessThan_atLeast0 add.commute)
  also have "\<dots> = 65536 ^ i * (a ! i * fval b)"
    by (simp add: fval_sum assms(1) sum_distrib_left power_add ac_simps)
  finally show ?thesis .
qed

lemma M_rows_value:
  assumes "length a = 16" "length b = 16" "n \<le> 16"
  shows "fval (fold (M_row a b) [0..<n] (replicate 31 0)) = fval (take n a) * fval b
    \<and> length (fold (M_row a b) [0..<n] (replicate 31 0)) = 31"
  using assms(3)
proof (induction n)
  case 0
  show ?case by (simp add: fval_sum)
next
  case (Suc n)
  have "take (Suc n) a = take n a @ [a ! n]" using Suc.prems assms(1) by (simp add: take_Suc_conv_app_nth)
  moreover have "length (take n a) = n" using Suc.prems assms(1) by simp
  ultimately show ?case
    using Suc M_row_value [OF assms(2)] by (simp add: fval_append algebra_simps)
qed

lemma M_rows_bound:
  assumes "\<forall>x\<in>set a. \<bar>x\<bar> \<le> c" "\<forall>x\<in>set b. \<bar>x\<bar> \<le> c" "length a = 16" "length b = 16" "n \<le> 16" "0 \<le> c"
  shows "\<forall>k<31. \<bar>fold (M_row a b) [0..<n] (replicate 31 0) ! k\<bar> \<le> int n * (c * c)"
  using assms(5)
proof (induction n)
  case (Suc n)
  let ?t = "fold (M_row a b) [0..<n] (replicate 31 0)"
  show ?case
  proof (intro allI impI)
    fix k :: nat assume k: "k < 31"
    have t: "\<bar>?t ! k\<bar> \<le> int n * (c * c)" using Suc k by simp
    have p: "\<bar>a ! n * b ! (k - n)\<bar> \<le> c * c" if "k < n + 16" "n \<le> k"
    proof -
      have "\<bar>a ! n\<bar> \<le> c" "\<bar>b ! (k - n)\<bar> \<le> c" using assms(1-4) Suc.prems that by simp_all
      then show ?thesis unfolding abs_mult by (intro mult_mono) (use assms(6) in simp_all)
    qed
    have "M_row a b n ?t ! k = ?t ! k + a ! n * b ! (k - n) \<or> M_row a b n ?t ! k = ?t ! k \<or> k < 31"
      using k by simp
    have "\<bar>M_row a b n ?t ! k\<bar> \<le> int n * (c * c) + c * c"
    proof (cases "n \<le> k \<and> k < n + 16")
      case True
      then have "M_row a b n ?t ! k = ?t ! k + a ! n * b ! (k - n)" using k by (simp add: M_row_def)
      with t p True show ?thesis by linarith
    next
      case False
      then have "M_row a b n ?t ! k = ?t ! k" using k by (auto simp: M_row_def)
      moreover have "0 \<le> c * c" by simp
      ultimately show ?thesis using t by linarith
    qed
    then show "\<bar>fold (M_row a b) [0..<Suc n] (replicate 31 0) ! k\<bar> \<le> int (Suc n) * (c * c)"
      by (simp add: distrib_right)
  qed
qed simp

lemma sum_split31: "sum f {..<31 :: nat} = sum f {..<16} + (\<Sum>k<15. f (k + 16))" for f :: "nat \<Rightarrow> int"
  using sum.atLeastLessThan_concat [of 0 16 31 f] sum.shift_bounds_nat_ivl [of f 0 16 15]
  by (simp add: lessThan_atLeast0)

lemma M_fold_value: "length t = 31 \<Longrightarrow> fval (M_fold t) mod P25519 = fval t mod P25519"
proof -
  assume l: "length t = 31"
  let ?h = "\<Sum>k<15. t ! (k + 16) * 65536 ^ k"
  have "fval (M_fold t) = (\<Sum>k<16. t ! k * 65536 ^ k + (if k < 15 then 38 * t ! (k + 16) * 65536 ^ k else 0))"
    unfolding fval_sum by (simp add: M_fold_def) (rule sum.cong, simp_all add: algebra_simps)
  also have "\<dots> = (\<Sum>k<16. t ! k * 65536 ^ k) + (\<Sum>k<16. if k < 15 then 38 * t ! (k + 16) * 65536 ^ k else 0)"
    by (rule sum.distrib)
  also have "(\<Sum>k<16. if k < 15 then 38 * t ! (k + 16) * 65536 ^ k else 0) = (\<Sum>k<15. 38 * t ! (k + 16) * 65536 ^ k)"
    by (rule sum.mono_neutral_cong_right) auto
  also have "\<dots> = 38 * ?h" by (simp add: sum_distrib_left mult.assoc)
  finally have f: "fval (M_fold t) = (\<Sum>k<16. t ! k * 65536 ^ k) + 38 * ?h" .
  have "fval t = (\<Sum>k<16. t ! k * 65536 ^ k) + (\<Sum>k<15. t ! (k + 16) * 65536 ^ (k + 16))"
    unfolding fval_sum l by (rule sum_split31)
  also have "(\<Sum>k<15. t ! (k + 16) * 65536 ^ (k + 16)) = 65536 ^ 16 * ?h"
    by (simp only: sum_distrib_left power_add ac_simps)
  also have "\<dots> = 38 * ?h + P25519 * (2 * ?h)" by (simp add: P25519_def)
  finally have "fval t = fval (M_fold t) + P25519 * (2 * ?h)" using f by simp
  then show ?thesis by (simp only: mod_mult_self2)
qed

lemma M25519_value:
  assumes "gf_ok a" "gf_ok b"
  shows "fval (M25519 a b) mod P25519 = fval a * fval b mod P25519" "gf_red (M25519 a b)"
proof -
  let ?t = "fold (M_row a b) [0..<16] (replicate 31 0)"
  have l: "length a = 16" "length b = 16" using assms by (simp_all add: gf_le_def)
  have t: "fval ?t = fval a * fval b" "length ?t = 31" using M_rows_value [OF l, of 16] l by simp_all
  have m: "length (M_fold ?t) = 16" by (simp add: M_fold_def)
  show "fval (M25519 a b) mod P25519 = fval a * fval b mod P25519"
    unfolding M25519_def fval_car25519(1) [OF fval_car25519(2) [OF m]] fval_car25519(1) [OF m]
      M_fold_value [OF t(2)] t(1) ..
  have "\<bar>?t ! k\<bar> \<le> 16 * (262144 * 262144)" if "k < 31" for k
    using M_rows_bound [of a 262144 b 16] assms that by (auto simp: gf_le_def)
  then have c: "\<bar>?t ! k\<bar> \<le> 1099511627776" if "k < 31" for k using that by simp
  have "\<bar>M_fold ?t ! k\<bar> \<le> 2 ^ 50" if "k < 16" for k
    using c [of k] c [of "k + 16"] that by (cases "k < 15") (simp_all add: M_fold_def)
  then show "gf_red (M25519 a b)"
    unfolding M25519_def by (intro two_cars_red m) (metis in_set_conv_nth m)
qed


lemmas M25519_mod = M25519_value(1) and M25519_red = M25519_value(2)

lemma S25519_value:
  assumes "gf_ok a"
  shows "fval (S25519 a) mod P25519 = fval a ^ 2 mod P25519" "gf_red (S25519 a)"
  using M25519_value [OF assms assms] by (simp_all add: S25519_def power2_eq_square)

section \<open>Powers\<close>

definition exponent :: "(nat \<Rightarrow> bool) \<Rightarrow> nat list \<Rightarrow> nat \<Rightarrow> nat" where
  "exponent g = fold (\<lambda>a e. if g a then 2 * e + 1 else 2 * e)"

lemma power_steps:
  assumes x: "gf_ok x" and step: "\<And>a c. f a c = (if g a then M25519 (S25519 c) x else S25519 c)"
  shows "gf_ok c \<Longrightarrow> fval c mod P25519 = fval x ^ e mod P25519 \<Longrightarrow>
    fval (fold f as c) mod P25519 = fval x ^ exponent g as e mod P25519 \<and> gf_ok (fold f as c) \<and> (as \<noteq> [] \<longrightarrow> gf_red (fold f as c))"
proof (induction as arbitrary: c e)
  case (Cons a as)
  have s: "fval (S25519 c) mod P25519 = fval x ^ (2 * e) mod P25519" "gf_red (S25519 c)"
  proof -
    have "fval c ^ 2 mod P25519 = (fval c mod P25519) ^ 2 mod P25519" by (simp only: power_mod)
    also have "\<dots> = (fval x ^ e) ^ 2 mod P25519" unfolding Cons.prems(2) by (simp only: power_mod)
    finally show "fval (S25519 c) mod P25519 = fval x ^ (2 * e) mod P25519"
      using S25519_value(1) [OF Cons.prems(1)] by (simp add: power_mult mult.commute [of 2])
    show "gf_red (S25519 c)" by (rule S25519_value(2) [OF Cons.prems(1)])
  qed
  have m: "fval (M25519 (S25519 c) x) mod P25519 = fval x ^ (2 * e + 1) mod P25519" "gf_red (M25519 (S25519 c) x)"
  proof -
    have "fval (M25519 (S25519 c) x) mod P25519 = (fval (S25519 c) mod P25519) * fval x mod P25519"
      using M25519_mod [OF gf_red_ok [OF s(2)] x] by (simp only: mod_mult_left_eq)
    also have "\<dots> = fval x ^ (2 * e) * fval x mod P25519" unfolding s(1) by (simp only: mod_mult_left_eq)
    finally show "fval (M25519 (S25519 c) x) mod P25519 = fval x ^ (2 * e + 1) mod P25519" by (simp add: mult.commute)
    show "gf_red (M25519 (S25519 c) x)" by (rule M25519_red [OF gf_red_ok [OF s(2)] x])
  qed
  define e' where "e' = (if g a then 2 * e + 1 else 2 * e)"
  have f: "gf_red (f a c)" "fval (f a c) mod P25519 = fval x ^ e' mod P25519"
    unfolding step e'_def using s m by simp_all
  have "exponent g (a # as) e = exponent g as e'" by (simp add: exponent_def e'_def)
  with Cons.IH [OF gf_red_ok [OF f(1)] f(2)] f(1) show ?case by (cases as) simp_all
qed (simp add: exponent_def)

lemma exponent_all: "\<forall>a\<in>set as. g a \<Longrightarrow> exponent g as e = 2 ^ length as * (e + 1) - 1"
proof (induction as arbitrary: e)
  case (Cons a as)
  then have "exponent g (a # as) e = exponent g as (2 * e + 1)" by (simp add: exponent_def)
  also have "\<dots> = 2 ^ length as * (2 * e + 1 + 1) - 1" using Cons by simp
  finally show ?case by simp
qed (simp add: exponent_def)

lemma exponent_append: "exponent g (as @ bs) e = exponent g bs (exponent g as e)"
  by (simp add: exponent_def)

lemma upt_split: "i \<le> j \<Longrightarrow> j \<le> k \<Longrightarrow> rev [i..<k] = rev [j..<k] @ rev [i..<j]"
  using upt_add_eq_append [of i j "k - j"] by simp

lemma exponent_inv: "exponent (\<lambda>a. a \<noteq> 2 \<and> a \<noteq> 4) (rev [0..<254]) 1 = 2 ^ 255 - 21"
proof -
  have "exponent (\<lambda>a. a \<noteq> 2 \<and> a \<noteq> 4) (rev [5..<254]) 1 = 2 ^ 249 * (1 + 1) - 1"
    by (subst exponent_all) simp_all
  moreover have "rev [0..<5] = [4, 3, 2, 1, 0 :: nat]" by code_simp
  ultimately show ?thesis
    unfolding upt_split [of 0 5 254, simplified] exponent_append by (simp add: exponent_def)
qed

lemma exponent_pow: "exponent (\<lambda>a. a \<noteq> 1) (rev [0..<251]) 1 = 2 ^ 252 - 3"
proof -
  have "exponent (\<lambda>a. a \<noteq> 1) (rev [2..<251]) 1 = 2 ^ 249 * (1 + 1) - 1"
    by (subst exponent_all) simp_all
  moreover have "rev [0..<2] = [1, 0 :: nat]" by code_simp
  ultimately show ?thesis
    unfolding upt_split [of 0 2 251, simplified] exponent_append by (simp add: exponent_def)
qed

lemma inv25519_value:
  assumes "gf_ok x"
  shows "fval (inv25519 x) mod P25519 = fval x ^ (2 ^ 255 - 21) mod P25519" "gf_red (inv25519 x)"
  using power_steps [OF assms, of "inv_step x" "\<lambda>a. a \<noteq> 2 \<and> a \<noteq> 4" x 1 "rev [0..<254]"] assms
  by (simp_all only: inv25519_def inv_step_def Let_def exponent_inv) simp_all

lemma pow2523_value:
  assumes "gf_ok x"
  shows "fval (pow2523 x) mod P25519 = fval x ^ (2 ^ 252 - 3) mod P25519" "gf_red (pow2523 x)"
  using power_steps [OF assms, of "pow_step x" "\<lambda>a. a \<noteq> 1" x 1 "rev [0..<251]"] assms
  by (simp_all only: pow2523_def pow_step_def Let_def exponent_pow) simp_all

end
