(* ===== verification/FieldPack.thy ===== *)
theory FieldPack
  imports FieldProduct
begin

text \<open>
  Bytes to limbs and back: \<open>unpack25519\<close> reads 255 bits, \<open>pack25519\<close> gives the 32 bytes of the number
  modulo \<open>2 ^ 255 - 19\<close>.
\<close>

section \<open>Unpacking\<close>

lemma fval_pairs:
  "length n = 2 * k \<Longrightarrow>
    fval (map (\<lambda>i. uint (u8 n (2 * i)) + push_bit 8 (uint (u8 n (2 * i + 1)))) [0..<k]) = int (le_val n)"
proof (induction k arbitrary: n)
  case (Suc k)
  then obtain a b r where n: "n = a # b # r" "length r = 2 * k"
    by (cases n; cases "tl n") auto
  have u: "u8 n (2 * Suc i) = u8 r (2 * i)" "u8 n (2 * Suc i + 1) = u8 r (2 * i + 1)" for i
    by (simp_all add: n u8_def)
  have "fval (map (\<lambda>i. uint (u8 n (2 * i)) + push_bit 8 (uint (u8 n (2 * i + 1)))) [0..<Suc k])
      = uint a + 256 * uint b + 65536 * fval (map (\<lambda>i. uint (u8 r (2 * i)) + push_bit 8 (uint (u8 r (2 * i + 1)))) [0..<k])"
    unfolding upt_conv_Cons [OF zero_less_Suc] map_Suc_upt [symmetric] list.map map_map comp_def u
    by (simp add: n u8_def push_bit_eq_mult)
  also have "\<dots> = int (le_val n)"
    using Suc.IH [OF n(2)] by (simp add: n)
  finally show ?case .
qed simp

lemma digits16_take: "digits16 xs \<Longrightarrow> digits16 (take k xs)"
  by (auto simp: digits16_def dest: in_set_takeD)

lemma last_limb:
  assumes "length t = 16"
  shows "t = take 15 t @ [t ! 15]"
  using take_Suc_conv_app_nth [of 15 t] assms by simp

lemma and_0x7fff: "x AND 0x7fff = x mod 2 ^ 15" for x :: int
  using take_bit_eq_mask [of 15 x] by (simp add: mask_eq_exp_minus_1 take_bit_eq_mod)

lemma mask_last_limb:
  assumes "length t = 16" "digits16 t"
  shows "fval (t[15 := t ! 15 AND 0x7fff]) = fval t mod 2 ^ 255" "digits16 (t[15 := t ! 15 AND 0x7fff])"
proof -
  have low: "0 \<le> fval (take 15 t)" "fval (take 15 t) < 65536 ^ 15"
    using fval_bounds [OF digits16_take [OF assms(2), of 15]] assms(1) by simp_all
  have v: "fval t = fval (take 15 t) + 65536 ^ 15 * t ! 15"
    using assms(1) by (subst last_limb [OF assms(1)]) (simp add: fval_append)
  have "fval t mod (65536 ^ 15 * 2 ^ 15) = 65536 ^ 15 * (fval t div 65536 ^ 15 mod 2 ^ 15) + fval t mod 65536 ^ 15"
    by (rule zmod_zmult2_eq) simp
  moreover have "fval t div 65536 ^ 15 = t ! 15" "fval t mod 65536 ^ 15 = fval (take 15 t)"
    unfolding v using low by simp_all
  ultimately have "fval t mod 2 ^ 255 = fval (take 15 t) + 65536 ^ 15 * (t ! 15 mod 2 ^ 15)" by simp
  moreover have "t[15 := t ! 15 AND 0x7fff] = take 15 t @ [t ! 15 mod 2 ^ 15]"
  proof -
    have "(take 15 t @ [t ! 15])[15 := z] = take 15 t @ [z]" for z
      using assms(1) by (simp add: list_update_append)
    then show ?thesis unfolding and_0x7fff last_limb [OF assms(1), symmetric] .
  qed
  ultimately show "fval (t[15 := t ! 15 AND 0x7fff]) = fval t mod 2 ^ 255"
    using assms(1) by (simp add: fval_append)
  have "0 \<le> t ! 15 mod 2 ^ 15" "t ! 15 mod 2 ^ 15 < 65536"
    using pos_mod_bound [of "2 ^ 15" "t ! 15"] by simp_all
  then show "digits16 (t[15 := t ! 15 AND 0x7fff])"
    using assms(2) unfolding and_0x7fff digits16_def by (metis insertE set_update_subset_insert subsetD)
qed

lemma unpack25519_value:
  assumes "length n = 32"
  shows "fval (unpack25519 n) = int (le_val n) mod 2 ^ 255" "digits16 (unpack25519 n)" "length (unpack25519 n) = 16"
proof -
  define t where "t = map (\<lambda>i. uint (u8 n (2 * i)) + push_bit 8 (uint (u8 n (2 * i + 1)))) [0..<16]"
  have un: "unpack25519 n = t[15 := t ! 15 AND 0x7fff]" by (simp only: unpack25519_def Let_def t_def)
  have b: "0 \<le> uint a + push_bit 8 (uint b) \<and> uint a + push_bit 8 (uint b) < 65536" for a b :: "8 word"
    using uint_bounded [of a] uint_bounded [of b] by (simp add: push_bit_eq_mult)
  have t: "length t = 16" "digits16 t" "fval t = int (le_val n)"
    using b fval_pairs [of n 16] assms by (auto simp: t_def digits16_def)
  show "fval (unpack25519 n) = int (le_val n) mod 2 ^ 255" "digits16 (unpack25519 n)" "length (unpack25519 n) = 16"
    unfolding un using mask_last_limb [OF t(1,2)] t(1,3) by simp_all
qed

section \<open>Packing\<close>


lemma digits_red: "digits16 t \<Longrightarrow> length t = 16 \<Longrightarrow> gf_red t"
  by (fastforce simp: digits16_def gf_red_def)

lemma fval_Cons_mod: "0 \<le> x \<Longrightarrow> x < 65536 \<Longrightarrow> (x + 65536 * y) mod 65536 = (x :: int)"
  by simp

text \<open>A carry of a number whose lowest limb alone is slightly out of range: the fold cannot go wrong.\<close>

lemma settled_car:
  assumes "length t = 16" "digits16 (tl t)" "- 32767 \<le> hd t" "hd t \<le> 98303"
  shows "digits16 (car25519 t)"
proof -
  obtain x xs where t: "t = x # xs" "length xs = 15" using assms(1) by (cases t) auto
  obtain y ys k where r: "ripple 0 t = (y # ys, k)"
    using ripple_value [of 0 t] assms(1) by (cases "ripple 0 t"; cases "fst (ripple 0 t)") auto
  have v: "fval (y # ys) + 65536 ^ 16 * k = fval t" "length ys = 15" "0 \<le> y" "y < 65536" "digits16 ys"
    using ripple_value [of 0 t] assms(1) unfolding r by simp_all
  have k: "\<bar>k\<bar> \<le> 1" using second_carry [OF assms(1,2)] assms(3,4) unfolding r by simp
  have x: "0 \<le> fval xs" "fval xs + 1 \<le> 65536 ^ 15" "- 32767 \<le> x" "x \<le> 98303"
    using fval_bounds [of xs] assms(2-4) t by simp_all
  have ys: "0 \<le> fval ys" "fval ys + 1 \<le> 65536 ^ 15"
    using fval_bounds [OF v(5)] v(2) by simp_all
  have "0 \<le> y + 38 * k \<and> y + 38 * k < 65536"
  proof -
    consider "k = 0" | "k = 1" | "k = - 1" using k by linarith
    then show ?thesis
    proof cases
      case 1
      then show ?thesis using v(3,4) by simp
    next
      case 2
      have "y + 65536 * fval ys \<le> 32767" using v(1) x unfolding 2 t by simp
      then show ?thesis using v(3) ys(1) 2 by simp
    next
      case 3
      have "65536 ^ 16 - 32767 \<le> y + 65536 * fval ys" using v(1) x unfolding 3 t by simp
      moreover have "65536 * fval ys + 65536 \<le> 65536 ^ 16" using ys(2) by simp
      ultimately show ?thesis using v(4) 3 by simp
    qed
  qed
  then show ?thesis using v(5) unfolding car25519_ripple [OF assms(1)] r by simp
qed

lemma ripple_digits: "digits16 t \<Longrightarrow> ripple 0 t = (t, 0)"
  by (induction t) simp_all

lemma car_digits: "digits16 t \<Longrightarrow> length t = 16 \<Longrightarrow> car25519 t = t"
  by (cases t) (simp_all add: car25519_ripple ripple_digits)

lemma three_cars:
  assumes "gf_ok t"
  shows "digits16 (car25519 (car25519 (car25519 t)))" "length (car25519 (car25519 (car25519 t))) = 16"
    "fval (car25519 (car25519 (car25519 t))) mod P25519 = fval t mod P25519"
proof -
  have l: "length t = 16" using assms by (simp add: gf_le_def)
  have "\<bar>snd (ripple 0 t)\<bar> \<le> 2 * 262144 div 65536 + 1"
    by (rule ripple_bound) (use assms l in \<open>auto simp: gf_le_def\<close>)
  then have k: "\<bar>snd (ripple 0 t)\<bar> \<le> 9" by simp
  obtain x xs where c: "car25519 t = x # xs" "digits16 xs" "\<bar>x\<bar> \<le> 65535 + 38 * \<bar>snd (ripple 0 t)\<bar>"
      "- 38 * \<bar>snd (ripple 0 t)\<bar> \<le> x"
    using car25519_digits [OF l] by blast
  note l1 = fval_car25519(2) [OF l] note l2 = fval_car25519(2) [OF l1]
  have d: "digits16 (car25519 (car25519 t))"
    by (rule settled_car [OF l1]) (use c k in simp_all)
  then show "digits16 (car25519 (car25519 (car25519 t)))" by (simp add: car_digits l2)
  show "length (car25519 (car25519 (car25519 t))) = 16" by (rule fval_car25519(2) [OF l2])
  show "fval (car25519 (car25519 (car25519 t))) mod P25519 = fval t mod P25519"
    unfolding fval_car25519(1) [OF l2] fval_car25519(1) [OF l1] fval_car25519(1) [OF l] ..
qed

section \<open>Subtracting the modulus\<close>

lemma int32_id: "- 2147483648 \<le> x \<Longrightarrow> x < 2147483648 \<Longrightarrow> int32 x = x"
  unfolding int32_def by (rule signed_take_bit_int_eq_self) simp_all

lemma and_mask16: "x AND 0xffff = x mod 65536" "x AND 0xff = x mod 256" for x :: int
  using take_bit_eq_mask [of 16 x] take_bit_eq_mask [of 8 x] by (simp_all add: mask_eq_exp_minus_1 take_bit_eq_mod)

lemma borrow_value: "- 65536 \<le> x \<Longrightarrow> x < 65536 \<Longrightarrow> borrow x = (if x < 0 then 1 else 0)"
  "- 65536 \<le> x \<Longrightarrow> x < 65536 \<Longrightarrow> int32 x AND 0xffff = x + 65536 * borrow x"
proof -
  assume x: "- 65536 \<le> x" "x < 65536"
  have d: "x div 65536 = (if x < 0 then - 1 else 0)" using x div_limb [of x] by auto
  show b: "borrow x = (if x < 0 then 1 else 0)"
    using x by (simp add: borrow_def int32_id drop_bit_eq_div d)
  have "x mod 65536 = x - 65536 * (x div 65536)" by (simp add: minus_mult_div_eq_mod)
  then show "int32 x AND 0xffff = x + 65536 * borrow x"
    using x unfolding and_mask16 b by (simp add: int32_id d)
qed

definition sub_state :: "gf \<Rightarrow> nat \<Rightarrow> gf \<Rightarrow> bool" where
  "sub_state t i m \<longleftrightarrow> length m = 16 \<and> digits16 (take (i - 1) m) \<and> - 65536 \<le> m ! (i - 1) \<and> m ! (i - 1) < 65536
    \<and> fval (take i m) = fval (take i t) - (65536 ^ i - 19)"

lemma take_Suc_at: "i < length m \<Longrightarrow> take (Suc i) m = take i m @ [m ! i]"
  by (rule take_Suc_conv_app_nth)

lemma settle_borrow:
  assumes "0 < i" "i < 16" "sub_state t i m"
  defines "m' \<equiv> m[i - 1 := int32 (m ! (i - 1)) AND 0xffff]"
  shows "length m' = 16" "digits16 (take i m')" "\<And>k. i \<le> k \<Longrightarrow> m' ! k = m ! k"
    "fval (take i m') = fval (take i t) - (65536 ^ i - 19) + 65536 ^ i * borrow (m ! (i - 1))"
    "0 \<le> borrow (m ! (i - 1)) \<and> borrow (m ! (i - 1)) \<le> 1"
proof -
  obtain j where i: "i = Suc j" using assms(1) by (cases i) auto
  let ?b = "borrow (m ! j)"
  have m: "length m = 16" "digits16 (take j m)" "- 65536 \<le> m ! j" "m ! j < 65536"
    "fval (take i m) = fval (take i t) - (65536 ^ i - 19)"
    using assms(3) by (simp_all add: sub_state_def i)
  have b: "?b = (if m ! j < 0 then 1 else 0)" "int32 (m ! j) AND 0xffff = m ! j + 65536 * ?b"
    using borrow_value m(3,4) by blast+
  have m': "m' = m[j := m ! j + 65536 * ?b]" unfolding m'_def i diff_Suc_1 b(2) ..
  show "length m' = 16" using m(1) by (simp add: m')
  show "0 \<le> borrow (m ! (i - 1)) \<and> borrow (m ! (i - 1)) \<le> 1" by (simp add: i b(1))
  show "m' ! k = m ! k" if "i \<le> k" for k using that by (simp add: m' i)
  have t: "take i m' = take j m @ [m ! j + 65536 * ?b]" "take i m = take j m @ [m ! j]"
    using m(1) assms(2) unfolding i m' by (simp_all add: take_Suc_at)
  then show "digits16 (take i m')" using m(2-4) b(1) by (simp add: digits16_def)
  have "fval (take i m') = fval (take i m) + 65536 ^ i * ?b"
    unfolding t using m(1) assms(2) i by (simp add: fval_append algebra_simps)
  then show "fval (take i m') = fval (take i t) - (65536 ^ i - 19) + 65536 ^ i * borrow (m ! (i - 1))"
    using m(5) by (simp add: i)
qed

lemma pack_sub_step_state:
  assumes "length t = 16" "digits16 t" "0 < i" "i < 15" "sub_state t i m"
  shows "sub_state t (Suc i) (pack_sub_step t i m)"
proof -
  let ?b = "borrow (m ! (i - 1))" and ?m = "m[i - 1 := int32 (m ! (i - 1)) AND 0xffff]"
  have i: "i < 16" using assms(4) by simp
  note s = settle_borrow [OF assms(3) i assms(5)]
  have step: "pack_sub_step t i m = ?m[i := t ! i - 0xffff - ?b]"
    using assms(3) by (simp add: pack_sub_step_def Let_def list_update_swap)
  have ti: "0 \<le> t ! i" "t ! i < 65536" using assms(1,2) i by (simp_all add: digits16_def)
  have p: "take i (pack_sub_step t i m) = take i ?m" "pack_sub_step t i m ! i = t ! i - 0xffff - ?b"
    "length (pack_sub_step t i m) = 16"
    using s(1) i by (simp_all add: step)
  have "take (Suc i) (pack_sub_step t i m) = take i ?m @ [t ! i - 0xffff - ?b]"
    using i unfolding p(1,2) [symmetric] by (intro take_Suc_at) (simp add: p(3))
  then have "fval (take (Suc i) (pack_sub_step t i m)) = fval (take i ?m) + 65536 ^ i * (t ! i - 0xffff - ?b)"
    using s(1) i by (simp add: fval_append)
  moreover have "fval (take (Suc i) t) = fval (take i t) + 65536 ^ i * t ! i"
    using assms(1) i by (simp add: take_Suc_at fval_append)
  ultimately have "fval (take (Suc i) (pack_sub_step t i m)) = fval (take (Suc i) t) - (65536 ^ Suc i - 19)"
    unfolding s(4) by (simp add: algebra_simps)
  then show ?thesis
    using s(2,5) ti p unfolding sub_state_def by simp
qed

lemma pack_sub_steps:
  assumes "length t = 16" "digits16 t" "k \<le> 14"
  shows "sub_state t (Suc k) (fold (pack_sub_step t) [1..<Suc k] (gf0[0 := t ! 0 - 0xffed]))"
  using assms(3)
proof (induction k)
  case 0
  have "0 \<le> t ! 0" "t ! 0 < 65536" using assms(1,2) by (simp_all add: digits16_def)
  then show ?case
    using assms(1) by (simp add: sub_state_def gf0_def gf_def take_Suc_at)
next
  case (Suc k)
  then show ?case
    using pack_sub_step_state [OF assms(1,2), of "Suc k"] by simp
qed

lemma sel25519_value:
  assumes "length p = length q" "\<forall>x\<in>set p \<union> set q. - 2147483648 \<le> x \<and> x < 2147483648"
  shows "sel25519 p q 0 = (p, q)" "sel25519 p q 1 = (q, p)"
proof -
  have x: "x XOR (x XOR y) = y" "y XOR (x XOR y) = x" for x y :: int
    by (simp_all add: xor.left_commute flip: xor.assoc)
  show "sel25519 p q 0 = (p, q)" "sel25519 p q 1 = (q, p)"
    using assms by (induction p q rule: list_induct2) (simp_all add: sel25519_def Let_def int32_id x)
qed

lemma pack_sub_value:
  assumes "length t = 16" "digits16 t"
  shows "length (pack_sub t) = 16" "digits16 (pack_sub t)"
    "fval (pack_sub t) = (if P25519 \<le> fval t then fval t - P25519 else fval t)"
proof -
  define m where "m = fold (pack_sub_step t) [1..<15] (gf0[0 := t ! 0 - 0xffed])"
  have st: "sub_state t 15 m" using pack_sub_steps [OF assms, of 14] by (simp add: m_def)
  have lm: "length m = 16" using st by (simp add: sub_state_def)
  let ?b = "borrow (m ! 14)" and ?m = "m[14 := int32 (m ! 14) AND 0xffff]"
  note s = settle_borrow [OF _ _ st, simplified]
  define n where "n = ?m[15 := t ! 15 - 0x7fff - ?b]"
  have t15: "0 \<le> t ! 15" "t ! 15 < 65536" using assms by (simp_all add: digits16_def)
  have n: "length n = 16" "take 15 n = take 15 ?m" "n ! 15 = t ! 15 - 0x7fff - ?b"
    using s(1) by (simp_all add: n_def)
  have nv: "n = take 15 ?m @ [t ! 15 - 0x7fff - ?b]"
    using last_limb [OF n(1)] n(2,3) by simp
  have tv: "fval t = fval (take 15 t) + 65536 ^ 15 * t ! 15"
    using assms(1) by (subst last_limb [OF assms(1)]) (simp add: fval_append)
  have fn0: "fval n = fval (take 15 ?m) + 65536 ^ 15 * (t ! 15 - 0x7fff - ?b)"
    unfolding nv using s(1) by (simp add: fval_append)
  have fn: "fval n = fval t - P25519"
    unfolding fn0 s(4) tv P25519_def by (simp add: algebra_simps)
  have low: "0 \<le> fval (take 15 ?m)" "fval (take 15 ?m) < 65536 ^ 15"
    using fval_bounds [OF s(2)] s(1) by simp_all
  have b15: "borrow (n ! 15) = (if n ! 15 < 0 then 1 else 0)"
    by (rule borrow_value) (use n(3) t15 s(5) in simp_all)
  have sel: "pack_sub t = fst (sel25519 t n (1 - borrow (n ! 15)))"
    unfolding pack_sub_def Let_def m_def [symmetric]
    using lm by (simp add: n_def list_update_swap [of 14 15])
  have rng: "\<forall>x\<in>set t \<union> set n. - 2147483648 \<le> x \<and> x < 2147483648"
    using assms(2) s(2) t15 s(5) unfolding nv digits16_def by fastforce
  have neg: "n ! 15 < 0 \<longleftrightarrow> fval t < P25519"
  proof -
    have "fval n = fval (take 15 ?m) + 65536 ^ 15 * n ! 15"
      unfolding n(3) by (rule fn0)
    moreover have "65536 ^ 15 * n ! 15 \<le> 65536 ^ 15 * (- 1)" if "n ! 15 < 0"
      by (rule mult_left_mono) (use that in simp_all)
    moreover have "0 \<le> 65536 ^ 15 * n ! 15" if "0 \<le> n ! 15" using that by simp
    ultimately show ?thesis using fn low by linarith
  qed
  show "length (pack_sub t) = 16" "digits16 (pack_sub t)"
    "fval (pack_sub t) = (if P25519 \<le> fval t then fval t - P25519 else fval t)"
  proof -
    have "pack_sub t = (if fval t < P25519 then t else n)"
      unfolding sel b15 neg using sel25519_value [OF _ rng] n(1) assms(1) by simp
    moreover have "digits16 n" if "\<not> fval t < P25519"
      using that s(2) t15 s(5) n(3) unfolding neg [symmetric] nv by (simp add: digits16_def)
    ultimately show "length (pack_sub t) = 16" "digits16 (pack_sub t)"
      "fval (pack_sub t) = (if P25519 \<le> fval t then fval t - P25519 else fval t)"
      using assms n(1) fn by auto
  qed
qed

section \<open>The packed number\<close>

lemma le_val_limbs:
  "digits16 t \<Longrightarrow> int (le_val (concat (map (\<lambda>x. [word_of_int (int32 x AND 0xff), word_of_int (drop_bit 8 (int32 x))]) t))) = fval t"
proof (induction t)
  case (Cons x t)
  then have x: "0 \<le> x" "x < 65536" by simp_all
  then have "int32 x = x" by (simp add: int32_id)
  moreover have "x div 256 < 256" using x by simp
  ultimately have "int (unat (word_of_int (int32 x AND 0xff) :: 8 word)) = x mod 256"
    "int (unat (word_of_int (drop_bit 8 (int32 x)) :: 8 word)) = x div 256"
    using x by (simp_all add: and_mask16 drop_bit_eq_div uint_word_of_int)
  moreover have "x = x mod 256 + 256 * (x div 256)" by simp
  ultimately show ?case using Cons by (simp add: algebra_simps)
qed simp

lemma pack25519_value:
  assumes "gf_ok n"
  shows "pack25519 n = le_bytes 32 (nat (fval n mod P25519))" "length (pack25519 n) = 32"
proof -
  define t where "t = car25519 (car25519 (car25519 n))"
  have t: "digits16 t" "length t = 16" "fval t mod P25519 = fval n mod P25519"
    using three_cars [OF assms] by (simp_all add: t_def)
  note p1 = pack_sub_value [OF t(2,1)] note p2 = pack_sub_value [OF p1(1,2)]
  define u where "u = pack_sub (pack_sub t)"
  have u: "length u = 16" "digits16 u" using p2 by (simp_all add: u_def)
  have "0 \<le> fval t" "fval t < 2 ^ 256" using fval_bounds [OF t(1)] t(2) by simp_all
  then have r: "0 \<le> fval u" "fval u < P25519" "\<exists>k. fval t = fval u + k * P25519"
  proof -
    have "fval t < 2 * P25519 + 38" using \<open>fval t < 2 ^ 256\<close> by (simp add: P25519_def)
    then have "fval u = fval t \<or> fval u = fval t - P25519 \<or> fval u = fval t - P25519 - P25519" "0 \<le> fval u" "fval u < P25519"
      using p1(3) p2(3) \<open>0 \<le> fval t\<close> unfolding u_def by (auto simp: P25519_def split: if_splits)
    then show "0 \<le> fval u" "fval u < P25519" "\<exists>k. fval t = fval u + k * P25519"
      by (auto intro: exI [of _ 0] exI [of _ 1] exI [of _ 2])
  qed
  then have "fval u = fval t mod P25519"
    by (auto simp: mod_add_eq)
  then have uv: "fval u = fval n mod P25519" using t(3) by simp
  define o' where "o' = concat (map (\<lambda>x. [word_of_int (int32 x AND 0xff), word_of_int (drop_bit 8 (int32 x))] :: 8 word list) u)"
  have o: "pack25519 n = o'" by (simp add: pack25519_def Let_def o'_def u_def t_def)
  have l: "length o' = 32" using u(1) by (simp add: o'_def length_concat_pairs)
  have "int (le_val o') = fval u" unfolding o'_def by (rule le_val_limbs [OF u(2)])
  then have "le_val o' = nat (fval n mod P25519)" using uv by simp
  moreover have "nat (fval n mod P25519) < 256 ^ 32"
    using r(1,2) uv by (simp add: P25519_def)
  ultimately show "pack25519 n = le_bytes 32 (nat (fval n mod P25519))"
    unfolding o by (intro le_bytes_unique [OF l]) simp
  show "length (pack25519 n) = 32" using o l by simp
qed

end
