(* ===== verification/ModL.thy ===== *)
theory ModL
  imports FieldPack
begin

text \<open>
  Scalars modulo the order of the base point of Ed25519, as nacl-fast.ts reduces them: byte digits held
  in doubles, multiples of the order subtracted from the top, signed carries.
\<close>

section \<open>The code\<close>

definition L25519 :: "int list" where
  "L25519 = [0xed, 0xd3, 0xf5, 0x5c, 0x1a, 0x63, 0x12, 0x58] @ [0xd6, 0x9c, 0xf7, 0xa2, 0xde, 0xf9, 0xde, 0x14]
    @ replicate 15 0 @ [0x10]"

definition modL_step :: "nat \<Rightarrow> nat \<Rightarrow> int list \<times> int \<Rightarrow> int list \<times> int" where
  "modL_step i j = (\<lambda>(x, carry).
     let v = x ! j + (carry - 16 * x ! i * L25519 ! (j - (i - 32))); carry = (v + 128) div 256
     in (x[j := v - carry * 256], carry))"

definition modL_row :: "nat \<Rightarrow> int list \<Rightarrow> int list" where
  "modL_row i x =
     (let (x, carry) = fold (modL_step i) [i - 32..<i - 12] (x, 0)
      in x[i - 12 := x ! (i - 12) + carry, i := 0])"

definition modL_low :: "nat \<Rightarrow> int list \<times> int \<Rightarrow> int list \<times> int" where
  "modL_low j = (\<lambda>(x, carry).
     let v = x ! j + (carry - drop_bit 4 (int32 (x ! 31)) * L25519 ! j)
     in (x[j := int32 v AND 255], drop_bit 8 (int32 v)))"

definition modL_out :: "nat \<Rightarrow> int list \<times> bytes \<Rightarrow> int list \<times> bytes" where
  "modL_out i = (\<lambda>(x, r).
     (x[i + 1 := x ! (i + 1) + drop_bit 8 (int32 (x ! i))], r @ [word_of_int (int32 (x ! i) AND 255)]))"

definition modL :: "int list \<Rightarrow> bytes" where
  "modL x =
     (let x = fold modL_row (rev [32..<64]) x;
          (x, carry) = fold modL_low [0..<32] (x, 0);
          x = fold (\<lambda>j x. x[j := x ! j - carry * L25519 ! j]) [0..<32] x
      in snd (fold modL_out [0..<32] (x, [])))"

definition reduce25519 :: "bytes \<Rightarrow> bytes" where
  "reduce25519 r = modL (map (\<lambda>i. uint (u8 r i)) [0..<64]) @ replicate 32 0"

section \<open>Digits\<close>

definition N25519 :: int where
  "N25519 = 2 ^ 252 + 27742317777372353535851937790883648493"

fun bval :: "int list \<Rightarrow> int" where
  "bval [] = 0"
| "bval (x # xs) = x + 256 * bval xs"

lemma bval_append: "bval (xs @ ys) = bval xs + 256 ^ length xs * bval ys"
  by (induction xs) (simp_all add: algebra_simps)

lemma bval_zeros [simp]: "bval (replicate n 0) = 0"
  by (induction n) simp_all

lemma bval_L25519: "bval L25519 = N25519" "length L25519 = 32"
  by (simp_all add: L25519_def N25519_def bval_append)

lemma bval_bound: "\<forall>x\<in>set xs. \<bar>x\<bar> \<le> b \<Longrightarrow> \<bar>255 * bval xs\<bar> \<le> b * (256 ^ length xs - 1)"
proof (induction xs)
  case (Cons x xs)
  then have "\<bar>255 * bval xs\<bar> \<le> b * (256 ^ length xs - 1)" "\<bar>x\<bar> \<le> b" by simp_all
  moreover have "255 * bval (x # xs) = 255 * x + 256 * (255 * bval xs)" by simp
  moreover have "b * (256 ^ length (x # xs) - 1) = 255 * b + 256 * (b * (256 ^ length xs - 1))"
    by (simp add: algebra_simps)
  ultimately show ?case by linarith
qed simp

lemma div_byte: "256 * (y div 256) \<le> y" "y < 256 * (y div 256) + (256 :: int)"
proof -
  have "y = 256 * (y div 256) + y mod 256" by simp
  moreover have "0 \<le> y mod 256" "y mod 256 < 256" by simp_all
  ultimately show "256 * (y div 256) \<le> y" "y < 256 * (y div 256) + 256" by linarith+
qed

text \<open>Balanced digits with their carry.\<close>

fun balance :: "int \<Rightarrow> int list \<Rightarrow> int list \<times> int" where
  "balance c [] = ([], c)"
| "balance c (v # vs) =
     (let q = (v + c + 128) div 256; (ds, c') = balance q vs in ((v + c - q * 256) # ds, c'))"

lemma balance_value:
  "bval (fst (balance c vs)) + 256 ^ length vs * snd (balance c vs) = bval vs + c
    \<and> length (fst (balance c vs)) = length vs \<and> (\<forall>d\<in>set (fst (balance c vs)). - 128 \<le> d \<and> d \<le> 127)"
proof (induction c vs rule: balance.induct)
  case (2 c v vs)
  let ?q = "(v + c + 128) div 256"
  let ?r = "balance ?q vs"
  have IH: "bval (fst ?r) + 256 ^ length vs * snd ?r = bval vs + ?q" "length (fst ?r) = length vs"
    "\<forall>d\<in>set (fst ?r). - 128 \<le> d \<and> d \<le> 127"
    using "2.IH" by simp_all
  have "v + c - ?q * 256 + 256 * (bval (fst ?r) + 256 ^ length vs * snd ?r) = v + c + 256 * bval vs"
    unfolding IH(1) by (simp add: algebra_simps)
  moreover have "- 128 \<le> v + c - ?q * 256" "v + c - ?q * 256 \<le> 127"
    using div_byte [of "v + c + 128"] by linarith+
  ultimately show ?case using IH(2,3) by (simp add: Let_def split_beta algebra_simps)
qed simp

lemma balance_append:
  "balance c (a @ b) = (fst (balance c a) @ fst (balance (snd (balance c a)) b), snd (balance (snd (balance c a)) b))"
  by (induction c a rule: balance.induct) (simp_all add: Let_def split_beta)

lemma byte_carry: "\<bar>v\<bar> \<le> b \<Longrightarrow> \<bar>c\<bar> \<le> d \<Longrightarrow> \<bar>(v + c + 128) div 256\<bar> \<le> (b + d + 128) div 256 + (1 :: int)"
  using div_byte [of "v + c + 128"] div_byte [of "b + d + 128"] by linarith

lemma balance_bound:
  "\<forall>v\<in>set vs. \<bar>v\<bar> \<le> b \<Longrightarrow> \<bar>c\<bar> \<le> b \<Longrightarrow> 256 \<le> b \<Longrightarrow> vs \<noteq> [] \<Longrightarrow>
    \<bar>snd (balance c vs)\<bar> \<le> (2 * b + 128) div 256 + 1"
proof (induction c vs rule: balance.induct)
  case (2 c v vs)
  have c: "\<bar>(v + c + 128) div 256\<bar> \<le> (2 * b + 128) div 256 + 1"
    using byte_carry [of v b c b] "2.prems" by simp
  show ?case
  proof (cases "vs = []")
    case True
    with c show ?thesis by (simp add: Let_def)
  next
    case False
    have "(2 * b + 128) div 256 + 1 \<le> b" using "2.prems"(3) div_byte [of "2 * b + 128"] by linarith
    with "2.IH" [OF refl _ _ "2.prems"(3) False] "2.prems" c show ?thesis by (simp add: Let_def split_beta)
  qed
qed simp

section \<open>One row\<close>

lemma fold_modL_step:
  assumes "i < length (pre @ xs @ post)" "length pre + length xs \<le> i" "length pre = (i - 32) + d"
    "length xs + d \<le> 32" "u = post ! (i - (length pre + length xs))"
  shows "fold (modL_step i) [length pre..<length pre + length xs] (pre @ xs @ post, c)
    = (let r = balance c (map2 (\<lambda>x l. x - 16 * u * l) xs (drop d L25519)) in (pre @ fst r @ post, snd r))"
  using assms
proof (induction xs arbitrary: pre c d)
  case (Cons x xs)
  let ?n = "length pre"
  let ?v = "x - 16 * u * L25519 ! d"
  let ?q = "(?v + c + 128) div 256"
  have i: "(pre @ (x # xs) @ post) ! i = u"
  proof -
    have "(pre @ (x # xs) @ post) ! i = ((pre @ x # xs) @ post) ! i" by simp
    also have "\<dots> = u" using Cons.prems(2,5) by (subst nth_append) simp
    finally show ?thesis .
  qed
  have d: "drop d L25519 = L25519 ! d # drop (Suc d) L25519"
    by (rule Cons_nth_drop_Suc [symmetric]) (use Cons.prems(4) bval_L25519(2) in simp)
  have v: "x + (c - 16 * u * L25519 ! (?n - (i - 32))) = ?v + c" using Cons.prems(3) by simp
  have at: "(pre @ (x # xs) @ post) ! ?n = x" by simp
  have "modL_step i ?n (pre @ (x # xs) @ post, c) = ((pre @ [?v + c - ?q * 256]) @ xs @ post, ?q)"
    unfolding modL_step_def prod.case Let_def i at v by (simp add: list_update_append)
  moreover have "[?n..<?n + length (x # xs)] = ?n # [length (pre @ [y])..<length (pre @ [y]) + length xs]" for y
    by (simp add: upt_conv_Cons del: upt_Suc)
  ultimately show ?case
    using Cons.IH [of "pre @ [?v + c - ?q * 256]" "Suc d" ?q] Cons.prems
    by (simp add: Let_def split_beta d)
qed simp


text \<open>
  Row \<open>i\<close> takes \<open>16 * x_i\<close> times the order away at position \<open>i - 32\<close>: the digit \<open>x_i\<close> vanishes against
  the top digit of the order, the others become balanced.
\<close>

lemma L25519_digits: "0 \<le> l \<and> l \<le> 255" if "l \<in> set L25519"
  using that by (auto simp: L25519_def)

lemma bval_map2: "length xs = length ls \<Longrightarrow> bval (map2 (\<lambda>x l. x - u * l) xs ls) = bval xs - u * bval ls"
  by (induction xs ls rule: list_induct2) (simp_all add: algebra_simps)

lemma bval_L_low: "bval (take 20 L25519) = N25519 - 2 ^ 252" "length (take 20 L25519) = 20"
  by (simp_all add: L25519_def N25519_def numeral_eq_Suc)

lemma row_parts:
  assumes "length x = 64" "32 \<le> i" "i < 64"
  shows "x = take (i - 32) x @ take 20 (drop (i - 32) x) @ drop (i - 12) x"
proof -
  have "drop (i - 12) x = drop 20 (drop (i - 32) x)" using assms(2) by simp
  then show ?thesis by (metis append_take_drop_id)
qed

lemma map2_take: "map2 f xs ls = map2 f xs (take (length xs) ls)"
proof (induction xs arbitrary: ls)
  case (Cons x xs)
  show ?case
  proof (cases ls)
    case (Cons l ls')
    then show ?thesis using Cons.IH [of ls'] by simp
  qed simp
qed simp

lemma modL_row_eq:
  assumes "length x = 64" "32 \<le> i" "i < 64"
  defines "vs \<equiv> map2 (\<lambda>y l. y - 16 * x ! i * l) (take 20 (drop (i - 32) x)) (take 20 L25519)"
  shows "modL_row i x = (let y = take (i - 32) x @ fst (balance 0 vs) @ drop (i - 12) x
      in y[i - 12 := x ! (i - 12) + snd (balance 0 vs), i := 0])" "length vs = 20"
    "length (fst (balance 0 vs)) = 20"
proof -
  have n: "length (take (i - 32) x) = i - 32" "length (take 20 (drop (i - 32) x)) = 20" using assms(1-3) by simp_all
  have i: "i - 32 + 20 = i - 12" using assms(2) by simp
  have post: "x ! i = drop (i - 12) x ! (i - (i - 12))" using assms(1-3) by simp
  have v: "map2 (\<lambda>y l. y - 16 * x ! i * l) (take 20 (drop (i - 32) x)) (drop 0 L25519) = vs"
    unfolding vs_def drop_0 map2_take [of _ _ L25519] n(2) ..
  let ?p = "take (i - 32) x" and ?s = "take 20 (drop (i - 32) x)" and ?q = "drop (i - 12) x"
  have x: "?p @ ?s @ ?q = x" by (rule row_parts [OF assms(1-3), symmetric])
  have "fold (modL_step i) [length ?p..<length ?p + length ?s] (?p @ ?s @ ?q, 0)
      = (let r = balance 0 (map2 (\<lambda>y l. y - 16 * x ! i * l) ?s (drop 0 L25519)) in (?p @ fst r @ ?q, snd r))"
  proof (rule fold_modL_step)
    show "i < length (?p @ ?s @ ?q)" unfolding x using assms(1,3) by simp
    show "length ?p + length ?s \<le> i" "length ?p = i - 32 + 0" "length ?s + 0 \<le> 32"
      unfolding n using assms(2) by simp_all
    show "x ! i = ?q ! (i - (length ?p + length ?s))" unfolding n i by (rule post)
  qed
  then have "fold (modL_step i) [i - 32..<i - 12] (x, 0) = (?p @ fst (balance 0 vs) @ ?q, snd (balance 0 vs))"
    unfolding x v n i Let_def .
  moreover have "(take (i - 32) x @ fst (balance 0 vs) @ drop (i - 12) x) ! (i - 12) = x ! (i - 12)"
    if "length (fst (balance 0 vs)) = 20"
  proof -
    have "length (?p @ fst (balance 0 vs)) = i - 12" using that n(1) i by simp
    moreover have "?q ! 0 = x ! (i - 12)" using assms(1-3) by simp
    ultimately show ?thesis by (metis append_assoc cancel_comm_monoid_add_class.diff_cancel less_irrefl nth_append)
  qed
  moreover have l: "length vs = 20" using n(2) bval_L_low(2) by (simp add: vs_def)
  moreover have "length (fst (balance 0 vs)) = 20" using balance_value [of 0 vs] l by simp
  ultimately show "modL_row i x = (let y = take (i - 32) x @ fst (balance 0 vs) @ drop (i - 12) x
      in y[i - 12 := x ! (i - 12) + snd (balance 0 vs), i := 0])"
    by (simp add: modL_row_def Let_def)
  show "length vs = 20" using n(2) bval_L_low(2) by (simp add: vs_def)
  then show "length (fst (balance 0 vs)) = 20" using balance_value [of 0 vs] by simp
qed


lemma bval_update: "i < length xs \<Longrightarrow> bval (xs[i := y]) = bval xs + 256 ^ i * (y - xs ! i)"
proof (induction xs arbitrary: i)
  case (Cons x xs)
  show ?case
  proof (cases i)
    case (Suc j)
    with Cons have "bval (xs[j := y]) = bval xs + 256 ^ j * (y - xs ! j)" by simp
    with Suc show ?thesis by (simp add: distrib_left mult.assoc)
  qed simp
qed simp

lemma modL_row_value:
  assumes "length x = 64" "32 \<le> i" "i < 64"
  shows "length (modL_row i x) = 64" "bval (modL_row i x) mod N25519 = bval x mod N25519"
proof -
  let ?u = "x ! i" and ?p = "take (i - 32) x" and ?s = "take 20 (drop (i - 32) x)" and ?q = "drop (i - 12) x"
  define vs where "vs = map2 (\<lambda>y l. y - 16 * ?u * l) ?s (take 20 L25519)"
  note row = modL_row_eq [OF assms, folded vs_def]
  let ?b = "fst (balance 0 vs)" and ?c = "snd (balance 0 vs)"
  define y where "y = ?p @ ?b @ ?q"
  have ly: "length y = 64" using row(3) assms by (simp add: y_def)
  have m: "modL_row i x = y[i - 12 := x ! (i - 12) + ?c, i := 0]"
    using row(1) by (simp add: y_def Let_def)
  show "length (modL_row i x) = 64" using ly by (simp add: m)
  have bal: "bval ?b + 256 ^ 20 * ?c = bval vs" using balance_value [of 0 vs] row(2) by simp
  have "bval vs = bval ?s - 16 * ?u * (N25519 - 2 ^ 252)"
    unfolding vs_def bval_L_low(1) [symmetric] by (rule bval_map2) (use assms bval_L_low(2) in simp)
  then have b: "bval ?b = bval ?s - 16 * ?u * (N25519 - 2 ^ 252) - 256 ^ 20 * ?c" using bal by simp
  have lp: "length ?p = i - 32" "length ?s = 20" using assms by simp_all
  have x: "bval x = bval ?p + 256 ^ (i - 32) * (bval ?s + 256 ^ 20 * bval ?q)"
    by (subst row_parts [OF assms]) (simp only: bval_append lp)
  have yv: "bval y = bval ?p + 256 ^ (i - 32) * (bval ?b + 256 ^ 20 * bval ?q)"
    by (simp only: y_def bval_append lp row(3))
  have at: "y ! (i - 12) = x ! (i - 12)" "y ! i = ?u"
  proof -
    have k: "y ! k = x ! k" if "i - 12 \<le> k" "k < 64" for k
    proof -
      have "length (?p @ ?b) = i - 12" using row(3) lp(1) assms(2) by simp
      then have "y ! k = ?q ! (k - (i - 12))" using that(1) unfolding y_def append_assoc [symmetric]
        by (subst nth_append) simp
      also have "\<dots> = x ! k" using that assms by simp
      finally show ?thesis .
    qed
    show "y ! (i - 12) = x ! (i - 12)" "y ! i = ?u" using k assms by simp_all
  qed
  have "bval (modL_row i x) = bval y + 256 ^ (i - 12) * ?c - 256 ^ i * ?u"
    unfolding m using ly assms at by (simp add: bval_update)
  also have "256 ^ (i - 12) * ?c = 256 ^ (i - 32) * (256 ^ 20 * ?c)"
    using assms(2) unfolding mult.assoc [symmetric] power_add [symmetric] by simp
  also have "(256 :: int) ^ i * ?u = 256 ^ (i - 32) * (256 ^ 32 * ?u)"
    using assms(2) unfolding mult.assoc [symmetric] power_add [symmetric] by simp
  also have "bval y + 256 ^ (i - 32) * (256 ^ 20 * ?c) - 256 ^ (i - 32) * (256 ^ 32 * ?u)
      = bval x + N25519 * (- 16 * ?u * 256 ^ (i - 32))"
    unfolding yv b x by (simp add: algebra_simps)
  finally show "bval (modL_row i x) mod N25519 = bval x mod N25519"
    by (simp only: mod_mult_self2)
qed


section \<open>The bounds of the rows\<close>

definition row_state :: "nat \<Rightarrow> int list \<Rightarrow> bool" where
  "row_state i x \<longleftrightarrow> length x = 64 \<and> (\<forall>k<64.
     (k \<le> i - 32 \<and> 32 \<le> i \<longrightarrow> 0 \<le> x ! k \<and> x ! k \<le> 2097152) \<and>
     (i < k + 32 \<and> k + 12 \<le> i \<longrightarrow> - 128 \<le> x ! k \<and> x ! k \<le> 127) \<and>
     (i < k + 12 \<and> k \<le> i \<longrightarrow> \<bar>x ! k\<bar> \<le> 4194304 \<and> (k \<le> 50 \<longrightarrow> \<bar>x ! k\<bar> \<le> 129)) \<and>
     (i < k \<longrightarrow> x ! k = 0))"

lemma length4: "length l = 4 \<Longrightarrow> \<exists>a b c d. l = [a, b, c, d]"
  by (auto simp: numeral_eq_Suc length_Suc_conv)

lemma balance_tail_bound:
  assumes "\<bar>c\<bar> \<le> 268435456" "length vs = 4" "\<forall>v\<in>set vs. \<bar>v\<bar> \<le> 2097152"
  shows "\<bar>snd (balance c vs)\<bar> \<le> 16384"
    "\<forall>v\<in>set vs. - 128 \<le> v \<and> v \<le> 127 \<Longrightarrow> \<bar>snd (balance c vs)\<bar> \<le> 1"
proof -
  obtain v0 v1 v2 v3 where vs: "vs = [v0, v1, v2, v3]"
    using length4 [OF assms(2)] by blast
  define q0 where "q0 = (v0 + c + 128) div 256"
  define q1 where "q1 = (v1 + q0 + 128) div 256"
  define q2 where "q2 = (v2 + q1 + 128) div 256"
  define q3 where "q3 = (v3 + q2 + 128) div 256"
  have r: "snd (balance c vs) = q3"
    by (simp add: vs Let_def q3_def q2_def q1_def q0_def)
  note d = div_byte [of "v0 + c + 128", folded q0_def] div_byte [of "v1 + q0 + 128", folded q1_def]
    div_byte [of "v2 + q1 + 128", folded q2_def] div_byte [of "v3 + q2 + 128", folded q3_def]
  have v: "\<bar>v0\<bar> \<le> 2097152" "\<bar>v1\<bar> \<le> 2097152" "\<bar>v2\<bar> \<le> 2097152" "\<bar>v3\<bar> \<le> 2097152"
    using assms(3) by (simp_all add: vs)
  have q0: "\<bar>q0\<bar> \<le> 1056770" using d(1,2) v(1) assms(1) by linarith
  have q1: "\<bar>q1\<bar> \<le> 16384" using d(3,4) v(2) q0 by linarith
  have q2: "\<bar>q2\<bar> \<le> 8300" using d(5,6) v(3) q1 by linarith
  show "\<bar>snd (balance c vs)\<bar> \<le> 16384" unfolding r using d(7,8) v(4) q2 by linarith
  assume "\<forall>v\<in>set vs. - 128 \<le> v \<and> v \<le> 127"
  then have w: "- 128 \<le> v0" "v0 \<le> 127" "- 128 \<le> v1" "v1 \<le> 127" "- 128 \<le> v2" "v2 \<le> 127" "- 128 \<le> v3" "v3 \<le> 127"
    by (simp_all add: vs)
  have "\<bar>q0\<bar> \<le> 1048577" using d(1,2) w(1,2) assms(1) by linarith
  then have "\<bar>q1\<bar> \<le> 4098" using d(3,4) w(3,4) by linarith
  then have "\<bar>q2\<bar> \<le> 18" using d(5,6) w(5,6) by linarith
  then show "\<bar>snd (balance c vs)\<bar> \<le> 1" unfolding r using d(7,8) w(7,8) by linarith
qed

lemma row_carry_bound:
  assumes u: "\<bar>u\<bar> \<le> 4194304" and s: "length s = 20" "\<forall>y\<in>set s. \<bar>y\<bar> \<le> 2097152"
  defines "vs \<equiv> map2 (\<lambda>y l. y - 16 * u * l) s (take 20 L25519)"
  shows "\<bar>snd (balance 0 vs)\<bar> \<le> 16384"
    "\<forall>y\<in>set (drop 16 s). - 128 \<le> y \<and> y \<le> 127 \<Longrightarrow> \<bar>snd (balance 0 vs)\<bar> \<le> 1"
proof -
  have t: "take 20 L25519 = take 16 L25519 @ [0, 0, 0, 0]"
    by (simp add: L25519_def numeral_eq_Suc)
  have l16: "length (take 16 L25519) = 16" using bval_L25519(2) by simp
  let ?a = "map2 (\<lambda>y l. y - 16 * u * l) (take 16 s) (take 16 L25519)"
  have "length (drop 16 s) = 4" using s(1) by simp
  from length4 [OF this] obtain s0 s1 s2 s3 where d: "drop 16 s = [s0, s1, s2, s3]" by blast
  have "s = take 16 s @ [s0, s1, s2, s3]" using d by (metis append_take_drop_id)
  then have "zip s (take 20 L25519) = zip (take 16 s @ [s0, s1, s2, s3]) (take 16 L25519 @ [0, 0, 0, 0])"
    using t by simp
  also have "\<dots> = zip (take 16 s) (take 16 L25519) @ zip [s0, s1, s2, s3] [0, 0, 0, 0]"
    by (rule zip_append) (use s(1) l16 in simp)
  finally have vs: "vs = ?a @ drop 16 s" by (simp add: vs_def d)
  have "\<bar>y - 16 * u * l\<bar> \<le> 17179869184" if "\<bar>y\<bar> \<le> 2097152" "0 \<le> l" "l \<le> 255" for y l :: int
  proof -
    have "\<bar>u * l\<bar> \<le> 4194304 * 255" unfolding abs_mult by (rule mult_mono) (use u that in simp_all)
    then show ?thesis using that(1) by (simp add: mult.assoc)
  qed
  moreover have "y \<in> set s \<and> l \<in> set L25519" if "(y, l) \<in> set (zip (take 16 s) (take 16 L25519))" for y l
    using set_zip_leftD [OF that] set_zip_rightD [OF that] by (auto dest: in_set_takeD)
  ultimately have "\<forall>v\<in>set ?a. \<bar>v\<bar> \<le> 17179869184"
    using s(2) L25519_digits by auto
  moreover have "?a \<noteq> []" using s(1) l16 by auto
  ultimately have "\<bar>snd (balance 0 ?a)\<bar> \<le> (2 * 17179869184 + 128) div 256 + 1"
    by (intro balance_bound) simp_all
  then have c: "\<bar>snd (balance 0 ?a)\<bar> \<le> 268435456" by simp
  have "length (drop 16 s) = 4" "\<forall>v\<in>set (drop 16 s). \<bar>v\<bar> \<le> 2097152"
    using s by (auto dest: in_set_dropD)
  note b = balance_tail_bound [OF c this]
  show "\<bar>snd (balance 0 vs)\<bar> \<le> 16384" unfolding vs balance_append snd_conv by (rule b(1))
  show "\<bar>snd (balance 0 vs)\<bar> \<le> 1" if "\<forall>y\<in>set (drop 16 s). - 128 \<le> y \<and> y \<le> 127"
    unfolding vs balance_append snd_conv by (rule b(2) [OF that])
qed


lemma modL_row_nth:
  assumes "length x = 64" "32 \<le> i" "i < 64" "k < 64"
  defines "vs \<equiv> map2 (\<lambda>y l. y - 16 * x ! i * l) (take 20 (drop (i - 32) x)) (take 20 L25519)"
  shows "k < i - 32 \<Longrightarrow> modL_row i x ! k = x ! k"
    "i - 32 \<le> k \<Longrightarrow> k < i - 12 \<Longrightarrow> - 128 \<le> modL_row i x ! k \<and> modL_row i x ! k \<le> 127"
    "k = i - 12 \<Longrightarrow> modL_row i x ! k = x ! k + snd (balance 0 vs)"
    "i - 12 < k \<Longrightarrow> k \<noteq> i \<Longrightarrow> modL_row i x ! k = x ! k"
    "k = i \<Longrightarrow> modL_row i x ! k = 0"
proof -
  let ?p = "take (i - 32) x" and ?b = "fst (balance 0 vs)" and ?q = "drop (i - 12) x"
  note row = modL_row_eq [OF assms(1-3), folded vs_def]
  define y where "y = ?p @ ?b @ ?q"
  have m: "modL_row i x = y[i - 12 := x ! (i - 12) + snd (balance 0 vs), i := 0]"
    using row(1) by (simp add: y_def Let_def)
  have ly: "length y = 64" using row(3) assms(1-3) by (simp add: y_def)
  have lp: "length ?p = i - 32" "length (?p @ ?b) = i - 12" using row(3) assms(1-3) by simp_all
  show "modL_row i x ! k = x ! k" if "k < i - 32"
    using that lp(1) assms(2) by (simp add: m y_def nth_append)
  show "- 128 \<le> modL_row i x ! k \<and> modL_row i x ! k \<le> 127" if "i - 32 \<le> k" "k < i - 12"
  proof -
    have "modL_row i x ! k = y ! k" using that assms(2) by (simp add: m)
    also have "\<dots> = ((?p @ ?b) @ ?q) ! k" by (simp add: y_def)
    also have "\<dots> = (?p @ ?b) ! k" using that(2) lp(2) by (subst nth_append) simp
    also have "\<dots> = ?b ! (k - (i - 32))" using that(1) lp(1) by (subst nth_append) simp
    finally have "modL_row i x ! k = ?b ! (k - (i - 32))" .
    moreover have "k - (i - 32) < length ?b" using that row(3) assms(2) by linarith
    ultimately have "modL_row i x ! k \<in> set ?b" by simp
    then show ?thesis using balance_value [of 0 vs] by blast
  qed
  show "modL_row i x ! k = x ! k + snd (balance 0 vs)" if "k = i - 12"
    using that ly assms(2,3) by (simp add: m)
  show "modL_row i x ! k = x ! k" if "i - 12 < k" "k \<noteq> i"
  proof -
    have "modL_row i x ! k = y ! k" using that by (simp add: m)
    also have "\<dots> = ?q ! (k - (i - 12))"
      using that lp(2) unfolding y_def append_assoc [symmetric] by (subst nth_append) simp
    also have "\<dots> = x ! k" using that assms by simp
    finally show ?thesis .
  qed
  show "modL_row i x ! k = 0" if "k = i" using that ly assms(3) by (simp add: m)
qed

definition row_start :: "int list \<Rightarrow> bool" where
  "row_start x \<longleftrightarrow> length x = 64 \<and> (\<forall>k<64. 0 \<le> x ! k \<and> x ! k \<le> 2097152)"

lemma row_state_step:
  assumes "32 \<le> i" "i < 64" "if i = 63 then row_start x else row_state i x"
  shows "row_state (i - 1) (modL_row i x)"
proof -
  have x: "length x = 64" using assms(3) by (simp add: row_state_def row_start_def split: if_splits)
  have start: "\<And>k. k < 64 \<Longrightarrow> 0 \<le> x ! k \<and> x ! k \<le> 2097152" if "i = 63"
    using assms(3) that by (simp add: row_start_def)
  have "i \<noteq> 63 \<Longrightarrow> row_state i x" using assms(3) by simp
  note st = this [unfolded row_state_def, THEN conjunct2, rule_format]
  let ?s = "take 20 (drop (i - 32) x)"
  define c where "c = snd (balance 0 (map2 (\<lambda>y l. y - 16 * x ! i * l) ?s (take 20 L25519)))"
  have u: "\<bar>x ! i\<bar> \<le> 4194304" using start [of i] st [of i] assms(1,2) by (cases "i = 63") simp_all
  have sn: "?s ! n = x ! (i - 32 + n)" "i - 32 + n < 64" if "n < 20" for n using that x assms(1,2) by simp_all
  have s: "length ?s = 20" using x assms(1,2) by simp
  have sb: "\<bar>?s ! n\<bar> \<le> 2097152" if "n < 20" for n
    using start [OF _ sn(2) [OF that]] st [OF _ sn(2) [OF that]] that assms(1,2)
    unfolding sn(1) [OF that] by (cases "i = 63"; cases n) auto
  then have "\<forall>y\<in>set ?s. \<bar>y\<bar> \<le> 2097152"
    by (metis in_set_conv_nth s)
  note c = row_carry_bound [OF u s this, folded c_def]
  have c1: "\<bar>c\<bar> \<le> 1" if "i \<noteq> 63"
  proof (rule c(2))
    have "- 128 \<le> x ! (i - 32 + n) \<and> x ! (i - 32 + n) \<le> 127" if "16 \<le> n" "n < 20" for n
      using st [OF \<open>i \<noteq> 63\<close> sn(2) [OF that(2)]] that assms(1) by auto
    moreover have "drop 16 ?s ! n = x ! (i - 32 + (16 + n))" if "n < 4" for n
      using that s sn(1) [of "16 + n"] by simp
    ultimately have "- 128 \<le> drop 16 ?s ! n \<and> drop 16 ?s ! n \<le> 127" if "n < 4" for n using that by simp
    moreover have "length (drop 16 ?s) = 4" using s by simp
    ultimately show "\<forall>y\<in>set (drop 16 ?s). - 128 \<le> y \<and> y \<le> 127" by (metis in_set_conv_nth)
  qed
  note nth = modL_row_nth [OF x assms(1,2), folded c_def]
  have "(k \<le> i - 1 - 32 \<and> 32 \<le> i - 1 \<longrightarrow> 0 \<le> modL_row i x ! k \<and> modL_row i x ! k \<le> 2097152) \<and>
     (i - 1 < k + 32 \<and> k + 12 \<le> i - 1 \<longrightarrow> - 128 \<le> modL_row i x ! k \<and> modL_row i x ! k \<le> 127) \<and>
     (i - 1 < k + 12 \<and> k \<le> i - 1 \<longrightarrow> \<bar>modL_row i x ! k\<bar> \<le> 4194304 \<and> (k \<le> 50 \<longrightarrow> \<bar>modL_row i x ! k\<bar> \<le> 129)) \<and>
     (i - 1 < k \<longrightarrow> modL_row i x ! k = 0)" if k: "k < 64" for k
  proof -
    consider "k < i - 32" | "i - 32 \<le> k" "k < i - 12" | "k = i - 12" | "i - 12 < k" "k \<noteq> i" | "k = i"
      by linarith
    then show ?thesis
    proof cases
      case 1
      then show ?thesis
        using nth(1) [OF k] start [OF _ k] st [OF _ k] assms(1) by (cases "i = 63") auto
    next
      case 2
      then have "\<not> (k \<le> i - 1 - 32 \<and> 32 \<le> i - 1)" "\<not> i - 1 < k + 12" "\<not> i - 1 < k" using assms(1) by linarith+
      with 2 show ?thesis using nth(2) [OF k] by blast
    next
      case 3
      then have e: "modL_row i x ! k = x ! k + c" using nth(3) [OF k] by simp
      have b: "\<bar>x ! k + c\<bar> \<le> 4194304 \<and> (k \<le> 50 \<longrightarrow> \<bar>x ! k + c\<bar> \<le> 129)"
      proof (cases "i = 63")
        case True
        with 3 start [OF True k] c(1) show ?thesis by linarith
      next
        case False
        then have "- 128 \<le> x ! k \<and> x ! k \<le> 127" using st [OF False k] 3 assms(1) by simp
        with c1 [OF False] show ?thesis by linarith
      qed
      have "\<not> (k \<le> i - 1 - 32 \<and> 32 \<le> i - 1)" "\<not> k + 12 \<le> i - 1" "\<not> i - 1 < k" using 3 assms(1) by linarith+
      with b show ?thesis unfolding e by blast
    next
      case 4
      then have e: "modL_row i x ! k = x ! k" by (rule nth(4) [OF k])
      consider "i = 63" | "i \<noteq> 63" "k < i" | "i \<noteq> 63" "i < k" using 4(2) by linarith
      then show ?thesis
      proof cases
        case 1
        with 4 k start [OF 1 k] show ?thesis unfolding e by simp
      next
        case 2
        then have "\<bar>x ! k\<bar> \<le> 4194304 \<and> (k \<le> 50 \<longrightarrow> \<bar>x ! k\<bar> \<le> 129)" using st [OF 2(1) k] 4(1) by simp
        moreover have "\<not> (k \<le> i - 1 - 32 \<and> 32 \<le> i - 1)" "\<not> k + 12 \<le> i - 1" "\<not> i - 1 < k" using 2 4 by linarith+
        ultimately show ?thesis unfolding e by blast
      next
        case 3
        then have "x ! k = 0" using st [OF 3(1) k] by simp
        with 3 assms(1) show ?thesis unfolding e by simp
      qed
    next
      case 5
      then show ?thesis using nth(5) [OF k] assms(1) by auto
    qed
  qed
  then show ?thesis unfolding row_state_def using modL_row_value(1) [OF x assms(1,2)] by blast
qed

lemma rows_done:
  assumes "row_start x" "32 \<le> i" "i < 64"
  shows "row_state (i - 1) (fold modL_row (rev [i..<64]) x)
    \<and> bval (fold modL_row (rev [i..<64]) x) mod N25519 = bval x mod N25519"
  using assms(2,3)
proof (induction "63 - i" arbitrary: i)
  case 0
  then have i: "i = 63" by simp
  have "length x = 64" using assms(1) by (simp add: row_start_def)
  then show ?case
    using row_state_step [of 63 x] modL_row_value [of x 63] assms(1) by (simp add: i upt_rec)
next
  case (Suc n)
  let ?y = "fold modL_row (rev [Suc i..<64]) x"
  have IH: "row_state i ?y" "bval ?y mod N25519 = bval x mod N25519"
    using Suc.hyps(1) [of "Suc i"] Suc.hyps(2) Suc.prems by simp_all
  then have y: "length ?y = 64" by (simp add: row_state_def)
  have i: "i \<noteq> 63" using Suc.hyps(2) by simp
  have "fold modL_row (rev [i..<64]) x = modL_row i ?y"
    using Suc.prems by (simp add: upt_conv_Cons)
  then show ?case
    using row_state_step [OF Suc.prems, of ?y] modL_row_value(2) [OF y Suc.prems] IH i by simp
qed


section \<open>The last multiple and the bytes\<close>

text \<open>Bytes with a signed carry: \<open>x & 255\<close> and \<open>x >> 8\<close> of a number in range.\<close>

fun byte_carries :: "int \<Rightarrow> int list \<Rightarrow> int list \<times> int" where
  "byte_carries c [] = ([], c)"
| "byte_carries c (v # vs) = (let (ds, c') = byte_carries ((v + c) div 256) vs in ((v + c) mod 256 # ds, c'))"

lemma byte_carries_value:
  "bval (fst (byte_carries c vs)) + 256 ^ length vs * snd (byte_carries c vs) = bval vs + c
    \<and> length (fst (byte_carries c vs)) = length vs \<and> (\<forall>d\<in>set (fst (byte_carries c vs)). 0 \<le> d \<and> d < 256)"
proof (induction c vs rule: byte_carries.induct)
  case (2 c v vs)
  define q where "q = (v + c) div 256"
  define d where "d = (v + c) mod 256"
  have dq: "d + 256 * q = v + c" "0 \<le> d" "d < 256" by (simp_all add: d_def q_def)
  let ?r = "byte_carries q vs"
  have IH: "bval (fst ?r) + 256 ^ length vs * snd ?r = bval vs + q"
    "length (fst ?r) = length vs" "\<forall>d\<in>set (fst ?r). 0 \<le> d \<and> d < 256" using "2.IH" unfolding q_def [symmetric] by blast+
  have e: "fst (byte_carries c (v # vs)) = d # fst ?r" "snd (byte_carries c (v # vs)) = snd ?r"
    by (simp_all add: split_beta d_def q_def)
  have "256 * bval (fst ?r) + 256 * (256 ^ length vs * snd ?r) = 256 * bval vs + 256 * q"
    using IH(1) by linarith
  then have "d + 256 * bval (fst ?r) + 256 * 256 ^ length vs * snd ?r = v + 256 * bval vs + c"
    unfolding mult.assoc using dq(1) by linarith
  then show ?case using IH(2,3) dq(2,3) unfolding e by simp
qed simp

lemma bytes_bounds: "\<forall>d\<in>set ds. 0 \<le> d \<and> d < 256 \<Longrightarrow> 0 \<le> bval ds \<and> bval ds < 256 ^ length ds"
proof (induction ds)
  case (Cons d ds)
  then have "0 \<le> bval ds" "bval ds + 1 \<le> 256 ^ length ds" by simp_all
  then have "256 * (bval ds + 1) \<le> 256 * 256 ^ length ds" "0 \<le> bval ds" by simp_all
  with Cons.prems show ?case by simp
qed simp

lemma and_byte: "x AND 255 = x mod 256" for x :: int
  using take_bit_eq_mask [of 8 x] by (simp add: mask_eq_exp_minus_1 take_bit_eq_mod)

lemma fold_modL_low:
  assumes "length pre + length xs = 32" "u = drop_bit 4 (int32 (last xs))" "xs \<noteq> []" "\<bar>u\<bar> \<le> 16"
    "\<forall>y\<in>set xs. \<bar>y\<bar> \<le> 255" "\<bar>c\<bar> \<le> 255"
  shows "fold modL_low [length pre..<32] (pre @ xs @ post, c)
    = (let r = byte_carries c (map2 (\<lambda>x l. x - u * l) xs (drop (length pre) L25519)) in (pre @ fst r @ post, snd r))"
  using assms
proof (induction xs arbitrary: pre c)
  case (Cons x xs)
  let ?n = "length pre" and ?x = "pre @ (x # xs) @ post"
  let ?v = "x - u * L25519 ! ?n"
  have n: "?n < 32" using Cons.prems(1) by simp
  have top: "?x ! 31 = last (x # xs)"
  proof -
    have "?x ! 31 = ((pre @ x # xs) @ post) ! 31" by simp
    also have "\<dots> = (pre @ x # xs) ! 31" using Cons.prems(1) by (subst nth_append) simp
    also have "\<dots> = last (pre @ x # xs)" using Cons.prems(1) by (subst last_conv_nth) simp_all
    finally show ?thesis by simp
  qed
  have d: "drop ?n L25519 = L25519 ! ?n # drop (Suc ?n) L25519"
    by (rule Cons_nth_drop_Suc [symmetric]) (use n bval_L25519(2) in simp)
  have l: "0 \<le> L25519 ! ?n" "L25519 ! ?n \<le> 255"
    using L25519_digits [of "L25519 ! ?n"] n bval_L25519(2) by simp_all
  have ul: "\<bar>u * L25519 ! ?n\<bar> \<le> 16 * 255" unfolding abs_mult by (rule mult_mono) (use Cons.prems(4) l in simp_all)
  then have vb: "\<bar>?v + c\<bar> \<le> 4590" using Cons.prems(5,6) by (simp, linarith)
  have e: "x + (c - u * L25519 ! ?n) = ?v + c" by simp
  have w: "int32 (?v + c) = ?v + c" by (rule int32_id) (use vb in simp_all)
  have at: "?x ! ?n = x" by simp
  have one: "modL_low ?n (?x, c) = ((pre @ [(?v + c) mod 256]) @ xs @ post, (?v + c) div 256)"
    unfolding modL_low_def prod.case Let_def top Cons.prems(2) [symmetric] at e w and_byte
    by (simp add: list_update_append drop_bit_eq_div)
  show ?case
  proof (cases "xs = []")
    case True
    then have "[?n..<32] = [?n]" using Cons.prems(1) by (simp add: upt_rec)
    with True one show ?thesis by (simp add: d Let_def)
  next
    case False
    have q: "\<bar>(?v + c) div 256\<bar> \<le> 255" using div_byte [of "?v + c"] vb by linarith
    have "[?n..<32] = ?n # [length (pre @ [y])..<32]" for y using n by (simp add: upt_conv_Cons)
    then show ?thesis
      using Cons.IH [of "pre @ [(?v + c) mod 256]" "(?v + c) div 256"] Cons.prems False one q
      by (simp add: d Let_def split_beta)
  qed
qed simp


lemma fold_add_order:
  assumes "length pre + length xs = 32"
  shows "fold (\<lambda>j x. x[j := x ! j - c * L25519 ! j]) [length pre..<32] (pre @ xs @ post)
    = pre @ map2 (\<lambda>x l. x - c * l) xs (drop (length pre) L25519) @ post"
  using assms
proof (induction xs arbitrary: pre)
  case (Cons x xs)
  let ?n = "length pre"
  have n: "?n < 32" using Cons.prems(1) by simp
  have d: "drop ?n L25519 = L25519 ! ?n # drop (Suc ?n) L25519"
    by (rule Cons_nth_drop_Suc [symmetric]) (use n bval_L25519(2) in simp)
  have "[?n..<32] = ?n # [length (pre @ [y])..<32]" for y using n by (simp add: upt_conv_Cons)
  then show ?case
    using Cons.IH [of "pre @ [x - c * L25519 ! ?n]"] Cons.prems by (simp add: d list_update_append)
qed simp

fun add_head :: "int \<Rightarrow> int list \<Rightarrow> int list" where
  "add_head c [] = []"
| "add_head c (x # xs) = (x + c) # xs"

lemma fold_modL_out:
  assumes "length pre + length xs = 32" "\<forall>x\<in>set xs. \<bar>x\<bar> \<le> 1000" "\<bar>c\<bar> \<le> 1000" "post \<noteq> []"
  shows "snd (fold modL_out [length pre..<32] (pre @ add_head c (xs @ post), r))
    = r @ map word_of_int (fst (byte_carries c xs))"
  using assms(1-3)
proof (induction xs arbitrary: pre c r)
  case (Cons x xs)
  let ?n = "length pre"
  obtain y ys where y: "xs @ post = y # ys" using assms(4) by (cases "xs @ post") auto
  have b: "\<bar>x + c\<bar> \<le> 2000" using Cons.prems(2,3) by (simp, linarith)
  have w: "int32 (x + c) = x + c" by (rule int32_id) (use b in simp_all)
  have q: "\<bar>(x + c) div 256\<bar> \<le> 1000" using div_byte [of "x + c"] b by linarith
  have at: "(pre @ (x + c) # y # ys) ! ?n = x + c" "(pre @ (x + c) # y # ys) ! (?n + 1) = y"
    by (simp_all add: nth_append)
  have "modL_out ?n (pre @ (x + c) # y # ys, r)
      = ((pre @ [x + c]) @ (y + (x + c) div 256) # ys, r @ [word_of_int ((x + c) mod 256)])"
    unfolding modL_out_def prod.case at w and_byte by (simp add: list_update_append drop_bit_eq_div)
  moreover have "[?n..<32] = ?n # [length (pre @ [z])..<32]" for z using Cons.prems(1) by (simp add: upt_conv_Cons)
  ultimately show ?case
    using Cons.IH [of "pre @ [x + c]" "(x + c) div 256" "r @ [word_of_int ((x + c) mod 256)]"] Cons.prems q
    by (simp add: y split_beta)
qed simp

lemma le_val_digits: "\<forall>d\<in>set ds. 0 \<le> d \<and> d < 256 \<Longrightarrow> int (le_val (map word_of_int ds)) = bval ds"
proof (induction ds)
  case (Cons d ds)
  then have "int (unat (word_of_int d :: 8 word)) = d" by (simp add: uint_word_of_int)
  with Cons show ?case by simp
qed simp

section \<open>The result\<close>

lemma top_digit_range:
  assumes "length ds = 32" "\<forall>d\<in>set ds. \<bar>d\<bar> \<le> 129"
  defines "u \<equiv> last ds div 16"
  shows "- N25519 \<le> bval ds - u * N25519" "bval ds - u * N25519 < N25519" "\<bar>u\<bar> \<le> 16"
proof -
  have "ds \<noteq> []" using assms(1) by auto
  then have ds: "ds = butlast ds @ [last ds]" by simp
  let ?b = "bval (butlast ds)"
  have l: "length (butlast ds) = 31" using assms(1) by simp
  have e: "last ds = 16 * u + last ds mod 16" "0 \<le> last ds mod 16" "last ds mod 16 \<le> 15"
    using pos_mod_bound [of 16 "last ds"] by (simp_all add: u_def)
  have d: "\<bar>last ds\<bar> \<le> 129" using assms(2) \<open>ds \<noteq> []\<close> by simp
  show u: "\<bar>u\<bar> \<le> 16" using d e by linarith
  have "\<bar>255 * ?b\<bar> \<le> 129 * (256 ^ 31 - 1)"
    using bval_bound [of "butlast ds" 129] assms(2) l by (auto dest: in_set_butlastD)
  moreover have "bval ds = ?b + 256 ^ 31 * last ds"
    by (subst ds) (simp only: bval_append l bval.simps mult_zero_right add_0_right)
  then have "bval ds - u * N25519 = ?b + 256 ^ 31 * (last ds mod 16) - u * 27742317777372353535851937790883648493"
    using e(1) by (simp add: N25519_def algebra_simps)
  ultimately show "- N25519 \<le> bval ds - u * N25519" "bval ds - u * N25519 < N25519"
    using e(2,3) u by (simp_all add: N25519_def)
qed

lemma rows_result:
  assumes "row_start x"
  defines "y \<equiv> fold modL_row (rev [32..<64]) x"
  shows "\<exists>ds. y = ds @ replicate 32 0 \<and> length ds = 32 \<and> (\<forall>d\<in>set ds. \<bar>d\<bar> \<le> 129)
    \<and> bval ds mod N25519 = bval x mod N25519"
proof -
  have y: "row_state 31 y" "bval y mod N25519 = bval x mod N25519"
    using rows_done [OF assms(1), of 32] by (simp_all add: y_def)
  have l: "length y = 64" using y(1) by (simp add: row_state_def)
  note st = y(1) [unfolded row_state_def, THEN conjunct2, rule_format]
  have "drop 32 y = replicate 32 0"
    by (rule nth_equalityI) (use l st in simp_all)
  then have s: "y = take 32 y @ replicate 32 0" by (metis append_take_drop_id)
  have "\<bar>y ! k\<bar> \<le> 129" if "k < 32" for k
    using st [of k] that by (cases "k + 12 \<le> 31") auto
  moreover have "length (take 32 y) = 32" "take 32 y ! k = y ! k" if "k < 32" for k
    using l that by simp_all
  ultimately have "\<forall>d\<in>set (take 32 y). \<bar>d\<bar> \<le> 129"
    by (metis in_set_conv_nth l length_take min_def nth_take numeral_le_iff semiring_norm(69) semiring_norm(71) semiring_norm(72))
  moreover have "bval (take 32 y) = bval y" by (subst (2) s) (simp add: bval_append)
  ultimately show ?thesis using s y(2) l by (intro exI [of _ "take 32 y"]) simp
qed


lemma carry_sign:
  assumes "- N25519 \<le> w" "w < N25519" "b + 256 ^ 32 * c = w" "0 \<le> b" "b < 256 ^ 32"
  shows "c = (if w < 0 then - 1 else 0)" "w - c * N25519 = w mod N25519"
proof -
  have n: "N25519 < 256 ^ 32" by (simp add: N25519_def)
  show c: "c = (if w < 0 then - 1 else 0)" using assms n by (auto simp: N25519_def)
  show "w - c * N25519 = w mod N25519"
  proof (cases "w < 0")
    case True
    have "w mod N25519 = (w + N25519) mod N25519" by simp
    also have "\<dots> = w + N25519" using assms(1) True by (intro mod_pos_pos_trivial) simp_all
    finally show ?thesis using c True by simp
  qed (use c assms(2) in simp)
qed

lemma modL_value:
  assumes "row_start x"
  shows "modL x = le_bytes 32 (nat (bval x mod N25519))" "length (modL x) = 32"
proof -
  obtain ds where ds: "fold modL_row (rev [32..<64]) x = ds @ replicate 32 0" "length ds = 32"
    "\<forall>d\<in>set ds. \<bar>d\<bar> \<le> 129" "bval ds mod N25519 = bval x mod N25519"
    using rows_result [OF assms] by blast
  define u where "u = drop_bit 4 (int32 (last ds))"
  have "ds \<noteq> []" using ds(2) by auto
  then have last: "\<bar>last ds\<bar> \<le> 129" using ds(3) by simp
  have u: "u = last ds div 16" using last by (simp add: u_def int32_id drop_bit_eq_div)
  note range = top_digit_range [OF ds(2,3), folded u]
  define w where "w = bval ds - u * N25519"
  define vs where "vs = map2 (\<lambda>x l. x - u * l) ds L25519"
  define r where "r = byte_carries 0 vs"
  have vs: "bval vs = w" "length vs = 32"
    using bval_map2 [of ds L25519 u] ds(2) bval_L25519 by (simp_all add: vs_def w_def)
  have r: "bval (fst r) + 256 ^ 32 * snd r = w" "length (fst r) = 32" "\<forall>d\<in>set (fst r). 0 \<le> d \<and> d < 256"
    using byte_carries_value [of 0 vs] vs by (simp_all add: r_def)
  have b: "0 \<le> bval (fst r)" "bval (fst r) < 256 ^ 32" using bytes_bounds [OF r(3)] r(2) by simp_all
  define c where "c = snd r"
  note c = carry_sign [OF range(1,2) [folded w_def] r(1) b, folded c_def]
  have one: "fold modL_low [0..<32] (ds @ replicate 32 0, 0) = (fst r @ replicate 32 0, c)"
    using fold_modL_low [of "[]" ds u 0 "replicate 32 0"] ds(2,3) u_def \<open>ds \<noteq> []\<close> range(3)
    by (fastforce simp: Let_def r_def vs_def c_def)
  define zs where "zs = map2 (\<lambda>x l. x - c * l) (fst r) L25519"
  have two: "fold (\<lambda>j x. x[j := x ! j - c * L25519 ! j]) [0..<32] (fst r @ replicate 32 0) = zs @ replicate 32 0"
    using fold_add_order [of "[]" "fst r" c "replicate 32 0"] r(2) by (simp add: zs_def)
  have zs: "bval zs = bval (fst r) - c * N25519" "length zs = 32"
    using bval_map2 [of "fst r" L25519 c] r(2) bval_L25519 by (simp_all add: zs_def)
  have "\<bar>y - c * l\<bar> \<le> 1000" if "(y, l) \<in> set (zip (fst r) L25519)" for y l
  proof -
    have "0 \<le> y" "y < 256" using r(3) set_zip_leftD [OF that] by simp_all
    moreover have "0 \<le> l" "l \<le> 255" using L25519_digits [OF set_zip_rightD [OF that]] by simp_all
    ultimately show ?thesis using c(1) by auto
  qed
  then have zb: "\<forall>z\<in>set zs. \<bar>z\<bar> \<le> 1000" by (auto simp: zs_def)
  define o' where "o' = fst (byte_carries 0 zs)"
  have out: "add_head 0 (zs @ replicate 32 0) = zs @ replicate 32 0"
    using zs(2) by (cases zs) simp_all
  have three: "snd (fold modL_out [0..<32] (zs @ replicate 32 0, [])) = map word_of_int o'"
    using fold_modL_out [of "[]" zs 0 "replicate 32 0" "[]"] zs(2) zb unfolding append_Nil out
    by (simp add: o'_def)
  have m: "modL x = map word_of_int o'"
    by (simp only: modL_def Let_def ds(1) one prod.case two three)
  have o: "bval o' + 256 ^ 32 * snd (byte_carries 0 zs) = bval zs" "length o' = 32" "\<forall>d\<in>set o'. 0 \<le> d \<and> d < 256"
    using byte_carries_value [of 0 zs] zs(2) by (simp_all add: o'_def)
  have "bval zs = w mod N25519 - 256 ^ 32 * c"
    using zs(1) r(1) c(2) unfolding c_def by linarith
  then have "bval o' mod 256 ^ 32 = (w mod N25519 + 256 ^ 32 * (- c - snd (byte_carries 0 zs))) mod 256 ^ 32"
    using o(1) by (intro arg_cong2 [where f = "(mod)"] refl) (simp add: algebra_simps)
  then have "bval o' mod 256 ^ 32 = w mod N25519 mod 256 ^ 32" by (simp only: mod_mult_self2)
  moreover have "bval o' mod 256 ^ 32 = bval o'" using bytes_bounds [OF o(3)] o(2) by simp
  moreover have nn: "0 \<le> w mod N25519" "w mod N25519 < N25519" by (simp_all add: N25519_def)
  then have "w mod N25519 mod 256 ^ 32 = w mod N25519" by (simp add: N25519_def)
  moreover have "w mod N25519 = bval ds mod N25519"
  proof -
    have "w = bval ds + N25519 * (- u)" by (simp add: w_def)
    then show ?thesis by (simp only: mod_mult_self2)
  qed
  ultimately have ov: "bval o' = bval x mod N25519" using ds(4) by simp
  have "int (le_val (map word_of_int o' :: bytes)) = bval x mod N25519"
    using le_val_digits [OF o(3)] ov by simp
  moreover have "nat (bval x mod N25519) < 256 ^ 32"
    using pos_mod_bound [of N25519 "bval x"] by (simp add: N25519_def)
  ultimately show "modL x = le_bytes 32 (nat (bval x mod N25519))"
    unfolding m by (intro le_bytes_unique) (simp_all add: o(2))
  show "length (modL x) = 32" by (simp add: m o(2))
qed

lemma bval_uint: "bval (map uint b) = int (le_val b)"
  by (induction b) simp_all

lemma reduce25519_value:
  assumes "length b = 64"
  shows "reduce25519 b = le_bytes 32 (le_val b mod nat N25519) @ replicate 32 0"
proof -
  let ?x = "map (\<lambda>i. uint (u8 b i)) [0..<64]"
  have x: "?x = map uint b"
    by (rule nth_equalityI) (use assms in \<open>simp_all add: u8_def\<close>)
  have "uint w \<le> 2097152" for w :: "8 word" using uint_bounded [of w] by simp
  then have "row_start ?x" by (auto simp: row_start_def)
  then have "modL ?x = le_bytes 32 (nat (bval ?x mod N25519))" by (rule modL_value)
  also have "nat (bval ?x mod N25519) = le_val b mod nat N25519"
    unfolding x bval_uint by (simp add: nat_mod_distrib N25519_def)
  finally show ?thesis by (simp add: reduce25519_def)
qed

end
