(* ===== verification/Ed25519.thy ===== *)
theory Ed25519
  imports ModL Sha512
begin

text \<open>
  Curve25519 in nacl-fast.ts: the points of Ed25519 in extended coordinates, signatures and their
  verification, the Montgomery ladder of X25519, and the functions of the high-level API.
\<close>

section \<open>Points\<close>

type_synonym point = "gf \<times> gf \<times> gf \<times> gf"

definition gf_D :: gf where
  "gf_D = gf [0x78a3, 0x1359, 0x4dca, 0x75eb, 0xd8ab, 0x4141, 0x0a4d, 0x0070,
    0xe898, 0x7779, 0x4079, 0x8cc7, 0xfe73, 0x2b6f, 0x6cee, 0x5203]"

definition gf_D2 :: gf where
  "gf_D2 = gf [0xf159, 0x26b2, 0x9b94, 0xebd6, 0xb156, 0x8283, 0x149a, 0x00e0,
    0xd130, 0xeef3, 0x80f2, 0x198e, 0xfce7, 0x56df, 0xd9dc, 0x2406]"

definition gf_X :: gf where
  "gf_X = gf [0xd51a, 0x8f25, 0x2d60, 0xc956, 0xa7b2, 0x9525, 0xc760, 0x692c,
    0xdc5c, 0xfdd6, 0xe231, 0xc0a4, 0x53fe, 0xcd6e, 0x36d3, 0x2169]"

definition gf_Y :: gf where
  "gf_Y = gf (0x6658 # replicate 15 0x6666)"

definition gf_I :: gf where
  "gf_I = gf [0xa0b0, 0x4a0e, 0x1b27, 0xc4ee, 0xe478, 0xad2f, 0x1806, 0x2f43,
    0xd7a7, 0x3dfb, 0x0099, 0x2b4d, 0xdf0b, 0x4fc1, 0x2480, 0x2b83]"

fun ed_add :: "point \<Rightarrow> point \<Rightarrow> point" where
  "ed_add (p0, p1, p2, p3) (q0, q1, q2, q3) =
     (let a = Z25519 p1 p0; t = Z25519 q1 q0; a = M25519 a t;
          b = A25519 p0 p1; t = A25519 q0 q1; b = M25519 b t;
          c = M25519 p3 q3; c = M25519 c gf_D2;
          d = M25519 p2 q2; d = A25519 d d;
          e = Z25519 b a; f = Z25519 d c; g = A25519 d c; h = A25519 b a
      in (M25519 e f, M25519 h g, M25519 g f, M25519 e h))"

fun ed_cswap :: "point \<Rightarrow> point \<Rightarrow> int \<Rightarrow> point \<times> point" where
  "ed_cswap (p0, p1, p2, p3) (q0, q1, q2, q3) b =
     (let (p0, q0) = sel25519 p0 q0 b; (p1, q1) = sel25519 p1 q1 b;
          (p2, q2) = sel25519 p2 q2 b; (p3, q3) = sel25519 p3 q3 b
      in ((p0, p1, p2, p3), (q0, q1, q2, q3)))"

fun ed_pack :: "point \<Rightarrow> bytes" where
  "ed_pack (p0, p1, p2, p3) =
     (let zi = inv25519 p2; tx = M25519 p0 zi; ty = M25519 p1 zi; r = pack25519 ty
      in r[31 := u8 r 31 XOR push_bit 7 (par25519 tx)])"

definition scalar_bit :: "bytes \<Rightarrow> nat \<Rightarrow> int" where
  "scalar_bit s i = uint (drop_bit (i mod 8) (u8 s (i div 8)) AND 1)"

definition scalarmult_step :: "bytes \<Rightarrow> nat \<Rightarrow> point \<times> point \<Rightarrow> point \<times> point" where
  "scalarmult_step s i = (\<lambda>(p, q).
     let b = scalar_bit s i; (p, q) = ed_cswap p q b; q = ed_add q p; p = ed_add p p
     in ed_cswap p q b)"

definition ed_scalarmult :: "point \<Rightarrow> bytes \<Rightarrow> point" where
  "ed_scalarmult q s = fst (fold (scalarmult_step s) (rev [0..<256]) ((gf0, gf1, gf1, gf0), q))"

definition ed_scalarbase :: "bytes \<Rightarrow> point" where
  "ed_scalarbase s = ed_scalarmult (gf_X, gf_Y, gf1, M25519 gf_X gf_Y) s"

section \<open>Signatures\<close>

definition clamp_scalar :: "bytes \<Rightarrow> bytes" where
  "clamp_scalar d =
     (let d = d[0 := u8 d 0 AND 248]; d = d[31 := u8 d 31 AND 127] in d[31 := u8 d 31 OR 64])"

definition crypto_sign_keypair :: "bytes \<Rightarrow> bytes \<times> bytes" where
  "crypto_sign_keypair seed =
     (let d = clamp_scalar (crypto_hash seed); pk = ed_pack (ed_scalarbase d) in (pk, seed @ pk))"

definition sign_row :: "bytes \<Rightarrow> bytes \<Rightarrow> nat \<Rightarrow> int list \<Rightarrow> int list" where
  "sign_row h d i x =
     fold (\<lambda>j x. x[i + j := x ! (i + j) + uint (u8 h i) * uint (u8 d j)]) [0..<32] x"

definition crypto_sign :: "bytes \<Rightarrow> bytes \<Rightarrow> bytes" where
  "crypto_sign m sk =
     (let d = clamp_scalar (crypto_hash (take 32 sk));
          r = reduce25519 (crypto_hash (drop 32 d @ m));
          R = ed_pack (ed_scalarbase r);
          h = reduce25519 (crypto_hash (R @ drop 32 sk @ m));
          x = map (\<lambda>i. if i < 32 then uint (u8 r i) else 0) [0..<64];
          x = fold (sign_row h d) [0..<32] x
      in R @ modL x @ m)"

definition unpackneg :: "bytes \<Rightarrow> point option" where
  "unpackneg p =
     (let r2 = gf1; r1 = unpack25519 p;
          num = S25519 r1; den = M25519 num gf_D; num = Z25519 num r2; den = A25519 r2 den;
          den2 = S25519 den; den4 = S25519 den2; den6 = M25519 den4 den2;
          t = M25519 den6 num; t = M25519 t den;
          t = pow2523 t; t = M25519 t num; t = M25519 t den; t = M25519 t den; r0 = M25519 t den;
          chk = S25519 r0; chk = M25519 chk den;
          r0 = (if neq25519 chk num \<noteq> 0 then M25519 r0 gf_I else r0);
          chk = S25519 r0; chk = M25519 chk den
      in if neq25519 chk num \<noteq> 0 then None
         else let r0 = (if par25519 r0 = drop_bit 7 (u8 p 31) then Z25519 gf0 r0 else r0)
              in Some (r0, r1, r2, M25519 r0 r1))"

definition crypto_sign_open :: "bytes \<Rightarrow> bytes \<Rightarrow> bytes option" where
  "crypto_sign_open sm pk =
     (if length sm < 64 then None
      else case unpackneg pk of
        None \<Rightarrow> None
      | Some q \<Rightarrow>
          let h = reduce25519 (crypto_hash (take 32 sm @ pk @ drop 64 sm));
              p = ed_scalarmult q h; q = ed_scalarbase (drop 32 sm); p = ed_add p q; t = ed_pack p
          in if crypto_verify_32 sm t \<noteq> 0 then None else Some (drop 64 sm))"

section \<open>X25519\<close>

definition ladder_step :: "bytes \<Rightarrow> gf \<Rightarrow> nat \<Rightarrow> gf \<times> gf \<times> gf \<times> gf \<Rightarrow> gf \<times> gf \<times> gf \<times> gf" where
  "ladder_step z x i = (\<lambda>(a, b, c, d).
     let r = scalar_bit z i; (a, b) = sel25519 a b r; (c, d) = sel25519 c d r;
         e = A25519 a c; a = Z25519 a c; c = A25519 b d; b = Z25519 b d;
         d = S25519 e; f = S25519 a; a = M25519 c a; c = M25519 b e;
         e = A25519 a c; a = Z25519 a c; b = S25519 a; c = Z25519 d f;
         a = M25519 c gf_121665; a = A25519 a d; c = M25519 c a; a = M25519 d f;
         d = M25519 b x; b = S25519 e;
         (a, b) = sel25519 a b r; (c, d) = sel25519 c d r
     in (a, b, c, d))"

definition clamp_x25519 :: "bytes \<Rightarrow> bytes" where
  "clamp_x25519 n =
     (let z = map (u8 n) [0..<31] @ [(u8 n 31 AND 127) OR 64] in z[0 := u8 z 0 AND 248])"

definition crypto_scalarmult :: "bytes \<Rightarrow> bytes \<Rightarrow> bytes" where
  "crypto_scalarmult n p =
     (let z = clamp_x25519 n; x = unpack25519 p;
          (a, b, c, d) = fold (ladder_step z x) (rev [0..<255]) (gf1, x, gf0, gf1)
      in pack25519 (M25519 a (inv25519 c)))"

definition crypto_scalarmult_base :: "bytes \<Rightarrow> bytes" where
  "crypto_scalarmult_base n = crypto_scalarmult n ((replicate 32 0)[0 := 9])"

section \<open>The high-level API\<close>

definition scalarMult :: "bytes \<Rightarrow> bytes \<Rightarrow> bytes js" where
  "scalarMult n p =
     (if length n \<noteq> 32 then Inl (JsError ''bad n size'')
      else if length p \<noteq> 32 then Inl (JsError ''bad p size'')
      else Inr (crypto_scalarmult n p))"

definition scalarMult_base :: "bytes \<Rightarrow> bytes js" where
  "scalarMult_base n =
     (if length n \<noteq> 32 then Inl (JsError ''bad n size'') else Inr (crypto_scalarmult_base n))"

definition nacl_sign :: "bytes \<Rightarrow> bytes \<Rightarrow> bytes js" where
  "nacl_sign msg secretKey =
     (if length secretKey \<noteq> 64 then Inl (JsError ''bad secret key size'')
      else Inr (crypto_sign msg secretKey))"

definition sign_open :: "bytes \<Rightarrow> bytes \<Rightarrow> bytes option js" where
  "sign_open signedMsg publicKey =
     (if length publicKey \<noteq> 32 then Inl (JsError ''bad public key size'')
      else Inr (crypto_sign_open signedMsg publicKey))"

definition sign_detached :: "bytes \<Rightarrow> bytes \<Rightarrow> bytes js" where
  "sign_detached msg secretKey = js_bind (nacl_sign msg secretKey) (\<lambda>signedMsg. Inr (take 64 signedMsg))"

definition sign_detached_verify :: "bytes \<Rightarrow> bytes \<Rightarrow> bytes \<Rightarrow> bool js" where
  "sign_detached_verify msg sig publicKey =
     (if length sig \<noteq> 64 then Inl (JsError ''bad signature size'')
      else if length publicKey \<noteq> 32 then Inl (JsError ''bad public key size'')
      else Inr (crypto_sign_open (sig @ msg) publicKey \<noteq> None))"

definition crypto_sign_keyPair_fromSeed :: "bytes \<Rightarrow> (bytes \<times> bytes) js" where
  "crypto_sign_keyPair_fromSeed seed =
     (if length seed \<noteq> 32 then Inl (JsError (''bad seed size: '' @ nat_str (length seed)))
      else Inr (crypto_sign_keypair seed))"

definition crypto_sign_keyPair_fromSecretKey :: "bytes \<Rightarrow> (bytes \<times> bytes) js" where
  "crypto_sign_keyPair_fromSecretKey secretKey =
     (if length secretKey \<noteq> 64 then Inl (JsError ''bad secret key size'')
      else Inr (drop 32 secretKey, secretKey))"

definition x25519_edwards_keyPair_fromSecretKey :: "bytes \<Rightarrow> bytes js" where
  "x25519_edwards_keyPair_fromSecretKey secretKey =
     (if length secretKey \<noteq> 32 then Inl (JsError ''bad secret key size'')
      else Inr (ed_pack (ed_scalarbase (clamp_scalar (secretKey @ replicate 32 0)))))"

text \<open>
  The length of the key is not checked.  The missing bytes of a key of 29 to 31 bytes read as zeros;
  in a shorter one some limb is \<open>NaN\<close>, which spreads to every product and makes every packed byte
  and both comparisons of \<open>unpackneg\<close> zero.
\<close>

definition sign_ed25519_pk_to_curve25519 :: "bytes \<Rightarrow> bytes js" where
  "sign_ed25519_pk_to_curve25519 ed25519_pk =
     (if length ed25519_pk < 29 then Inr (replicate 32 0) else case unpackneg ed25519_pk of
        None \<Rightarrow> Inl (JsError ''invalid public key'')
      | Some (r0, r1, r2, r3) \<Rightarrow>
          let one_minus_y = Z25519 gf1 r1; x = A25519 gf1 r1; one_minus_y = inv25519 one_minus_y
          in Inr (pack25519 (M25519 x one_minus_y)))"

section \<open>Lengths\<close>

lemma length_car_fold: "length (fst (fold car_step is tc)) = length (fst tc)"
  by (induction "is" arbitrary: tc) (auto simp: car_step_def Let_def split: prod.split)

lemma length_car: "length (car25519 t) = length t"
  using length_car_fold [of "[0..<16]" "(t, 1)"] by (auto simp: car25519_def split: prod.splits)

lemma length_product: "length (M25519 a b) = 16"
  by (simp add: M25519_def M_fold_def length_car)

lemma length_sub_fold: "length (fold (pack_sub_step t) is m) = length m"
  by (induction "is" arbitrary: m) (simp_all add: pack_sub_step_def Let_def)

lemma length_pack_sub: "length t = 16 \<Longrightarrow> length (pack_sub t) = 16"
  by (simp add: pack_sub_def sel25519_def Let_def length_sub_fold gf0_def gf_def)

lemma length_packed: "length n = 16 \<Longrightarrow> length (pack25519 n) = 32"
  by (simp add: pack25519_def Let_def length_pack_sub length_car length_concat comp_def sum_list_triv)

lemma length_ed_pack: "length (ed_pack p) = 32"
  by (cases p) (simp add: Let_def length_packed length_product)

end
