(* ===== verification/TalerKeys.thy ===== *)
theory TalerKeys
  imports Crock Kdf Ed25519 Effects
begin

text \<open>
  The keys and signatures of talerCrypto.ts: Ed25519 and X25519 key pairs on top of nacl-fast.ts,
  the Diffie-Hellman exchange between the two kinds of keys, the planchets derived from a seed, and
  the blocks that are signed.
\<close>

section \<open>Keys and signatures\<close>

definition eddsaGetPublic :: "bytes \<Rightarrow> bytes js" where
  "eddsaGetPublic eddsaPriv = js_bind (crypto_sign_keyPair_fromSeed eddsaPriv) (\<lambda>(publicKey, secretKey). Inr publicKey)"

definition ecdheGetPublic :: "bytes \<Rightarrow> bytes js" where
  "ecdheGetPublic ecdhePriv = scalarMult_base ecdhePriv"

definition keyExchangeEddsaEcdhe :: "bytes \<Rightarrow> bytes \<Rightarrow> bytes js" where
  "keyExchangeEddsaEcdhe eddsaPriv ecdhePub =
     (let a = take 32 (nacl_hash eddsaPriv) in js_bind (scalarMult a ecdhePub) (\<lambda>x. Inr (nacl_hash x)))"

definition keyExchangeEcdheEddsa :: "bytes \<Rightarrow> bytes \<Rightarrow> bytes js" where
  "keyExchangeEcdheEddsa ecdhePriv eddsaPub =
     js_bind (sign_ed25519_pk_to_curve25519 eddsaPub) (\<lambda>curve25519Pub.
     js_bind (scalarMult ecdhePriv curve25519Pub) (\<lambda>x. Inr (nacl_hash x)))"

record EddsaKeyPair =
  eddsa_pub :: bytes
  eddsa_priv :: bytes

record EcdheKeyPair =
  ecdhe_pub :: bytes
  ecdhe_priv :: bytes

definition createEddsaKeyPair :: "EddsaKeyPair io" where
  "createEddsaKeyPair =
     io_bind (io_random 32) (\<lambda>priv. io_bind (io_js (eddsaGetPublic priv)) (\<lambda>pub.
     io_return \<lparr>eddsa_pub = pub, eddsa_priv = priv\<rparr>))"

definition createEcdheKeyPair :: "EcdheKeyPair io" where
  "createEcdheKeyPair =
     io_bind (io_random 32) (\<lambda>priv. io_bind (io_js (ecdheGetPublic priv)) (\<lambda>pub.
     io_return \<lparr>ecdhe_pub = pub, ecdhe_priv = priv\<rparr>))"

definition eddsaSign :: "bytes \<Rightarrow> bytes \<Rightarrow> bytes js" where
  "eddsaSign msg eddsaPriv =
     js_bind (crypto_sign_keyPair_fromSeed eddsaPriv) (\<lambda>(publicKey, secretKey). sign_detached msg secretKey)"

definition eddsaVerify :: "bytes \<Rightarrow> bytes \<Rightarrow> bytes \<Rightarrow> bool js" where
  "eddsaVerify msg sig eddsaPub = sign_detached_verify msg sig eddsaPub"

section \<open>Planchets\<close>

text \<open>\<open>DataView.setUint32\<close>: four bytes, the most significant first.\<close>

definition be32 :: "nat \<Rightarrow> bytes" where
  "be32 n = map (\<lambda>s. ucast (drop_bit s (word_of_nat n :: 32 word))) [24, 16, 8, 0]"

record DenominationPubKey =
  dk_cipher :: nat
  rsa_public_key :: string
  age_mask :: "nat option"

definition hashDenomPub :: "DenominationPubKey \<Rightarrow> bytes js" where
  "hashDenomPub pub =
     (if dk_cipher pub \<noteq> 1 then Inl (JsError ''unsupported cipher'')
      else js_bind (decodeCrock (rsa_public_key pub)) (\<lambda>pubBuf.
           Inr (nacl_hash (be32 (case age_mask pub of Some m \<Rightarrow> m | None \<Rightarrow> 0) @ be32 (dk_cipher pub) @ pubBuf))))"

record FreshCoin =
  coinPub :: bytes
  coinPriv :: bytes
  bks :: bytes

definition setup_planchet :: "string \<Rightarrow> bytes \<Rightarrow> nat \<Rightarrow> FreshCoin js" where
  "setup_planchet info secretSeed coinNumber =
     js_bind (kdf 64 secretSeed (Some (be32 coinNumber)) (Some (stringToBytes info))) (\<lambda>out.
     let priv = take 32 out; b = take 32 (drop 32 out)
     in js_bind (eddsaGetPublic priv) (\<lambda>pub. Inr \<lparr>coinPub = pub, coinPriv = priv, bks = b\<rparr>))"

definition setupRefreshPlanchet :: "bytes \<Rightarrow> nat \<Rightarrow> FreshCoin js" where
  "setupRefreshPlanchet = setup_planchet ''taler-coin-derivation''"

definition setupWithdrawPlanchet :: "bytes \<Rightarrow> nat \<Rightarrow> FreshCoin js" where
  "setupWithdrawPlanchet = setup_planchet ''taler-withdrawal-coin-derivation''"

definition setupTipPlanchet :: "bytes \<Rightarrow> nat \<Rightarrow> FreshCoin js" where
  "setupTipPlanchet = setup_planchet ''taler-tip-coin-derivation''"

definition setupRefreshTransferPub :: "bytes \<Rightarrow> nat \<Rightarrow> EcdheKeyPair js" where
  "setupRefreshTransferPub secretSeed transferPubIndex =
     js_bind (kdf 32 secretSeed (Some (be32 transferPubIndex)) (Some (stringToBytes ''taler-transfer-pub-derivation'')))
       (\<lambda>out. js_bind (ecdheGetPublic out) (\<lambda>pub. Inr \<lparr>ecdhe_pub = pub, ecdhe_priv = out\<rparr>))"

section \<open>Signature blocks\<close>

record signature_purpose =
  sp_chunks :: "bytes list"
  sp_purposeNum :: nat

definition ANASTASIS_POLICY_UPLOAD :: nat where "ANASTASIS_POLICY_UPLOAD = 1400"

definition buildSigPS :: "nat \<Rightarrow> signature_purpose" where
  "buildSigPS purposeNum = \<lparr>sp_chunks = [], sp_purposeNum = purposeNum\<rparr>"

definition sp_put :: "bytes \<Rightarrow> signature_purpose \<Rightarrow> signature_purpose" where
  "sp_put b s = s\<lparr>sp_chunks := sp_chunks s @ [b]\<rparr>"

definition sp_build :: "signature_purpose \<Rightarrow> bytes" where
  "sp_build s =
     (let payloadLen = sum_list (map length (sp_chunks s))
      in be32 (payloadLen + 4 + 4) @ be32 (sp_purposeNum s) @ concat (sp_chunks s))"

lemma length_be32 [simp]: "length (be32 n) = 4"
  by (simp add: be32_def)

lemma be32_inj: "be32 m = be32 n \<Longrightarrow> m mod 2 ^ 32 = n mod 2 ^ 32"
proof -
  assume eq: "be32 m = be32 n"
  have byte: "bit (ucast (drop_bit s (word_of_nat m :: 32 word)) :: 8 word) j
      = bit (ucast (drop_bit s (word_of_nat n :: 32 word)) :: 8 word) j" if "s \<in> {0, 8, 16, 24}" for s j
    using eq that by (auto simp: be32_def)
  have "(word_of_nat m :: 32 word) = word_of_nat n"
  proof (rule bit_word_eqI)
    fix i assume "i < LENGTH(32)"
    then have "i < 8 \<or> 8 \<le> i \<and> i < 16 \<or> 16 \<le> i \<and> i < 24 \<or> 24 \<le> i \<and> i < 32" by auto
    then show "bit (word_of_nat m :: 32 word) i = bit (word_of_nat n :: 32 word) i"
      using byte [of 0 i] byte [of 8 "i - 8"] byte [of 16 "i - 16"] byte [of 24 "i - 24"]
      by (elim disjE) (auto simp: bit_simps)
  qed
  then show ?thesis by (simp add: word_unat_eq_iff unat_of_nat take_bit_eq_mod)
qed

text \<open>
  A block with one chunk, as the upload signs: the length of the block, the purpose, the chunk.
  Different payloads or purposes never give the same block.
\<close>

lemma sp_build_one: "sp_build (sp_put b (buildSigPS n)) = be32 (length b + 8) @ be32 n @ b"
  by (simp add: sp_build_def sp_put_def buildSigPS_def add.commute)

lemma sp_build_inj:
  "sp_build (sp_put b (buildSigPS n)) = sp_build (sp_put c (buildSigPS m)) \<Longrightarrow> b = c \<and> n mod 2 ^ 32 = m mod 2 ^ 32"
  by (auto simp: sp_build_one dest: be32_inj)

end
