(* ===== verification/AnastasisCrypto.thy ===== *)
theory AnastasisCrypto
  imports TalerKeys Json
begin

text \<open>
  anastasis-core/src/crypto.ts: the identifiers and keys derived from the user's data, the
  authenticated encryption of key shares, truths, recovery documents and the core secret, and the
  hashes of answers.  Byte strings travel between the functions as Crockford base-32 strings, as
  in the code; \<open>argon2id\<close> comes from the environment.
\<close>

section \<open>Key derivation\<close>

definition argon2_params :: "bytes \<Rightarrow> bytes \<Rightarrow> argon2_options" where
  "argon2_params pw s =
     \<lparr>hashLength = 64, iterations = 3, memorySize = 1024, parallelism = 1, password = pw, argon_salt = s\<rparr>"

definition userIdentifierDerive :: "jsval \<Rightarrow> string \<Rightarrow> string io" where
  "userIdentifierDerive idData serverSalt =
     io_bind (io_js (canonicalJson idData)) (\<lambda>canonIdData.
     let hashInput = stringToBytes canonIdData
     in io_bind (io_js (decodeCrock serverSalt)) (\<lambda>s.
        io_bind (io_env (\<lambda>e. e_argon2id e (argon2_params hashInput s))) (\<lambda>result.
        io_return (encodeCrock result))))"

record AccountKeyPair =
  acct_priv :: string
  acct_pub :: string

definition accountKeypairDerive :: "string \<Rightarrow> AccountKeyPair io" where
  "accountKeypairDerive userId =
     io_bind (io_js (js_bind (decodeCrock userId) (\<lambda>k.
       kdfKw \<lparr>kdf_outputLength = 32, kdf_ikm = k, kdf_salt = None,
              kdf_info = Some (stringToBytes ''ver'')\<rparr>))) (\<lambda>d.
     io_bind (io_js (eddsaGetPublic d)) (\<lambda>pub.
     io_return \<lparr>acct_priv = encodeCrock d, acct_pub = encodeCrock pub\<rparr>))"

definition typedArrayConcat :: "bytes list \<Rightarrow> bytes" where
  "typedArrayConcat chunks =
     (let payloadLen = fold (\<lambda>c n. n + length c) chunks 0
      in fst (fold (\<lambda>c (buf, p). (take p buf @ c @ drop (p + length c) buf, p + length c)) chunks
           (replicate payloadLen 0, 0)))"

definition policyKeyDerive :: "string list \<Rightarrow> string \<Rightarrow> string js" where
  "policyKeyDerive keyShares policySalt =
     js_bind (js_map decodeCrock keyShares) (\<lambda>chunks.
     js_bind (decodeCrock policySalt) (\<lambda>s.
     js_bind (kdfKw \<lparr>kdf_outputLength = 64, kdf_ikm = typedArrayConcat chunks, kdf_salt = Some s,
       kdf_info = Some (stringToBytes ''anastasis-policy-key-derive'')\<rparr>) (\<lambda>polKey.
     Inr (encodeCrock polKey))))"

definition deriveKey :: "string \<Rightarrow> string \<Rightarrow> string \<Rightarrow> bytes js" where
  "deriveKey keySeed nonce slt =
     js_bind (decodeCrock nonce) (\<lambda>s. js_bind (decodeCrock keySeed) (\<lambda>k.
       kdfKw \<lparr>kdf_outputLength = 32, kdf_ikm = k, kdf_salt = Some s, kdf_info = Some (stringToBytes slt)\<rparr>))"

section \<open>Authenticated encryption\<close>

definition nonceSize :: nat where "nonceSize = 24"
definition masterKeySize :: nat where "masterKeySize = 64"

definition anastasisEncrypt :: "string \<Rightarrow> string \<Rightarrow> string \<Rightarrow> string \<Rightarrow> string js" where
  "anastasisEncrypt nonce keySeed plaintext slt =
     js_bind (deriveKey keySeed nonce slt) (\<lambda>key.
     js_bind (decodeCrock nonce) (\<lambda>nonceBuf.
     js_bind (decodeCrock plaintext) (\<lambda>p. js_bind (decodeCrock nonce) (\<lambda>n.
     js_bind (secretbox p n key) (\<lambda>cipherText.
     Inr (encodeCrock (typedArrayConcat [nonceBuf, cipherText])))))))"

definition anastasisDecrypt :: "string \<Rightarrow> string \<Rightarrow> string \<Rightarrow> string js" where
  "anastasisDecrypt keySeed ciphertext slt =
     js_bind (decodeCrock ciphertext) (\<lambda>ctBuf.
     let nonceBuf = take nonceSize ctBuf; enc = drop nonceSize ctBuf
     in js_bind (deriveKey keySeed (encodeCrock nonceBuf) slt) (\<lambda>key.
        js_bind (secretbox_open enc nonceBuf key) (\<lambda>cipherText.
        case cipherText of
          None \<Rightarrow> Inl (JsError ''could not decrypt'')
        | Some p \<Rightarrow> Inr (encodeCrock p))))"

definition asOpaque :: "string \<Rightarrow> string" where
  "asOpaque x = x"

definition encryptRecoveryDocument :: "string \<Rightarrow> string \<Rightarrow> string io" where
  "encryptRecoveryDocument userId recoveryDocData =
     io_bind (io_random nonceSize) (\<lambda>b.
     io_js (anastasisEncrypt (encodeCrock b) (asOpaque userId) recoveryDocData ''erd''))"

definition decryptRecoveryDocument :: "string \<Rightarrow> string \<Rightarrow> string js" where
  "decryptRecoveryDocument userId recoveryDocData =
     anastasisDecrypt (asOpaque userId) recoveryDocData ''erd''"

definition encryptKeyshare :: "string \<Rightarrow> string \<Rightarrow> string option \<Rightarrow> string io" where
  "encryptKeyshare keyShare userId answerSalt =
     (let s = (case answerSalt of Some a \<Rightarrow> a | None \<Rightarrow> ''eks'')
      in io_bind (io_random 24) (\<lambda>b.
         io_js (anastasisEncrypt (encodeCrock b) (asOpaque userId) (asOpaque keyShare) s)))"

definition decryptKeyShare :: "string \<Rightarrow> string \<Rightarrow> string option \<Rightarrow> string js" where
  "decryptKeyShare encKeyShare userId answerSalt =
     (let s = (case answerSalt of Some a \<Rightarrow> a | None \<Rightarrow> ''eks'')
      in anastasisDecrypt (asOpaque userId) (asOpaque encKeyShare) s)"

definition encryptTruth :: "string \<Rightarrow> string \<Rightarrow> string \<Rightarrow> string js" where
  "encryptTruth nonce truthEncKey truth =
     anastasisEncrypt nonce (asOpaque truthEncKey) truth ''ect''"

definition decryptTruth :: "string \<Rightarrow> string \<Rightarrow> string js" where
  "decryptTruth truthEncKey truthEnc =
     anastasisDecrypt (asOpaque truthEncKey) (asOpaque truthEnc) ''ect''"

section \<open>The core secret\<close>

record CoreSecretEncResult =
  encCoreSecret :: string
  encMasterKeys :: "string list"

definition coreSecretRecover :: "string \<Rightarrow> string \<Rightarrow> string \<Rightarrow> string js" where
  "coreSecretRecover encryptedMasterKey policyKey encryptedCoreSecret =
     js_bind (anastasisDecrypt (asOpaque policyKey) encryptedMasterKey ''emk'') (\<lambda>masterKey.
     anastasisDecrypt masterKey encryptedCoreSecret ''cse'')"

definition encryptMasterKey :: "bytes \<Rightarrow> string \<Rightarrow> string list \<Rightarrow> string list io" where
  "encryptMasterKey masterKey pk keys =
     io_bind (io_random nonceSize) (\<lambda>pn.
     let polNonce = encodeCrock pn
     in io_bind (io_js (anastasisEncrypt polNonce (asOpaque pk) (encodeCrock masterKey) ''emk'')) (\<lambda>k.
        io_return (keys @ [k])))"

definition coreSecretEncrypt :: "string list \<Rightarrow> string \<Rightarrow> CoreSecretEncResult io" where
  "coreSecretEncrypt policyKeys coreSecret =
     io_bind (io_random masterKeySize) (\<lambda>masterKey.
     io_bind (io_random nonceSize) (\<lambda>nb.
     let nonce = encodeCrock nb
     in io_bind (io_js (anastasisEncrypt nonce (encodeCrock masterKey) coreSecret ''cse'')) (\<lambda>ecs.
        io_bind (io_fold (encryptMasterKey masterKey) policyKeys []) (\<lambda>keys.
        io_return \<lparr>encCoreSecret = ecs, encMasterKeys = keys\<rparr>))))"

section \<open>Answers\<close>

text \<open>A number that may be \<open>NaN\<close> (\<open>None\<close>), integral and below \<open>2^53\<close> otherwise.\<close>

definition js_number_str :: "int option \<Rightarrow> string" where
  "js_number_str n = (case n of None \<Rightarrow> ''NaN'' | Some i \<Rightarrow> json_int i)"

definition pinAnswerHash :: "int option \<Rightarrow> string" where
  "pinAnswerHash pin = encodeCrock (nacl_hash (stringToBytes (js_number_str pin)))"

definition secureAnswerHash :: "string \<Rightarrow> string \<Rightarrow> string \<Rightarrow> string io" where
  "secureAnswerHash answer truthUuid questionSalt =
     io_bind (io_js (decodeCrock questionSalt)) (\<lambda>s.
     io_bind (io_env (\<lambda>e. e_argon2id e (argon2_params (stringToBytes answer) s))) (\<lambda>powResult.
     io_bind (io_js (decodeCrock truthUuid)) (\<lambda>u.
     io_bind (io_js (kdfKw \<lparr>kdf_outputLength = 64, kdf_ikm = powResult, kdf_salt = Some u,
       kdf_info = Some (stringToBytes ''anastasis-secure-question-hashing'')\<rparr>)) (\<lambda>kdfResult.
     io_return (encodeCrock kdfResult)))))"

section \<open>What was sealed is recovered\<close>

lemma typedArrayConcat_eq: "typedArrayConcat chunks = concat chunks"
proof -
  have len: "fold (\<lambda>c n. n + length c) cs n = n + length (concat cs)" for cs :: "bytes list" and n
    by (induction cs arbitrary: n) auto
  have "fold (\<lambda>c (buf, p). (take p buf @ c @ drop (p + length c) buf, p + length c)) cs
      (pre @ replicate (length (concat cs)) 0, length pre) = (pre @ concat cs, length (pre @ concat cs))"
    for cs :: "bytes list" and pre
  proof (induction cs arbitrary: pre)
    case (Cons c cs)
    from Cons.IH [of "pre @ c"] show ?case by simp
  qed simp
  from this [of chunks "[]"] len [of chunks 0] show ?thesis
    by (simp add: typedArrayConcat_def)
qed

text \<open>Strings that hold bytes, in the spelling the encoder chooses.\<close>

definition is_crock :: "string \<Rightarrow> bool" where
  "is_crock s \<longleftrightarrow> (\<exists>b. decodeCrock s = Inr b)"

definition crock_of :: "string \<Rightarrow> bool" where
  "crock_of s \<longleftrightarrow> (\<exists>b. s = encodeCrock b)"

lemma crock_of_encode [simp]: "crock_of (encodeCrock b)"
  by (auto simp: crock_of_def)

lemma crock_of_is_crock [simp]: "crock_of s \<Longrightarrow> is_crock s"
  by (auto simp: crock_of_def is_crock_def decodeCrock_encodeCrock)

lemma kdfKw_ok: "\<exists>b. kdfKw a = Inr b \<and> length b = kdf_outputLength a"
  using kdf_length by (auto simp: kdfKw_def kdf_eq)

text \<open>
  The contract of the encryption under a seed: what was encrypted is what is decrypted, by
  whoever has the seed.  Clients chain keys: a secret under a fresh key, that key under another.
\<close>

locale sealing =
  fixes enc :: "'n \<Rightarrow> 'k \<Rightarrow> 'p \<Rightarrow> 'p js"
    and dec :: "'k \<Rightarrow> 'p \<Rightarrow> 'p js"
    and nonce_ok :: "'n \<Rightarrow> bool" and key_ok :: "'k \<Rightarrow> bool" and plain_ok :: "'p \<Rightarrow> bool"
  assumes open_seal: "nonce_ok n \<Longrightarrow> key_ok k \<Longrightarrow> plain_ok p \<Longrightarrow> \<exists>c. enc n k p = Inr c \<and> dec k c = Inr p"
begin

lemma dec_enc: "enc n k p = Inr c \<Longrightarrow> nonce_ok n \<Longrightarrow> key_ok k \<Longrightarrow> plain_ok p \<Longrightarrow> dec k c = Inr p"
  using open_seal [of n k p] by auto

lemma enc_inj:
  "enc n k p = Inr c \<Longrightarrow> enc m k q = Inr c \<Longrightarrow> nonce_ok n \<Longrightarrow> nonce_ok m \<Longrightarrow> key_ok k \<Longrightarrow>
    plain_ok p \<Longrightarrow> plain_ok q \<Longrightarrow> p = q"
  using dec_enc [of n k p c] dec_enc [of m k q c] by simp

end

definition nonce_str :: "string \<Rightarrow> bool" where
  "nonce_str n \<longleftrightarrow> (\<exists>b. n = encodeCrock b \<and> length b = nonceSize)"

lemma deriveKey_ok:
  "is_crock k \<Longrightarrow> is_crock n \<Longrightarrow> \<exists>b. deriveKey k n s = Inr b \<and> length b = 32"
  using kdfKw_ok by (fastforce simp: deriveKey_def is_crock_def)

lemma anastasisEncrypt_eq:
  assumes n: "length nb = 24" and k: "deriveKey k (encodeCrock nb) s = Inr key" "length key = 32"
  shows "anastasisEncrypt (encodeCrock nb) k (encodeCrock p) s
    = Inr (encodeCrock (nb @ (let c = map2 (XOR) p (box_pad (length p) nb key) in box_mac c nb key @ c)))"
  by (simp add: anastasisEncrypt_def k decodeCrock_encodeCrock secretbox_eq n typedArrayConcat_eq)

lemma anastasisDecrypt_eq:
  assumes n: "length nb = 24" and k: "deriveKey k (encodeCrock nb) s = Inr key" "length key = 32"
  shows "anastasisDecrypt k (encodeCrock (nb @ b)) s =
    (if 16 \<le> length b \<and> take 16 b = box_mac (drop 16 b) nb key
     then Inr (encodeCrock (map2 (XOR) (drop 16 b) (box_pad (length b - 16) nb key)))
     else Inl (JsError ''could not decrypt''))"
  by (simp add: anastasisDecrypt_def k decodeCrock_encodeCrock secretbox_open_eq n nonceSize_def Let_def)

lemma anastasis_open_seal:
  assumes "nonce_str n" "is_crock k" "crock_of p"
  shows "\<exists>c. anastasisEncrypt n k p s = Inr c \<and> crock_of c \<and> anastasisDecrypt k c s = Inr p"
proof -
  obtain nb q where n: "n = encodeCrock nb" "length nb = 24" and p: "p = encodeCrock q"
    using assms by (auto simp: nonce_str_def nonceSize_def crock_of_def)
  obtain key where key: "deriveKey k (encodeCrock nb) s = Inr key" "length key = 32"
    using deriveKey_ok [OF assms(2), of "encodeCrock nb" s] by auto
  show ?thesis
    using anastasisEncrypt_eq [OF n(2) key, of q] anastasisDecrypt_eq [OF n(2) key]
    by (simp add: n(1) p Let_def map2_xor_cancel)
qed

interpretation box: sealing "\<lambda>n k p. anastasisEncrypt n k p s" "\<lambda>k c. anastasisDecrypt k c s"
  nonce_str is_crock crock_of for s
  by unfold_locales (use anastasis_open_seal in blast)

text \<open>Key wrapping: the plaintext of the outer layer is the key of the inner one.\<close>

locale key_wrapping =
  outer: sealing enc1 dec1 nonce_ok1 key_ok1 plain_ok1 +
  inner: sealing enc2 dec2 nonce_ok2 key_ok2 plain_ok2
  for enc1 :: "'n \<Rightarrow> 'k \<Rightarrow> 'p \<Rightarrow> 'p js" and dec1 nonce_ok1 key_ok1 plain_ok1
    and enc2 :: "'m \<Rightarrow> 'p \<Rightarrow> 'q \<Rightarrow> 'q js" and dec2 nonce_ok2 key_ok2 plain_ok2 +
  assumes wrapped_key: "plain_ok1 k \<Longrightarrow> key_ok2 k"
begin

lemma unwrap:
  assumes "enc1 n k mk = Inr c" "nonce_ok1 n" "key_ok1 k" "plain_ok1 mk"
    and "enc2 m mk p = Inr d" "nonce_ok2 m" "plain_ok2 p"
  shows "js_bind (dec1 k c) (\<lambda>mk. dec2 mk d) = Inr p"
  using outer.dec_enc [OF assms(1-4)] inner.dec_enc [OF assms(5,6) wrapped_key [OF assms(4)] assms(7)]
  by simp

end

interpretation core: key_wrapping "\<lambda>n k p. anastasisEncrypt n k p ''emk''" "\<lambda>k c. anastasisDecrypt k c ''emk''"
  nonce_str is_crock crock_of "\<lambda>n k p. anastasisEncrypt n k p ''cse''" "\<lambda>k c. anastasisDecrypt k c ''cse''"
  nonce_str is_crock crock_of
  by unfold_locales simp

lemma random_nonce: "random_ok e \<Longrightarrow> nonce_str (encodeCrock (e_random e i nonceSize))"
  by (auto simp: nonce_str_def random_ok_def)

definition wraps :: "string \<Rightarrow> string \<Rightarrow> string \<Rightarrow> bool" where
  "wraps mk pk c \<longleftrightarrow> (\<exists>n. nonce_str n \<and> anastasisEncrypt n pk mk ''emk'' = Inr c)"

lemma encryptMasterKey_ok:
  assumes "random_ok e" "is_crock pk"
  shows "\<exists>c. wraps (encodeCrock mk) pk c
    \<and> encryptMasterKey mk pk keys e w = (Inr (keys @ [c]), w\<lparr>w_drawn := Suc (w_drawn w)\<rparr>)"
proof -
  let ?n = "encodeCrock (e_random e (w_drawn w) nonceSize)"
  obtain c where "anastasisEncrypt ?n pk (encodeCrock mk) ''emk'' = Inr c"
    using anastasis_open_seal [OF random_nonce [OF assms(1)] assms(2) crock_of_encode] by blast
  then show ?thesis
    using random_nonce [OF assms(1)] by (auto simp: encryptMasterKey_def asOpaque_def Let_def wraps_def)
qed

lemma master_keys:
  assumes r: "random_ok e" and pks: "\<forall>pk\<in>set pks. is_crock pk"
  shows "\<exists>ks w'. io_fold (encryptMasterKey mk) pks acc e w = (Inr (acc @ ks), w')
    \<and> list_all2 (wraps (encodeCrock mk)) pks ks \<and> w_sent w' = w_sent w \<and> w_drawn w' = w_drawn w + length pks"
  using pks
proof (induction pks arbitrary: acc w)
  case (Cons pk pks)
  let ?w = "w\<lparr>w_drawn := Suc (w_drawn w)\<rparr>"
  obtain c where c: "wraps (encodeCrock mk) pk c" "encryptMasterKey mk pk acc e w = (Inr (acc @ [c]), ?w)"
    using encryptMasterKey_ok [OF r, of pk mk acc w] Cons.prems by auto
  obtain ks w' where IH: "io_fold (encryptMasterKey mk) pks (acc @ [c]) e ?w = (Inr ((acc @ [c]) @ ks), w')"
      "list_all2 (wraps (encodeCrock mk)) pks ks" "w_sent w' = w_sent ?w" "w_drawn w' = w_drawn ?w + length pks"
    using Cons.IH [of "acc @ [c]" ?w] Cons.prems by auto
  then show ?case
    using c by (intro exI [of _ "c # ks"] exI [of _ w']) simp
qed simp

lemma coreSecretEncrypt_ok:
  assumes "random_ok e" "\<forall>pk\<in>set pks. is_crock pk" "crock_of cs"
  shows "\<exists>r w'. coreSecretEncrypt pks cs e w = (Inr r, w')
    \<and> length (encMasterKeys r) = length pks
    \<and> (\<forall>i<length pks. coreSecretRecover (encMasterKeys r ! i) (pks ! i) (encCoreSecret r) = Inr cs)
    \<and> w_sent w' = w_sent w \<and> w_drawn w' = w_drawn w + 2 + length pks"
proof -
  let ?mk = "encodeCrock (e_random e (w_drawn w) masterKeySize)"
  let ?w1 = "w\<lparr>w_drawn := Suc (w_drawn w)\<rparr>"
  let ?n = "encodeCrock (e_random e (w_drawn ?w1) nonceSize)"
  let ?w2 = "?w1\<lparr>w_drawn := Suc (w_drawn ?w1)\<rparr>"
  obtain ecs where ecs: "anastasisEncrypt ?n ?mk cs ''cse'' = Inr ecs"
    using anastasis_open_seal [OF random_nonce [OF assms(1)] _ assms(3)] crock_of_is_crock crock_of_encode by blast
  obtain ks w' where ks: "io_fold (encryptMasterKey (e_random e (w_drawn w) masterKeySize)) pks [] e ?w2
        = (Inr ([] @ ks), w')"
      "list_all2 (wraps ?mk) pks ks" "w_sent w' = w_sent ?w2" "w_drawn w' = w_drawn ?w2 + length pks"
    using master_keys [OF assms(1,2)] by blast
  have "coreSecretEncrypt pks cs e w = (Inr \<lparr>encCoreSecret = ecs, encMasterKeys = ks\<rparr>, w')"
    using ecs ks(1) by (simp add: coreSecretEncrypt_def)
  moreover have "coreSecretRecover (ks ! i) (pks ! i) ecs = Inr cs" if i: "i < length pks" for i
  proof -
    obtain n where n: "nonce_str n" "anastasisEncrypt n (pks ! i) ?mk ''emk'' = Inr (ks ! i)"
      using list_all2_nthD [OF ks(2) i] by (auto simp: wraps_def)
    have "is_crock (pks ! i)" using assms(2) i by simp
    from core.unwrap [OF n(2,1) this crock_of_encode ecs random_nonce [OF assms(1)] assms(3)]
    show ?thesis by (simp add: coreSecretRecover_def asOpaque_def)
  qed
  ultimately show ?thesis using ks by (auto dest: list_all2_lengthD)
qed

lemma policyKeyDerive_crock: "policyKeyDerive shares slt = Inr k \<Longrightarrow> crock_of k"
  by (auto simp: policyKeyDerive_def js_bind_Inr_iff)

lemma policyKeyDerive_ok:
  "\<forall>s\<in>set shares. is_crock s \<Longrightarrow> is_crock slt \<Longrightarrow> \<exists>k. policyKeyDerive shares slt = Inr k \<and> crock_of k"
proof -
  assume s: "\<forall>s\<in>set shares. is_crock s" and t: "is_crock slt"
  have "\<exists>cs. js_map decodeCrock shares = Inr cs"
    using s by (induction shares) (auto simp: is_crock_def)
  moreover obtain b where "decodeCrock slt = Inr b" using t by (auto simp: is_crock_def)
  moreover have "kdfKw a \<noteq> Inl x" for a x using kdfKw_ok [of a] by auto
  ultimately have "\<exists>k. policyKeyDerive shares slt = Inr k"
    by (auto simp: policyKeyDerive_def js_bind_def split: sum.splits)
  with policyKeyDerive_crock show ?thesis by blast
qed

end
