(* ===== verification/ReducerCommon.thy ===== *)
theory ReducerCommon
  imports TalerUri ReducerTypes AnastasisCrypto
begin

text \<open>
  What the backup and the recovery flow of anastasis-core/src/index.ts share: the tables of
  continents and countries, asking a provider for its configuration, the recovery document as
  JSON and its compression.
\<close>

section \<open>Error codes and HTTP statuses\<close>

definition TRUTH_CHALLENGE_RESPONSE_REQUIRED :: nat where "TRUTH_CHALLENGE_RESPONSE_REQUIRED = 8110"
definition TRUTH_CHALLENGE_FAILED :: nat where "TRUTH_CHALLENGE_FAILED = 8111"
definition REDUCER_ACTION_INVALID :: nat where "REDUCER_ACTION_INVALID = 8400"
definition REDUCER_INPUT_INVALID :: nat where "REDUCER_INPUT_INVALID = 8402"
definition REDUCER_BACKEND_FAILURE :: nat where "REDUCER_BACKEND_FAILURE = 8405"
definition REDUCER_POLICY_LOOKUP_FAILED :: nat where "REDUCER_POLICY_LOOKUP_FAILED = 8410"
definition REDUCER_NETWORK_FAILED :: nat where "REDUCER_NETWORK_FAILED = 8414"

lemmas error_codes = TRUTH_CHALLENGE_RESPONSE_REQUIRED_def TRUTH_CHALLENGE_FAILED_def
  REDUCER_ACTION_INVALID_def REDUCER_INPUT_INVALID_def REDUCER_BACKEND_FAILURE_def
  REDUCER_POLICY_LOOKUP_FAILED_def REDUCER_NETWORK_FAILED_def

definition HttpOk :: nat where "HttpOk = 200"
definition HttpAccepted :: nat where "HttpAccepted = 202"
definition HttpNoContent :: nat where "HttpNoContent = 204"
definition HttpPaymentRequired :: nat where "HttpPaymentRequired = 402"
definition HttpForbidden :: nat where "HttpForbidden = 403"

lemmas http_statuses = HttpOk_def HttpAccepted_def HttpNoContent_def HttpPaymentRequired_def HttpForbidden_def

definition error_hint :: "nat \<Rightarrow> string \<Rightarrow> error_details" where
  "error_hint code hint = \<lparr>ed_code = code, ed_hint = Some hint, ed_message = None, ed_http_status = None\<rparr>"

definition error_status :: "nat \<Rightarrow> string \<Rightarrow> nat \<Rightarrow> error_details" where
  "error_status code hint st =
     \<lparr>ed_code = code, ed_hint = Some hint, ed_message = None, ed_http_status = Some st\<rparr>"

section \<open>Optional properties, conditions and numbers\<close>

definition or_empty :: "'a obj option \<Rightarrow> 'a obj" where
  "or_empty d = (case d of Some x \<Rightarrow> x | None \<Rightarrow> [])"

definition or_nil :: "'a list option \<Rightarrow> 'a list" where
  "or_nil d = (case d of Some x \<Rightarrow> x | None \<Rightarrow> [])"

text \<open>A string in a condition: \<open>undefined\<close> and the empty string are false.\<close>

definition truthy :: "string option \<Rightarrow> bool" where
  "truthy s = (case s of Some (_ # _) \<Rightarrow> True | _ \<Rightarrow> False)"

definition trim_ws :: "string \<Rightarrow> string" where
  "trim_ws s = (let ws = (\<lambda>c. of_char c \<in> {9, 10, 11, 12, 13, 32 :: nat})
     in rev (dropWhile ws (rev (dropWhile ws s))))"

text \<open>\<open>Number(s)\<close>, \<open>None\<close> for \<open>NaN\<close>; numerals other than decimal integers are read as \<open>NaN\<close>.\<close>

definition js_Number :: "string \<Rightarrow> int option" where
  "js_Number s =
     (let s = trim_ws s; digits = (\<lambda>d. d \<noteq> [] \<and> list_all is_digit d)
      in case s of
           [] \<Rightarrow> Some 0
         | c # r \<Rightarrow>
             if digits s then Some (int (str_nat s))
             else if c = CHR ''-'' \<and> digits r then Some (- int (str_nat r))
             else if c = CHR ''+'' \<and> digits r then Some (int (str_nat r))
             else None)"

definition header_number :: "http_response \<Rightarrow> string \<Rightarrow> int option" where
  "header_number resp name = js_Number (case js_get (rs_headers resp) name of Some v \<Rightarrow> v | None \<Rightarrow> ''0'')"

section \<open>Continents and countries\<close>

definition currenciesWithProvider :: "string list" where
  "currenciesWithProvider = map pe_currency providersList"

definition add_continent :: "bool \<Rightarrow> country \<Rightarrow> continent_info list \<Rightarrow> continent_info list" where
  "add_continent requireProvider co cs =
     (if co_continent co \<in> ci_name ` set cs then cs
      else if requireProvider \<and> co_currency co \<notin> set currenciesWithProvider then cs
      else cs @ [\<lparr>ci_name = co_continent co, ci_name_i18n = co_continent_i18n co\<rparr>])"

definition getContinents :: "bool \<Rightarrow> continent_info list" where
  "getContinents requireProvider = fold (add_continent requireProvider) countriesList []"

definition getCountries :: "string \<Rightarrow> bool \<Rightarrow> country list js" where
  "getCountries continent requireProvider =
     (let cs = filter (\<lambda>x. co_continent x = continent
                \<and> (\<not> requireProvider \<or> co_currency x \<in> set currenciesWithProvider)) countriesList
      in if length cs \<le> 0
         then Inl (ReducerError (error_hint REDUCER_INPUT_INVALID ''continent not found''))
         else Inr cs)"

text \<open>The part of the state that \<open>selectCountry\<close> returns.\<close>

record country_selection =
  sel_selected_country :: string
  sel_currencies :: "string list"
  sel_required_attributes :: "attribute_spec list"
  sel_authentication_providers :: "provider_status obj"

definition selectCountry :: "string option \<Rightarrow> string \<Rightarrow> string list \<Rightarrow> country_selection js" where
  "selectCountry selectedContinent countryCode curs =
     (case find (\<lambda>x. co_code x = countryCode) countriesList of
        None \<Rightarrow> Inl (ReducerError (error_hint REDUCER_ACTION_INVALID ''invalid country selected''))
      | Some co \<Rightarrow>
          if Some (co_continent co) \<noteq> selectedContinent
          then Inl (ReducerError (error_hint REDUCER_ACTION_INVALID
                 ''selected country is not in selected continent''))
          else
            let provs = fold (\<lambda>p. if pe_currency p \<in> set curs then js_put (pe_url p) Unchecked else id)
                  providersList []
            in js_bind (js_the (js_get countryDetails countryCode)) (\<lambda>ra.
                 Inr \<lparr>sel_selected_country = countryCode, sel_currencies = curs,
                      sel_required_attributes = ra, sel_authentication_providers = provs\<rparr>))"

section \<open>The configuration of a provider\<close>

definition str_field :: "jsval \<Rightarrow> string option" where
  "str_field v = (case v of JStr s \<Rightarrow> Some s | _ \<Rightarrow> None)"

definition int_field :: "jsval \<Rightarrow> int option" where
  "int_field v = (case v of JNum n \<Rightarrow> Some n | _ \<Rightarrow> None)"

text \<open>A method whose \<open>type\<close> is missing is found in \<open>methodCost\<close> under the key \<open>undefined\<close>.\<close>

definition read_method :: "jsval \<Rightarrow> method_spec js" where
  "read_method x =
     js_bind (js_prop x ''type'') (\<lambda>t. js_bind (js_prop x ''cost'') (\<lambda>c.
     Inr \<lparr>ms_type = (case str_field t of Some s \<Rightarrow> s | None \<Rightarrow> ''undefined''), ms_usage_fee = str_field c\<rparr>))"

definition read_methods :: "jsval \<Rightarrow> method_spec list js" where
  "read_methods v = (case v of JArr vs \<Rightarrow> js_map read_method vs | _ \<Rightarrow> Inl TypeError)"

definition read_config :: "jsval \<Rightarrow> provider_ok js" where
  "read_config j =
     js_bind (js_prop j ''annual_fee'') (\<lambda>af.
     js_bind (js_prop j ''business_name'') (\<lambda>bn.
     js_bind (js_prop j ''currency'') (\<lambda>cu.
     js_bind (js_prop j ''liability_limit'') (\<lambda>ll.
     js_bind (js_bind (js_prop j ''methods'') read_methods) (\<lambda>ms.
     js_bind (js_prop j ''server_salt'') (\<lambda>sa.
     js_bind (js_prop j ''storage_limit_in_megabytes'') (\<lambda>sl.
     js_bind (js_prop j ''truth_upload_fee'') (\<lambda>tf.
     Inr \<lparr>annual_fee = str_field af, business_name = str_field bn, po_currency = str_field cu,
          liability_limit = str_field ll, prov_methods = ms, prov_salt = str_field sa,
          storage_limit_in_megabytes = int_field sl, truth_upload_fee = str_field tf\<rparr>))))))))"

definition fetch_config :: "string \<Rightarrow> http_response option io" where
  "fetch_config url =
     io_catch (io_bind (io_url ''config'' url) (\<lambda>rq. io_bind (io_fetch_ok rq) (\<lambda>r. io_return (Some r))))
       (\<lambda>_. io_return None)"

definition response_json :: "http_response \<Rightarrow> jsval js" where
  "response_json r = JSON_parse (bytesToString (rs_body r))"

definition provider_answer :: "http_response option \<Rightarrow> provider_status" where
  "provider_answer resp =
     (case resp of
        None \<Rightarrow> CheckFailed REDUCER_NETWORK_FAILED ''request to provider failed'' None
      | Some r \<Rightarrow>
          if rs_status r \<noteq> 200
          then CheckFailed REDUCER_NETWORK_FAILED ''unexpected status'' (Some (rs_status r))
          else case js_bind (response_json r) read_config of
                 Inl _ \<Rightarrow> CheckFailed REDUCER_NETWORK_FAILED ''provider did not return JSON'' None
               | Inr ok \<Rightarrow> Checked ok)"

definition getProviderInfo :: "string \<Rightarrow> provider_status io" where
  "getProviderInfo providerBaseUrl =
     io_bind (fetch_config providerBaseUrl) (\<lambda>resp. io_return (provider_answer resp))"

text \<open>\<open>for (const url of providerUrls) newProviders[url] = await getProviderInfo(url)\<close>.\<close>

definition refresh_provider :: "string \<Rightarrow> provider_status obj \<Rightarrow> provider_status obj io" where
  "refresh_provider url ps = io_bind (getProviderInfo url) (\<lambda>info. io_return (js_put url info ps))"

definition refresh_providers :: "provider_status obj \<Rightarrow> provider_status obj io" where
  "refresh_providers ps = io_fold refresh_provider (js_keys ps) ps"

text \<open>Deriving the user identifier for a provider whose salt may be missing (\<open>decodeCrock(undefined)\<close>).\<close>

definition userId_for :: "jsval option \<Rightarrow> string option \<Rightarrow> string io" where
  "userId_for attrs slt =
     (let idData = (case attrs of Some v \<Rightarrow> v | None \<Rightarrow> JUndef)
      in case slt of
           Some s \<Rightarrow> userIdentifierDerive idData s
         | None \<Rightarrow> io_bind (io_js (canonicalJson idData)) (\<lambda>_. io_throw TypeError))"

section \<open>Truth values\<close>

definition getTruthValue :: "auth_method \<Rightarrow> string \<Rightarrow> string \<Rightarrow> string io" where
  "getTruthValue am truthUuid questionSalt =
     (if am_type am = ''question'' then
        io_bind (io_js (decodeCrock (am_challenge am))) (\<lambda>c.
        io_bind (secureAnswerHash (bytesToString c) truthUuid questionSalt) (\<lambda>h. io_return (asOpaque h)))
      else if am_type am \<in> {''sms'', ''email'', ''totp'', ''iban''} then io_return (am_challenge am)
      else io_throw (JsError ''unknown auth type''))"

section \<open>The recovery document as JSON\<close>

definition opt_field :: "string \<Rightarrow> string option \<Rightarrow> (string \<times> jsval) list" where
  "opt_field name v = (case v of None \<Rightarrow> [] | Some s \<Rightarrow> [(name, JStr s)])"

definition escrow_json :: "escrow_method \<Rightarrow> jsval" where
  "escrow_json x = JObj
     ([(''escrow_type'', JStr (es_type x)), (''instructions'', JStr (es_instructions x))]
      @ opt_field ''provider_salt'' (es_provider_salt x)
      @ [(''truth_salt'', JStr (es_truth_salt x)), (''truth_key'', JStr (es_truth_key x)),
         (''url'', JStr (es_url x)), (''uuid'', JStr (es_uuid x))])"

definition policy_json :: "decryption_policy \<Rightarrow> jsval" where
  "policy_json p = JObj
     [(''master_key'', JStr (dp_master_key p)), (''uuids'', JArr (map JStr (dp_uuids p))),
      (''salt'', JStr (dp_salt p))]"

definition document_json :: "recovery_document \<Rightarrow> jsval" where
  "document_json rd = JObj
     (opt_field ''secret_name'' (rd_secret_name rd)
      @ [(''encrypted_core_secret'', JStr (rd_encrypted_core_secret rd)),
         (''escrow_methods'', JArr (map escrow_json (rd_escrow_methods rd))),
         (''policies'', JArr (map policy_json (rd_policies rd)))])"

text \<open>A parsed document read at its interface type; other shapes are outside the model.\<close>

definition as_escrow :: "jsval \<Rightarrow> escrow_method js" where
  "as_escrow v =
     js_bind (arg_prop ''url'' as_string v) (\<lambda>url.
     js_bind (arg_prop ''escrow_type'' as_string v) (\<lambda>t.
     js_bind (arg_prop ''uuid'' as_string v) (\<lambda>u.
     js_bind (arg_prop ''truth_key'' as_string v) (\<lambda>tk.
     js_bind (arg_prop ''truth_salt'' as_string v) (\<lambda>ts.
     js_bind (arg_prop ''provider_salt'' (as_optional as_string) v) (\<lambda>ps.
     js_bind (arg_prop ''instructions'' as_string v) (\<lambda>i.
     Inr \<lparr>es_url = url, es_type = t, es_uuid = u, es_truth_key = tk, es_truth_salt = ts,
          es_provider_salt = ps, es_instructions = i\<rparr>)))))))"

definition as_decryption_policy :: "jsval \<Rightarrow> decryption_policy js" where
  "as_decryption_policy v =
     js_bind (arg_prop ''salt'' as_string v) (\<lambda>s.
     js_bind (arg_prop ''master_key'' as_string v) (\<lambda>k.
     js_bind (arg_prop ''uuids'' (as_list as_string) v) (\<lambda>us.
     Inr \<lparr>dp_salt = s, dp_master_key = k, dp_uuids = us\<rparr>)))"

definition as_document :: "jsval \<Rightarrow> recovery_document js" where
  "as_document v =
     js_bind (arg_prop ''secret_name'' (as_optional as_string) v) (\<lambda>n.
     js_bind (arg_prop ''encrypted_core_secret'' as_string v) (\<lambda>c.
     js_bind (arg_prop ''escrow_methods'' (as_list as_escrow) v) (\<lambda>es.
     js_bind (arg_prop ''policies'' (as_list as_decryption_policy) v) (\<lambda>ps.
     Inr \<lparr>rd_secret_name = n, rd_encrypted_core_secret = c, rd_escrow_methods = es, rd_policies = ps\<rparr>))))"

text \<open>\<open>stringToBytes(JSON.stringify(v))\<close>: nothing of \<open>undefined\<close> is encoded.\<close>

definition json_bytes :: "jsval \<Rightarrow> bytes" where
  "json_bytes v = (case JSON_stringify v of Some s \<Rightarrow> stringToBytes s | None \<Rightarrow> [])"

definition compressRecoveryDoc :: "recovery_document \<Rightarrow> bytes io" where
  "compressRecoveryDoc rd =
     (let docBytes = json_bytes (document_json rd)
      in io_bind (io_env (\<lambda>e. e_zlib e docBytes)) (\<lambda>zippedDoc.
         io_return (typedArrayConcat [be32 (length docBytes), zippedDoc])))"

definition uncompressRecoveryDoc :: "bytes \<Rightarrow> recovery_document io" where
  "uncompressRecoveryDoc zippedRd =
     (let data = drop 4 zippedRd
      in io_bind (io_env (\<lambda>e. e_unzlib e data)) (\<lambda>r. io_js (js_bind r (\<lambda>res.
         js_bind (JSON_parse (bytesToString res)) as_document))))"

section \<open>The document survives the way through JSON and zlib\<close>

lemma js_get_append: "js_get (xs @ ys) k = (case js_get xs k of Some v \<Rightarrow> Some v | None \<Rightarrow> js_get ys k)"
  by (simp add: js_get_def map_add_def split: option.splits)

lemma js_map_inverse: "(\<And>x. x \<in> set xs \<Longrightarrow> f (g x) = Inr x) \<Longrightarrow> js_map f (map g xs) = Inr xs"
  by (induction xs) auto

lemma as_list_inverse: "(\<And>x. x \<in> set xs \<Longrightarrow> f (g x) = Inr x) \<Longrightarrow> as_list f (JArr (map g xs)) = Inr xs"
  by (simp add: as_list_def js_map_inverse)

lemma js_get_opt_field: "js_get (opt_field n v) k = (if k = n then map_option JStr v else None)"
  by (cases v) (auto simp: opt_field_def js_get_def)

lemmas read_simps = arg_prop_def js_prop_def as_string_def as_optional_def js_get_append js_get_opt_field js_get_Cons

lemma as_optional_opt: "as_optional as_string (case map_option JStr v of Some x \<Rightarrow> x | None \<Rightarrow> JUndef) = Inr v"
  by (cases v) (simp_all add: as_optional_def as_string_def)

lemma as_escrow_json: "as_escrow (escrow_json x) = Inr x"
  by (cases "es_provider_salt x") (simp_all add: as_escrow_def escrow_json_def read_simps opt_field_def)

lemma as_policy_json: "as_decryption_policy (policy_json p) = Inr p"
  using as_list_inverse [of "dp_uuids p" as_string JStr]
  by (simp add: as_decryption_policy_def policy_json_def read_simps)

lemma as_document_json: "as_document (document_json rd) = Inr rd"
  using as_list_inverse [of "rd_escrow_methods rd" as_escrow escrow_json, OF as_escrow_json]
    as_list_inverse [of "rd_policies rd" as_decryption_policy policy_json, OF as_policy_json]
  by (cases "rd_secret_name rd") (simp_all add: as_document_def document_json_def read_simps opt_field_def)

lemma json_ok_document: "json_ok (document_json rd)"
proof -
  have "json_ok (escrow_json x)" for x
    by (cases "es_provider_salt x") (simp_all add: escrow_json_def opt_field_def)
  moreover have "json_ok (policy_json p)" for p
    by (simp add: policy_json_def list_all_iff)
  ultimately show ?thesis
    by (cases "rd_secret_name rd") (simp_all add: document_json_def opt_field_def list_all_iff)
qed

lemma json_bytes_parse: "json_ok v \<Longrightarrow> JSON_parse (bytesToString (json_bytes v)) = Inr v"
  using JSON_parse_stringify [of v] by (auto simp: json_bytes_def)

text \<open>What the compression library promises: \<open>unzlibSync\<close> inverts \<open>zlibSync\<close>.\<close>

definition zlib_ok :: "env \<Rightarrow> bool" where
  "zlib_ok e \<longleftrightarrow> (\<forall>b. e_unzlib e (e_zlib e b) = Inr b)"

lemma compress_uncompress:
  assumes "zlib_ok e"
  shows "\<exists>z. compressRecoveryDoc rd e w = (Inr z, w) \<and> uncompressRecoveryDoc z e w' = (Inr rd, w')"
  using assms json_bytes_parse [OF json_ok_document, of rd]
  by (simp add: compressRecoveryDoc_def uncompressRecoveryDoc_def typedArrayConcat_eq zlib_ok_def as_document_json Let_def)

section \<open>Asking a provider never fails and never draws randomness\<close>

lemma fetch_config_total: "\<exists>r w'. fetch_config url e w = (Inr r, w') \<and> w_drawn w' = w_drawn w"
  by (cases "e_url_ok e ''config'' url")
    (auto simp: fetch_config_def io_catch_def io_bind_def io_url_def io_fetch_ok_def io_fetch_def js_the_def
       io_js_def io_return_def split: option.splits)

lemma getProviderInfo_total:
  "\<exists>r w'. getProviderInfo url e w = (Inr (provider_answer r), w') \<and> w_drawn w' = w_drawn w"
  using fetch_config_total [of url e w] by (fastforce simp: getProviderInfo_def)

text \<open>
  Its answer has \<open>http_status\<close> 200 exactly when it is a configuration, and never the property
  \<open>error_code\<close> that \<open>downloadPolicy\<close> and \<open>nextFromAuthenticationsEditing\<close> look for.
\<close>

lemma provider_answer_status:
  "provider_answer r \<noteq> Unchecked" "\<not> has_error_code (provider_answer r)"
  "provider_http_status (provider_answer r) = Some 200 \<longleftrightarrow> (\<exists>ok. provider_answer r = Checked ok)"
  by (auto simp: provider_answer_def has_error_code_def provider_http_status_def split: option.splits sum.splits)

lemma refresh_providers_fold:
  "\<exists>ps' w'. io_fold refresh_provider us ps e w = (Inr ps', w') \<and> w_drawn w' = w_drawn w
    \<and> (\<forall>k. k \<notin> set us \<longrightarrow> js_get ps' k = js_get ps k)
    \<and> (\<forall>k\<in>set us. \<exists>r. js_get ps' k = Some (provider_answer r))
    \<and> (set us \<subseteq> set (js_keys ps) \<longrightarrow> js_keys ps' = js_keys ps)"
proof (induction us arbitrary: ps w)
  case (Cons u us)
  obtain r w1 where g: "getProviderInfo u e w = (Inr (provider_answer r), w1)" "w_drawn w1 = w_drawn w"
    using getProviderInfo_total by blast
  let ?ps = "js_put u (provider_answer r) ps"
  obtain ps' w' where f: "io_fold refresh_provider us ?ps e w1 = (Inr ps', w')" "w_drawn w' = w_drawn w1"
    "\<forall>k. k \<notin> set us \<longrightarrow> js_get ps' k = js_get ?ps k"
    "\<forall>k\<in>set us. \<exists>r. js_get ps' k = Some (provider_answer r)"
    "set us \<subseteq> set (js_keys ?ps) \<longrightarrow> js_keys ps' = js_keys ?ps"
    using Cons.IH [of ?ps w1] by blast
  have e: "io_fold refresh_provider (u # us) ps e w = (Inr ps', w')"
    using g f by (simp add: refresh_provider_def)
  have k: "js_get ps' k = js_get ps k" if "k \<notin> set (u # us)" for k
    using f(3) that by (auto simp: js_get_put)
  have a: "\<exists>r. js_get ps' k = Some (provider_answer r)" if "k \<in> set (u # us)" for k
    using f(3) f(4) that by (cases "k \<in> set us") (auto simp: js_get_put)
  have "js_keys ps' = js_keys ps" if "set (u # us) \<subseteq> set (js_keys ps)"
    using f(5) that by (auto simp: js_keys_put)
  with e g f k a show ?case by force
qed simp

lemma refresh_providers_total:
  "\<exists>ps' w'. refresh_providers ps e w = (Inr ps', w') \<and> w_drawn w' = w_drawn w \<and> js_keys ps' = js_keys ps
    \<and> (\<forall>k\<in>set (js_keys ps). \<exists>r. js_get ps' k = Some (provider_answer r))"
  using refresh_providers_fold [of "js_keys ps" ps e w] unfolding refresh_providers_def by auto

section \<open>The tables\<close>

lemma add_continent_inv:
  assumes "cs' = fold (add_continent req) cos cs" "distinct (map ci_name cs)"
  shows "distinct (map ci_name cs')"
    "ci_name ` set cs' = ci_name ` set cs \<union> {co_continent co | co. co \<in> set cos
       \<and> (req \<longrightarrow> co_currency co \<in> set currenciesWithProvider)}"
  using assms by (induction cos arbitrary: cs) (auto simp: add_continent_def)

text \<open>The continents offered are exactly those whose countries can be listed, each once.\<close>

lemma getContinents_getCountries:
  "distinct (map ci_name (getContinents req))"
  "c \<in> ci_name ` set (getContinents req) \<longleftrightarrow> (\<exists>cos. getCountries c req = Inr cos)"
  using add_continent_inv [of "getContinents req" req countriesList "[]"]
  by (auto simp: getContinents_def getCountries_def Let_def filter_empty_conv)

lemma getCountries_Inr:
  "getCountries c req = Inr cos \<Longrightarrow> cos \<noteq> [] \<and> (\<forall>co\<in>set cos. co \<in> set countriesList \<and> co_continent co = c
     \<and> (req \<longrightarrow> co_currency co \<in> set currenciesWithProvider))"
  by (auto simp: getCountries_def Let_def split: if_splits)

lemma getCountries_Inl: "getCountries c req = Inl x \<Longrightarrow> \<exists>d. x = ReducerError d"
  by (auto simp: getCountries_def Let_def split: if_splits)

text \<open>The codes in the list of countries name each country, and all but one have their attributes.\<close>

lemma country_codes:
  "map co_code countriesList = [''al'', ''be'', ''ch'', ''cz'', ''de'', ''dk'', ''es'', ''in'', ''it'', ''jp'', ''sl'', ''us'', ''xx'', ''xy'']"
  by (simp add: countriesList_def)

lemma detail_codes:
  "js_keys countryDetails = [''al'', ''be'', ''ch'', ''cz'', ''de'', ''dk'', ''es'', ''in'', ''it'', ''jp'', ''sk'', ''us'', ''xx'', ''xy'']"
  by (simp add: countryDetails_def js_keys_def)

lemma find_key: "distinct (map f xs) \<Longrightarrow> x \<in> set xs \<Longrightarrow> find (\<lambda>y. f y = f x) xs = Some x"
  by (induction xs) (auto simp: rev_image_eqI)

lemma offered_providers:
  "js_get (fold (\<lambda>p. if pe_currency p \<in> set curs then js_put (pe_url p) Unchecked else id) ps d) u
    = (if \<exists>p\<in>set ps. pe_url p = u \<and> pe_currency p \<in> set curs then Some Unchecked else js_get d u)"
  by (induction ps arbitrary: d) (auto simp: js_get_put)

text \<open>
  Selecting a listed country of the selected continent gives its attributes and the providers of
  the chosen currencies, unchecked yet.  Slovakia is listed as \<open>sl\<close> and described as \<open>sk\<close>:
  selecting it throws.
\<close>

lemma selectCountry_listed:
  assumes "co \<in> set countriesList"
  shows "if co_code co = ''sl'' then selectCountry (Some (co_continent co)) (co_code co) curs = Inl TypeError
    else \<exists>sel. selectCountry (Some (co_continent co)) (co_code co) curs = Inr sel
      \<and> sel_selected_country sel = co_code co \<and> sel_currencies sel = curs
      \<and> js_get countryDetails (co_code co) = Some (sel_required_attributes sel)
      \<and> (\<forall>u. js_get (sel_authentication_providers sel) u =
            (if \<exists>p\<in>set providersList. pe_url p = u \<and> pe_currency p \<in> set curs then Some Unchecked else None))"
proof -
  have f: "find (\<lambda>x. co_code x = co_code co) countriesList = Some co"
    using assms by (intro find_key) (simp_all add: country_codes)
  have "co_code co \<in> set (map co_code countriesList)" using assms by simp
  then have "co_code co = ''sl'' \<and> co_code co \<notin> set (js_keys countryDetails)
    \<or> co_code co \<noteq> ''sl'' \<and> co_code co \<in> set (js_keys countryDetails)"
    unfolding country_codes detail_codes by auto
  then show ?thesis
  proof (elim disjE conjE)
    assume "co_code co = ''sl''" "co_code co \<notin> set (js_keys countryDetails)"
    then show ?thesis using f by (simp add: selectCountry_def js_keys_get)
  next
    assume "co_code co \<noteq> ''sl''" "co_code co \<in> set (js_keys countryDetails)"
    then show ?thesis using f by (auto simp: selectCountry_def js_keys_get Let_def offered_providers)
  qed
qed

text \<open>A code that is not listed, or a country of another continent, is refused.\<close>

lemma selectCountry_refused:
  "code \<notin> co_code ` set countriesList \<Longrightarrow> selectCountry c code curs
     = Inl (ReducerError (error_hint REDUCER_ACTION_INVALID ''invalid country selected''))"
  "co \<in> set countriesList \<Longrightarrow> c \<noteq> Some (co_continent co) \<Longrightarrow> selectCountry c (co_code co) curs
     = Inl (ReducerError (error_hint REDUCER_ACTION_INVALID ''selected country is not in selected continent''))"
proof -
  assume "code \<notin> co_code ` set countriesList"
  then have "find (\<lambda>x. co_code x = code) countriesList = None" by (auto simp: find_None_iff)
  then show "selectCountry c code curs
     = Inl (ReducerError (error_hint REDUCER_ACTION_INVALID ''invalid country selected''))"
    by (simp add: selectCountry_def)
next
  assume co: "co \<in> set countriesList" "c \<noteq> Some (co_continent co)"
  have "find (\<lambda>x. co_code x = co_code co) countriesList = Some co"
    using co(1) by (intro find_key) (simp_all add: country_codes)
  with co(2) show "selectCountry c (co_code co) curs
     = Inl (ReducerError (error_hint REDUCER_ACTION_INVALID ''selected country is not in selected continent''))"
    by (auto simp: selectCountry_def)
qed

end
