(* ===== verification/PolicySuggestion.thy ===== *)
theory PolicySuggestion
  imports ReducerTypes
begin

text \<open>
  anastasis-core/src/policy-suggestion.ts: which combinations of authentication methods and
  providers are proposed as recovery policies.  Both enumerations are depth-first searches cut off
  at a limit; the provider assignment keeps the best of the enumerated mappings.
\<close>

definition maxMethodSelections :: nat where "maxMethodSelections = 200"
definition maxPolicyEvaluations :: nat where "maxPolicyEvaluations = 10000"

text \<open>
  \<open>prov.methodCost[type]\<close> is falsy when absent, \<open>undefined\<close> or empty; the names that the object inherits
  are not absent.
\<close>

record provider_info =
  pi_url :: string
  pi_methodCost :: "string option obj"

section \<open>The enumerations\<close>

definition limit_reached :: "nat option \<Rightarrow> 'a list \<Rightarrow> bool" where
  "limit_reached limit selections =
     (case limit of Some l \<Rightarrow> l \<noteq> 0 \<and> l \<le> length selections | None \<Rightarrow> False)"

text \<open>\<open>sel(i, 0)\<close> with \<open>k = n - i\<close> places left to fill and \<open>a\<close> the places filled.\<close>

fun prov_sel :: "nat \<Rightarrow> nat option \<Rightarrow> nat \<Rightarrow> nat list \<Rightarrow> nat list list \<Rightarrow> nat list list"
  and prov_loop :: "nat \<Rightarrow> nat option \<Rightarrow> nat \<Rightarrow> nat list \<Rightarrow> nat list \<Rightarrow> nat list list \<Rightarrow> nat list list" where
  "prov_sel m limit 0 a selections = selections @ [a]"
| "prov_sel m limit (Suc k) a selections = prov_loop m limit k a [0..<m] selections"
| "prov_loop m limit k a [] selections = selections"
| "prov_loop m limit k a (j # js) selections =
     (let selections = prov_sel m limit k (a @ [j]) selections
      in if limit_reached limit selections then selections else prov_loop m limit k a js selections)"

definition enumerateProviderMappings :: "nat \<Rightarrow> nat \<Rightarrow> nat option \<Rightarrow> nat list list" where
  "enumerateProviderMappings n m limit = prov_sel m limit n [] []"

fun meth_sel :: "nat \<Rightarrow> nat option \<Rightarrow> nat \<Rightarrow> nat \<Rightarrow> nat list \<Rightarrow> nat list list \<Rightarrow> nat list list"
  and meth_loop :: "nat \<Rightarrow> nat option \<Rightarrow> nat \<Rightarrow> nat list \<Rightarrow> nat list \<Rightarrow> nat list list \<Rightarrow> nat list list" where
  "meth_sel m limit 0 start a selections = selections @ [a]"
| "meth_sel m limit (Suc k) start a selections = meth_loop m limit k a [start..<m] selections"
| "meth_loop m limit k a [] selections = selections"
| "meth_loop m limit k a (j # js) selections =
     (let selections = meth_sel m limit k (j + 1) (a @ [j]) selections
      in if limit_reached limit selections then selections else meth_loop m limit k a js selections)"

definition enumerateMethodSelections :: "nat \<Rightarrow> nat \<Rightarrow> nat option \<Rightarrow> nat list list" where
  "enumerateMethodSelections n m limit = meth_sel m limit n 0 [] []"

section \<open>Assigning providers\<close>

definition offers :: "provider_info \<Rightarrow> string \<Rightarrow> bool" where
  "offers prov type =
     (case js_get (pi_methodCost prov) type of
        Some (Some c) \<Rightarrow> c \<noteq> [] | Some None \<Rightarrow> False | None \<Rightarrow> type \<in> set inherited_names)"

text \<open>First loop of the body: is the selection possible with the methods offered?\<close>

fun selection_possible ::
  "auth_method list \<Rightarrow> provider_info list \<Rightarrow> (nat \<times> nat) list \<Rightarrow> bool js" where
  "selection_possible methods providers [] = Inr True"
| "selection_possible methods providers ((provIndex, methIndex) # rest) =
     (if length methods \<le> methIndex then Inl (JsError ''invariant failed'')
      else js_bind (js_the (js_index providers (int provIndex))) (\<lambda>prov.
           if offers prov (am_type (methods ! methIndex))
           then selection_possible methods providers rest
           else Inr False))"

definition diversity_of :: "provider_info list \<Rightarrow> nat list \<Rightarrow> nat" where
  "diversity_of providers provSel = card (set (map (\<lambda>p. pi_url (providers ! p)) provSel))"

text \<open>\<open>provPerMethod\<close>: for every method the set of providers it shows up at.\<close>

definition add_provider_at :: "int \<Rightarrow> string \<Rightarrow> string set list \<Rightarrow> string set list js" where
  "add_provider_at i url sets =
     (if 0 \<le> i \<and> i < int (length sets) then Inr (sets[nat i := insert url (sets ! nat i)])
      else Inl TypeError)"

definition duplication_of ::
  "policy list \<Rightarrow> auth_method list \<Rightarrow> provider_info list \<Rightarrow> nat list \<Rightarrow> nat list \<Rightarrow> nat js" where
  "duplication_of existingPolicies methods providers methodSelection provSel =
     js_bind (js_fold (\<lambda>m. add_provider_at (pm_authentication_method m) (pm_provider m))
        (concat (map pol_methods existingPolicies)) (replicate (length methods) {})) (\<lambda>sets.
     js_bind (js_fold (\<lambda>(p, m). add_provider_at (int m) (pi_url (providers ! p)))
        (zip provSel methodSelection) sets) (\<lambda>sets.
     Inr (sum_list (map card sets))))"

record best_selection =
  bestProvSel :: "nat list"
  bestDiversity :: nat
  bestDuplication :: nat

definition consider_selection ::
  "policy list \<Rightarrow> auth_method list \<Rightarrow> provider_info list \<Rightarrow> nat list \<Rightarrow> nat list
     \<Rightarrow> best_selection option \<Rightarrow> best_selection option js" where
  "consider_selection existingPolicies methods providers methodSelection provSel best =
     js_bind (selection_possible methods providers (zip provSel methodSelection)) (\<lambda>possible.
     if \<not> possible then Inr best
     else
       let diversity = diversity_of providers provSel
       in js_bind (duplication_of existingPolicies methods providers methodSelection provSel) (\<lambda>duplication.
          let this = \<lparr>bestProvSel = provSel, bestDiversity = diversity, bestDuplication = duplication\<rparr>
          in case best of
               None \<Rightarrow> Inr (Some this)
             | Some b \<Rightarrow>
                 if bestDiversity b < diversity then Inr (Some this)
                 else if diversity = bestDiversity b \<and> duplication < bestDuplication b then Inr (Some this)
                 else Inr best))"

definition assignProviders ::
  "policy list \<Rightarrow> auth_method list \<Rightarrow> provider_info list \<Rightarrow> nat list \<Rightarrow> policy option js" where
  "assignProviders existingPolicies methods providers methodSelection =
     (let providerSelections =
            enumerateProviderMappings (length methodSelection) (length providers) (Some maxPolicyEvaluations)
      in js_bind (js_fold (consider_selection existingPolicies methods providers methodSelection)
                    providerSelections None) (\<lambda>best.
         Inr (map_option (\<lambda>b. \<lparr>pol_methods =
           map (\<lambda>(x, i). \<lparr>pm_authentication_method = int i, pm_provider = pi_url (providers ! x)\<rparr>)
             (zip (bestProvSel b) methodSelection)\<rparr>) best)))"

section \<open>The suggestion\<close>

definition num_selected :: "nat \<Rightarrow> nat" where
  "num_selected numMethods =
     (if numMethods \<le> 2 then numMethods
      else if numMethods \<le> 4 then numMethods - 1
      else if numMethods \<le> 6 then numMethods - 2
      else if numMethods = 7 then numMethods - 3
      else 4)"

record policy_selection_result =
  psr_policies :: "policy list"
  psr_policy_providers :: "policy_provider list"

definition suggestPolicies ::
  "auth_method list \<Rightarrow> provider_info list \<Rightarrow> policy_selection_result js" where
  "suggestPolicies methods providers =
     (let numMethods = length methods
      in if numMethods = 0 then Inl (JsError ''no methods'')
         else
           let selections = enumerateMethodSelections (num_selected numMethods) numMethods
                              (Some maxMethodSelections)
           in js_bind (js_fold (\<lambda>sel policies.
                js_bind (assignProviders policies methods providers sel) (\<lambda>p.
                Inr (case p of Some p \<Rightarrow> policies @ [p] | None \<Rightarrow> policies))) selections []) (\<lambda>policies.
              Inr \<lparr>psr_policies = policies,
                   psr_policy_providers = map (\<lambda>x. \<lparr>pp_provider_url = pi_url x\<rparr>) providers\<rparr>))"

section \<open>The enumerations are prefixes of the full lists\<close>

fun tuples :: "nat \<Rightarrow> nat \<Rightarrow> nat list list" where
  "tuples m 0 = [[]]"
| "tuples m (Suc k) = concat (map (\<lambda>j. map ((#) j) (tuples m k)) [0..<m])"

fun choices :: "nat \<Rightarrow> nat \<Rightarrow> nat \<Rightarrow> nat list list" where
  "choices m 0 start = [[]]"
| "choices m (Suc k) start = concat (map (\<lambda>j. map ((#) j) (choices m k (j + 1))) [start..<m])"

text \<open>
  A search whose every branch adds what it finds, up to a limit, adds up to the limit what its
  branches find together.
\<close>

locale limited_search =
  fixes limit :: nat
    and branch :: "'j \<Rightarrow> 'r list \<Rightarrow> 'r list"
    and loop :: "'j list \<Rightarrow> 'r list \<Rightarrow> 'r list"
    and found :: "'j \<Rightarrow> 'r list"
  assumes limit_pos: "0 < limit"
    and loop_Nil: "loop [] s = s"
    and loop_Cons: "loop (j # js) s =
      (let s = branch j s in if limit_reached (Some limit) s then s else loop js s)"
    and branch_found: "length s < limit \<Longrightarrow> branch j s = s @ take (limit - length s) (found j)"
begin

lemma loop_found:
  "length s < limit \<Longrightarrow> loop js s = s @ take (limit - length s) (concat (map found js))"
proof (induction js arbitrary: s)
  case Nil
  then show ?case by (simp add: loop_Nil)
next
  case (Cons j js)
  let ?s = "s @ take (limit - length s) (found j)"
  have b: "branch j s = ?s" by (rule branch_found [OF Cons.prems])
  show ?case
  proof (cases "limit \<le> length ?s")
    case True
    then have "limit - length s \<le> length (found j)" using Cons.prems by simp
    then show ?thesis
      using True limit_pos by (simp add: loop_Cons b limit_reached_def Let_def)
  next
    case False
    then have "length (found j) < limit - length s" by (simp add: min_def split: if_splits)
    then show ?thesis
      using Cons.IH [of ?s] False limit_pos
      by (simp add: loop_Cons b limit_reached_def Let_def diff_diff_left)
  qed
qed

end

lemma append_snoc_fun: "(@) (a @ [j]) = (\<lambda>xs. a @ j # xs)"
  by (simp add: fun_eq_iff)

lemma distinct_concat_Cons:
  "(\<And>j. j \<in> set js \<Longrightarrow> distinct (f j)) \<Longrightarrow> distinct js \<Longrightarrow>
    distinct (concat (map (\<lambda>j. map ((#) j) (f j)) js))"
  by (induction js) (auto simp: distinct_map)

lemma prov_sel_found:
  "0 < l \<Longrightarrow> length s < l \<Longrightarrow> prov_sel m (Some l) k a s = s @ take (l - length s) (map ((@) a) (tuples m k))"
proof (induction k arbitrary: a s)
  case 0
  then show ?case by (cases "l - length s") auto
next
  case (Suc k)
  have ls: "limited_search l (\<lambda>j. prov_sel m (Some l) k (a @ [j])) (prov_loop m (Some l) k a)
      (\<lambda>j. map ((@) (a @ [j])) (tuples m k))"
    using Suc by unfold_locales (auto simp: Let_def)
  show ?case
    using limited_search.loop_found [OF ls Suc.prems(2), of "[0..<m]"]
    by (simp add: map_concat comp_def append_snoc_fun)
qed

lemma meth_sel_found:
  "0 < l \<Longrightarrow> length s < l \<Longrightarrow>
    meth_sel m (Some l) k start a s = s @ take (l - length s) (map ((@) a) (choices m k start))"
proof (induction k arbitrary: start a s)
  case 0
  then show ?case by (cases "l - length s") auto
next
  case (Suc k)
  have ls: "limited_search l (\<lambda>j. meth_sel m (Some l) k (j + 1) (a @ [j])) (meth_loop m (Some l) k a)
      (\<lambda>j. map ((@) (a @ [j])) (choices m k (j + 1)))"
    using Suc by unfold_locales (auto simp: Let_def)
  show ?case
    using limited_search.loop_found [OF ls Suc.prems(2), of "[start..<m]"]
    by (simp add: map_concat comp_def append_snoc_fun)
qed

interpretation prov: limited_search "Suc l" "\<lambda>j. prov_sel m (Some (Suc l)) k (a @ [j])"
  "prov_loop m (Some (Suc l)) k a" "\<lambda>j. map ((@) (a @ [j])) (tuples m k)" for l m k a
  by unfold_locales (auto simp: Let_def prov_sel_found)

interpretation meth: limited_search "Suc l" "\<lambda>j. meth_sel m (Some (Suc l)) k (j + 1) (a @ [j])"
  "meth_loop m (Some (Suc l)) k a" "\<lambda>j. map ((@) (a @ [j])) (choices m k (j + 1))" for l m k a
  by unfold_locales (auto simp: Let_def meth_sel_found)

lemma enumerateProviderMappings_eq:
  "0 < l \<Longrightarrow> enumerateProviderMappings n m (Some l) = take l (tuples m n)"
proof -
  assume "0 < l"
  moreover have "map ((@) []) (tuples m n) = tuples m n" by (simp add: map_idI)
  ultimately show ?thesis
    using prov_sel_found [of l "[]" m n "[]"] by (simp add: enumerateProviderMappings_def)
qed

lemma enumerateMethodSelections_eq:
  "0 < l \<Longrightarrow> enumerateMethodSelections n m (Some l) = take l (choices m n 0)"
proof -
  assume "0 < l"
  moreover have "map ((@) []) (choices m n 0) = choices m n 0" by (simp add: map_idI)
  ultimately show ?thesis
    using meth_sel_found [of l "[]" m n 0 "[]"] by (simp add: enumerateMethodSelections_def)
qed

lemma set_tuples: "set (tuples m k) = {xs. length xs = k \<and> set xs \<subseteq> {..<m}}"
  by (induction k) (auto simp: length_Suc_conv)

lemma distinct_tuples: "distinct (tuples m k)"
  by (induction k) (simp_all add: distinct_concat_Cons)

lemma length_tuples: "length (tuples m k) = m ^ k"
  by (induction k) (simp_all add: length_concat comp_def sum_list_triv)

lemma set_choices:
  "set (choices m k start) = {xs. length xs = k \<and> sorted_wrt (<) xs \<and> set xs \<subseteq> {start..<m}}"
proof (induction k arbitrary: start)
  case (Suc k)
  have "xs \<in> set (choices m (Suc k) start) \<longleftrightarrow>
      (\<exists>j ys. xs = j # ys \<and> start \<le> j \<and> j < m \<and> length ys = k \<and> sorted_wrt (<) ys \<and> set ys \<subseteq> {Suc j..<m})" for xs
    by (auto simp: Suc)
  also have "\<dots> xs \<longleftrightarrow> length xs = Suc k \<and> sorted_wrt (<) xs \<and> set xs \<subseteq> {start..<m}" for xs
    by (cases xs) (auto simp: subset_iff Ball_def Suc_le_eq)
  finally show ?case by blast
qed auto

lemma distinct_choices: "distinct (choices m k start)"
  by (induction k arbitrary: start) (simp_all add: distinct_concat_Cons)

section \<open>The assignment is the best of the enumerated mappings\<close>

definition selection_ok :: "auth_method list \<Rightarrow> nat list \<Rightarrow> bool" where
  "selection_ok methods sel \<longleftrightarrow> set sel \<subseteq> {..<length methods}"

definition policy_indices_ok :: "auth_method list \<Rightarrow> policy \<Rightarrow> bool" where
  "policy_indices_ok methods p \<longleftrightarrow>
     (\<forall>m\<in>set (pol_methods p). 0 \<le> pm_authentication_method m
        \<and> pm_authentication_method m < int (length methods))"

definition mapping_ok :: "provider_info list \<Rightarrow> nat list \<Rightarrow> nat list \<Rightarrow> bool" where
  "mapping_ok providers sel ps \<longleftrightarrow> length ps = length sel \<and> set ps \<subseteq> {..<length providers}"

text \<open>A cost is listed that is not empty, or the type is the name of an inherited property.\<close>

definition has_cost :: "provider_info \<Rightarrow> string \<Rightarrow> bool" where
  "has_cost prov type \<longleftrightarrow>
     (\<exists>c. js_get (pi_methodCost prov) type = Some (Some c) \<and> c \<noteq> [])
     \<or> js_get (pi_methodCost prov) type = None \<and> type \<in> set inherited_names"

lemma offers_iff: "offers prov type \<longleftrightarrow> has_cost prov type"
  by (auto simp: offers_def has_cost_def split: option.split)

definition feasible :: "auth_method list \<Rightarrow> provider_info list \<Rightarrow> nat list \<Rightarrow> nat list \<Rightarrow> bool" where
  "feasible methods providers sel ps \<longleftrightarrow>
     (\<forall>(p, m)\<in>set (zip ps sel). has_cost (providers ! p) (am_type (methods ! m)))"

lemma selection_possible_eq:
  "\<forall>(p, m)\<in>set pms. p < length providers \<and> m < length methods \<Longrightarrow>
    selection_possible methods providers pms
      = Inr (\<forall>(p, m)\<in>set pms. offers (providers ! p) (am_type (methods ! m)))"
  by (induction methods providers pms rule: selection_possible.induct) auto

text \<open>The sets of providers per method, and how often challenges are duplicated.\<close>

definition providers_of :: "policy list \<Rightarrow> provider_info list \<Rightarrow> nat list \<Rightarrow> nat list \<Rightarrow> nat \<Rightarrow> string set" where
  "providers_of pols providers sel ps i =
     {pm_provider m | m. m \<in> set (concat (map pol_methods pols)) \<and> pm_authentication_method m = int i}
     \<union> {pi_url (providers ! p) | p. (p, i) \<in> set (zip ps sel)}"

definition duplication :: "policy list \<Rightarrow> nat \<Rightarrow> provider_info list \<Rightarrow> nat list \<Rightarrow> nat list \<Rightarrow> nat" where
  "duplication pols n providers sel ps = (\<Sum>i<n. card (providers_of pols providers sel ps i))"

lemma add_providers:
  assumes "\<forall>x\<in>set xs. 0 \<le> f x \<and> f x < int (length sets)"
  shows "js_fold (\<lambda>x. add_provider_at (f x) (g x)) xs sets
    = Inr (map (\<lambda>i. sets ! i \<union> {g x | x. x \<in> set xs \<and> f x = int i}) [0..<length sets])"
  using assms
proof (induction xs arbitrary: sets)
  case Nil
  then show ?case by (simp add: map_nth)
next
  case (Cons x xs)
  let ?s = "sets[nat (f x) := insert (g x) (sets ! nat (f x))]"
  have "js_fold (\<lambda>x. add_provider_at (f x) (g x)) (x # xs) sets
      = js_fold (\<lambda>x. add_provider_at (f x) (g x)) xs ?s"
    using Cons.prems by (simp add: add_provider_at_def)
  also have "\<dots> = Inr (map (\<lambda>i. ?s ! i \<union> {g x | x. x \<in> set xs \<and> f x = int i}) [0..<length sets])"
    using Cons.IH [of ?s] Cons.prems by simp
  also have "map (\<lambda>i. ?s ! i \<union> {g x | x. x \<in> set xs \<and> f x = int i}) [0..<length sets]
      = map (\<lambda>i. sets ! i \<union> {g y | y. y \<in> set (x # xs) \<and> f y = int i}) [0..<length sets]"
    using Cons.prems by (intro map_cong) (auto simp: nth_list_update split: if_splits)
  finally show ?case .
qed

lemma sum_list_map_upt: "sum_list (map f [0..<n]) = (\<Sum>i<n. f i :: nat)"
  by (simp add: sum_list_distinct_conv_sum_set atLeast0LessThan)

lemma duplication_of_eq:
  assumes "\<forall>p\<in>set pols. policy_indices_ok methods p" "selection_ok methods sel"
  shows "duplication_of pols methods providers sel ps = Inr (duplication pols (length methods) providers sel ps)"
proof -
  let ?n = "length methods"
  have 1: "js_fold (\<lambda>m. add_provider_at (pm_authentication_method m) (pm_provider m))
      (concat (map pol_methods pols)) (replicate ?n {})
    = Inr (map (\<lambda>i. {pm_provider m | m. m \<in> set (concat (map pol_methods pols))
        \<and> pm_authentication_method m = int i}) [0..<?n])" (is "_ = Inr ?s")
    using assms(1) add_providers [of "concat (map pol_methods pols)" pm_authentication_method "replicate ?n {}" pm_provider]
    by (auto simp: policy_indices_ok_def)
  have "\<forall>x\<in>set (zip ps sel). 0 \<le> int (snd x) \<and> int (snd x) < int (length ?s)"
    using assms(2) by (auto simp: selection_ok_def dest: set_zip_rightD)
  from add_providers [OF this, of "\<lambda>x. pi_url (providers ! fst x)"]
  have 2: "js_fold (\<lambda>(p, m). add_provider_at (int m) (pi_url (providers ! p))) (zip ps sel) ?s
    = Inr (map (providers_of pols providers sel ps) [0..<?n])"
    by (simp add: split_def providers_of_def cong: map_cong)
  show ?thesis
    by (simp only: duplication_of_def 1 js_bind_simps 2 map_map comp_def sum_list_map_upt duplication_def)
qed


text \<open>
  \<open>better a b\<close>: the mapping \<open>a\<close> is preferred to \<open>b\<close>, because it uses more providers, or as many and
  asks fewer of them the same challenge.
\<close>

definition num_providers :: "provider_info list \<Rightarrow> nat list \<Rightarrow> nat" where
  "num_providers providers ps = card {pi_url (providers ! p) | p. p \<in> set ps}"

lemma num_providers_eq: "num_providers providers ps = diversity_of providers ps"
  by (simp add: num_providers_def diversity_of_def setcompr_eq_image)

definition better :: "policy list \<Rightarrow> nat \<Rightarrow> provider_info list \<Rightarrow> nat list \<Rightarrow> nat list \<Rightarrow> nat list \<Rightarrow> bool" where
  "better pols n providers sel a b \<longleftrightarrow>
     num_providers providers b < num_providers providers a
     \<or> num_providers providers a = num_providers providers b
       \<and> duplication pols n providers sel a < duplication pols n providers sel b"

definition best_of ::
  "policy list \<Rightarrow> auth_method list \<Rightarrow> provider_info list \<Rightarrow> nat list \<Rightarrow> nat list set \<Rightarrow> best_selection option \<Rightarrow> bool"
  where
  "best_of pols methods providers sel seen best =
     (case best of
        None \<Rightarrow> \<forall>ps\<in>seen. \<not> feasible methods providers sel ps
      | Some b \<Rightarrow>
          bestProvSel b \<in> seen \<and> feasible methods providers sel (bestProvSel b)
          \<and> bestDiversity b = diversity_of providers (bestProvSel b)
          \<and> bestDuplication b = duplication pols (length methods) providers sel (bestProvSel b)
          \<and> (\<forall>ps\<in>seen. feasible methods providers sel ps \<longrightarrow>
                \<not> better pols (length methods) providers sel ps (bestProvSel b)))"

lemma consider_best:
  assumes "\<forall>p\<in>set pols. policy_indices_ok methods p" "selection_ok methods sel" "mapping_ok providers sel ps"
    and "best_of pols methods providers sel seen best"
  shows "\<exists>best'. consider_selection pols methods providers sel ps best = Inr best'
    \<and> best_of pols methods providers sel (insert ps seen) best'"
proof -
  have "\<forall>(p, m)\<in>set (zip ps sel). p < length providers \<and> m < length methods"
    using assms(2,3) by (auto simp: selection_ok_def mapping_ok_def dest: set_zip_leftD set_zip_rightD)
  from selection_possible_eq [OF this]
  have p: "selection_possible methods providers (zip ps sel) = Inr (feasible methods providers sel ps)"
    by (simp add: feasible_def offers_iff)
  show ?thesis
    using assms(4)
    by (cases best)
      (auto simp: consider_selection_def p duplication_of_eq [OF assms(1,2)] best_of_def better_def num_providers_eq Let_def)
qed

lemma fold_best:
  assumes "\<forall>p\<in>set pols. policy_indices_ok methods p" "selection_ok methods sel"
    and "\<forall>ps\<in>set pss. mapping_ok providers sel ps" and "best_of pols methods providers sel seen best"
  shows "\<exists>best'. js_fold (consider_selection pols methods providers sel) pss best = Inr best'
    \<and> best_of pols methods providers sel (set pss \<union> seen) best'"
  using assms(3,4)
proof (induction pss arbitrary: best seen)
  case (Cons ps pss)
  obtain b where b: "consider_selection pols methods providers sel ps best = Inr b"
      "best_of pols methods providers sel (insert ps seen) b"
    using consider_best [OF assms(1,2) _ Cons.prems(2), of ps] Cons.prems(1) by auto
  from Cons.IH [OF _ b(2)] Cons.prems(1) b(1) show ?case by simp
qed simp

definition mapping_policy :: "provider_info list \<Rightarrow> nat list \<Rightarrow> nat list \<Rightarrow> policy" where
  "mapping_policy providers sel ps =
     \<lparr>pol_methods = map (\<lambda>(x, i). \<lparr>pm_authentication_method = int i, pm_provider = pi_url (providers ! x)\<rparr>)
        (zip ps sel)\<rparr>"

definition candidate_mappings :: "provider_info list \<Rightarrow> nat list \<Rightarrow> nat list list" where
  "candidate_mappings providers sel = take 10000 (tuples (length providers) (length sel))"

lemma assignProviders_best:
  assumes "\<forall>p\<in>set pols. policy_indices_ok methods p" "selection_ok methods sel"
  shows "\<exists>r. assignProviders pols methods providers sel = Inr r \<and>
    (case r of
       None \<Rightarrow> \<forall>ps\<in>set (candidate_mappings providers sel). \<not> feasible methods providers sel ps
     | Some pol \<Rightarrow> \<exists>ps\<in>set (candidate_mappings providers sel).
         pol = mapping_policy providers sel ps \<and> feasible methods providers sel ps
         \<and> (\<forall>qs\<in>set (candidate_mappings providers sel). feasible methods providers sel qs \<longrightarrow>
               \<not> better pols (length methods) providers sel qs ps))"
proof -
  have e: "enumerateProviderMappings (length sel) (length providers) (Some maxPolicyEvaluations)
      = candidate_mappings providers sel"
    by (simp add: enumerateProviderMappings_eq maxPolicyEvaluations_def candidate_mappings_def)
  have "\<forall>ps\<in>set (candidate_mappings providers sel). mapping_ok providers sel ps"
    using set_tuples [of "length providers" "length sel"]
    by (auto simp: candidate_mappings_def mapping_ok_def dest: in_set_takeD)
  moreover have "best_of pols methods providers sel {} None" by (simp add: best_of_def)
  ultimately obtain b where b:
      "js_fold (consider_selection pols methods providers sel) (candidate_mappings providers sel) None = Inr b"
      "best_of pols methods providers sel (set (candidate_mappings providers sel)) b"
    using fold_best [OF assms] by fastforce
  then show ?thesis
    by (cases b) (auto simp: assignProviders_def e best_of_def mapping_policy_def)
qed

lemma assignProviders_all:
  assumes "\<forall>p\<in>set pols. policy_indices_ok methods p" "selection_ok methods sel"
    and "length providers ^ length sel \<le> maxPolicyEvaluations"
    and "length ps = length sel" "set ps \<subseteq> {..<length providers}" "feasible methods providers sel ps"
  shows "\<exists>pol qs. assignProviders pols methods providers sel = Inr (Some pol)
    \<and> pol = mapping_policy providers sel qs \<and> feasible methods providers sel qs
    \<and> \<not> better pols (length methods) providers sel ps qs"
proof -
  have "candidate_mappings providers sel = tuples (length providers) (length sel)"
    using assms(3) by (simp add: candidate_mappings_def length_tuples maxPolicyEvaluations_def)
  then have "ps \<in> set (candidate_mappings providers sel)"
    using assms(4,5) by (simp add: set_tuples)
  with assignProviders_best [OF assms(1,2), of providers] assms(6) show ?thesis
    by (fastforce split: option.splits)
qed


section \<open>What is suggested\<close>

text \<open>
  The policy of a selection: of the first 10000 mappings the best feasible one, with respect to the
  policies suggested before.
\<close>

definition best_suggestion :: "policy list \<Rightarrow> auth_method list \<Rightarrow> provider_info list \<Rightarrow> nat list \<Rightarrow> policy \<Rightarrow> bool" where
  "best_suggestion pols methods providers sel p \<longleftrightarrow>
     (\<exists>ps\<in>set (candidate_mappings providers sel).
        p = mapping_policy providers sel ps \<and> feasible methods providers sel ps
        \<and> (\<forall>qs\<in>set (candidate_mappings providers sel). feasible methods providers sel qs \<longrightarrow>
              \<not> better pols (length methods) providers sel qs ps))"

definition has_suggestion :: "auth_method list \<Rightarrow> provider_info list \<Rightarrow> nat list \<Rightarrow> bool" where
  "has_suggestion methods providers sel \<longleftrightarrow>
     (\<exists>ps\<in>set (candidate_mappings providers sel). feasible methods providers sel ps)"

lemma candidate_ok: "ps \<in> set (candidate_mappings providers sel) \<Longrightarrow> mapping_ok providers sel ps"
  using set_tuples [of "length providers" "length sel"]
  by (auto simp: candidate_mappings_def mapping_ok_def dest: in_set_takeD)

lemma suggestion_indices:
  "selection_ok methods sel \<Longrightarrow> best_suggestion pols methods providers sel p \<Longrightarrow> policy_indices_ok methods p"
  by (fastforce simp: best_suggestion_def policy_indices_ok_def mapping_policy_def selection_ok_def dest: set_zip_rightD)

definition add_suggestion ::
  "auth_method list \<Rightarrow> provider_info list \<Rightarrow> nat list \<Rightarrow> policy list \<Rightarrow> policy list js" where
  "add_suggestion methods providers sel pols =
     js_bind (assignProviders pols methods providers sel) (\<lambda>p.
     Inr (case p of Some p \<Rightarrow> pols @ [p] | None \<Rightarrow> pols))"

lemma add_suggestion_cases:
  assumes "selection_ok methods sel" "\<forall>p\<in>set pols. policy_indices_ok methods p"
  shows "if has_suggestion methods providers sel
    then \<exists>p. add_suggestion methods providers sel pols = Inr (pols @ [p]) \<and> best_suggestion pols methods providers sel p
    else add_suggestion methods providers sel pols = Inr pols"
proof -
  obtain r where r: "assignProviders pols methods providers sel = Inr r"
    "case r of
       None \<Rightarrow> \<forall>ps\<in>set (candidate_mappings providers sel). \<not> feasible methods providers sel ps
     | Some pol \<Rightarrow> best_suggestion pols methods providers sel pol"
    using assignProviders_best [OF assms(2,1), of providers] unfolding best_suggestion_def by blast
  then show ?thesis
    by (cases r) (auto simp: add_suggestion_def has_suggestion_def best_suggestion_def)
qed

text \<open>One policy for every selection that has one, in their order.\<close>

lemma add_suggestions:
  assumes "\<forall>sel\<in>set sels. selection_ok methods sel" "\<forall>p\<in>set pols. policy_indices_ok methods p"
  shows "\<exists>new. js_fold (add_suggestion methods providers) sels pols = Inr (pols @ new)
    \<and> length new = length (filter (has_suggestion methods providers) sels)
    \<and> (\<forall>i<length new. best_suggestion (pols @ take i new) methods providers
          (filter (has_suggestion methods providers) sels ! i) (new ! i))"
  using assms
proof (induction sels arbitrary: pols)
  case (Cons sel sels)
  have sel: "selection_ok methods sel" using Cons.prems by simp
  note r = add_suggestion_cases [OF sel Cons.prems(2), of providers]
  show ?case
  proof (cases "has_suggestion methods providers sel")
    case False
    then show ?thesis using Cons.IH [of pols] Cons.prems r by simp
  next
    case True
    then obtain p where p: "add_suggestion methods providers sel pols = Inr (pols @ [p])"
        "best_suggestion pols methods providers sel p"
      using r by auto
    obtain new where new: "js_fold (add_suggestion methods providers) sels (pols @ [p]) = Inr ((pols @ [p]) @ new)"
        "length new = length (filter (has_suggestion methods providers) sels)"
        "\<forall>i<length new. best_suggestion ((pols @ [p]) @ take i new) methods providers
          (filter (has_suggestion methods providers) sels ! i) (new ! i)"
      using Cons.IH [of "pols @ [p]"] Cons.prems suggestion_indices [OF sel p(2)] by auto
    have "best_suggestion (pols @ take i (p # new)) methods providers
        (filter (has_suggestion methods providers) (sel # sels) ! i) ((p # new) ! i)" if "i < Suc (length new)" for i
      using new(3) p(2) True that by (cases i) simp_all
    then show ?thesis using new(1,2) p(1) True by (intro exI [of _ "p # new"]) simp
  qed
qed simp

text \<open>
  The selections considered: the first 200 of the choices of half the methods plus one, but at most
  four, in lexicographic order.
\<close>

definition selections_for :: "auth_method list \<Rightarrow> nat list list" where
  "selections_for methods = take 200 (choices (length methods) (min 4 (length methods div 2 + 1)) 0)"

lemma num_selected_eq: "0 < n \<Longrightarrow> num_selected n = min 4 (n div 2 + 1)"
proof -
  assume n: "0 < n"
  consider "n \<in> {1, 2, 3, 4, 5, 6, 7}" | "8 \<le> n" using n by force
  then show ?thesis by cases (use n in \<open>auto simp: num_selected_def\<close>)
qed

lemma selections_for_ok: "sel \<in> set (selections_for methods) \<Longrightarrow> selection_ok methods sel
    \<and> length sel = min 4 (length methods div 2 + 1) \<and> sorted_wrt (<) sel"
  unfolding selections_for_def selection_ok_def by (drule in_set_takeD) (auto simp only: set_choices atLeast0LessThan mem_Collect_eq)

lemma suggestPolicies_ok:
  assumes "methods \<noteq> []"
  shows "\<exists>pols. suggestPolicies methods providers = Inr \<lparr>psr_policies = pols,
        psr_policy_providers = map (\<lambda>x. \<lparr>pp_provider_url = pi_url x\<rparr>) providers\<rparr>
    \<and> length pols = length (filter (has_suggestion methods providers) (selections_for methods))
    \<and> (\<forall>i<length pols. best_suggestion (take i pols) methods providers
          (filter (has_suggestion methods providers) (selections_for methods) ! i) (pols ! i))"
proof -
  have e: "enumerateMethodSelections (num_selected (length methods)) (length methods) (Some maxMethodSelections)
      = selections_for methods"
    using assms by (simp add: enumerateMethodSelections_eq maxMethodSelections_def selections_for_def num_selected_eq)
  have "\<forall>sel\<in>set (selections_for methods). selection_ok methods sel"
    using selections_for_ok by blast
  from add_suggestions [OF this, of "[]" providers] obtain new where new:
      "js_fold (add_suggestion methods providers) (selections_for methods) [] = Inr new"
      "length new = length (filter (has_suggestion methods providers) (selections_for methods))"
      "\<forall>i<length new. best_suggestion (take i new) methods providers
          (filter (has_suggestion methods providers) (selections_for methods) ! i) (new ! i)"
    by auto
  have "suggestPolicies methods providers = Inr \<lparr>psr_policies = new,
        psr_policy_providers = map (\<lambda>x. \<lparr>pp_provider_url = pi_url x\<rparr>) providers\<rparr>"
    using assms new(1) by (simp add: suggestPolicies_def e add_suggestion_def [abs_def] Let_def)
  then show ?thesis using new(2,3) by blast
qed

end
