(* ===== verification/BackupReducer.thy ===== *)
theory BackupReducer
  imports ReducerCommon PolicySuggestion
begin

text \<open>
  The backup flow of anastasis-core/src/index.ts: choosing a place and providers, editing the
  authentication methods and policies, the upload fees, and the upload of the truths and of the
  encrypted recovery document.  A handler returns the next state or an error state, or throws.
\<close>

section \<open>Choosing the place\<close>

definition backupSelectContinent :: "backup \<Rightarrow> string \<Rightarrow> reducer_state io" where
  "backupSelectContinent st continent =
     io_bind (io_js (getCountries continent True)) (\<lambda>cos.
       if length cos \<le> 0 then io_return (Error (error_hint REDUCER_INPUT_INVALID ''continent not found''))
       else io_return (Backup (st\<lparr>backup_state := BCountrySelecting, countries := Some cos,
              selected_continent := Some continent\<rparr>)))"

definition backupSelectCountry :: "backup \<Rightarrow> string \<Rightarrow> string list \<Rightarrow> reducer_state io" where
  "backupSelectCountry st countryCode curs =
     io_bind (io_js (selectCountry (selected_continent st) countryCode curs)) (\<lambda>sel.
       io_return (Backup (st\<lparr>
         selected_country := Some (sel_selected_country sel), currencies := Some (sel_currencies sel),
         required_attributes := Some (sel_required_attributes sel),
         authentication_providers := Some (sel_authentication_providers sel),
         backup_state := BUserAttributesCollecting\<rparr>)))"

definition backupEnterUserAttributes :: "backup \<Rightarrow> jsval \<Rightarrow> reducer_state io" where
  "backupEnterUserAttributes st attributes =
     io_bind (refresh_providers (or_empty (authentication_providers st))) (\<lambda>newProviders.
       io_return (Backup (st\<lparr>backup_state := BAuthenticationsEditing,
         authentication_providers := Some newProviders, identity_attributes := Some attributes\<rparr>)))"

definition addProviderBackup :: "backup \<Rightarrow> string \<Rightarrow> reducer_state io" where
  "addProviderBackup st url =
     io_bind (getProviderInfo url) (\<lambda>info.
       io_return (Backup (st\<lparr>authentication_providers :=
         Some (js_put url info (or_empty (authentication_providers st)))\<rparr>)))"

definition deleteProviderBackup :: "backup \<Rightarrow> string \<Rightarrow> backup" where
  "deleteProviderBackup st url =
     st\<lparr>authentication_providers := Some (js_del url (or_empty (authentication_providers st)))\<rparr>"

section \<open>Editing methods and policies\<close>

definition addAuthentication :: "backup \<Rightarrow> auth_method \<Rightarrow> backup" where
  "addAuthentication st am =
     st\<lparr>authentication_methods := Some (or_nil (authentication_methods st) @ [am])\<rparr>"

definition deleteAuthentication :: "backup \<Rightarrow> int \<Rightarrow> backup" where
  "deleteAuthentication st i =
     st\<lparr>authentication_methods := Some (js_splice1 i (or_nil (authentication_methods st)))\<rparr>"

definition deletePolicy :: "backup \<Rightarrow> int \<Rightarrow> backup" where
  "deletePolicy st i = st\<lparr>policies := Some (js_splice1 i (or_nil (policies st)))\<rparr>"

definition updatePolicy :: "backup \<Rightarrow> int \<Rightarrow> policy_member list \<Rightarrow> backup" where
  "updatePolicy st i ms = st\<lparr>policies := Some (js_array_set i \<lparr>pol_methods = ms\<rparr> (or_nil (policies st)))\<rparr>"

definition addPolicy :: "backup \<Rightarrow> policy_member list \<Rightarrow> backup" where
  "addPolicy st ms = st\<lparr>policies := Some (or_nil (policies st) @ [Some \<lparr>pol_methods = ms\<rparr>])\<rparr>"

text \<open>Only a provider whose configuration was read takes part; a later method of a type overwrites its cost.\<close>

definition method_costs :: "method_spec list \<Rightarrow> string option obj" where
  "method_costs ms = fold (\<lambda>m. js_put (ms_type m) (ms_usage_fee m)) ms []"

definition suggestion_providers :: "provider_status obj \<Rightarrow> provider_info list js" where
  "suggestion_providers provs =
     js_fold (\<lambda>(url, prov) acc.
       if has_error_code prov then Inr acc
       else if provider_http_status prov \<noteq> Some 200 then Inr acc
       else js_bind (js_the (provider_methods prov)) (\<lambda>ms.
              Inr (acc @ [\<lparr>pi_url = url, pi_methodCost = method_costs ms\<rparr>]))) provs []"

definition nextFromAuthenticationsEditing :: "backup \<Rightarrow> reducer_state js" where
  "nextFromAuthenticationsEditing st =
     js_bind (suggestion_providers (or_empty (authentication_providers st))) (\<lambda>provs.
     js_bind (suggestPolicies (or_nil (authentication_methods st)) provs) (\<lambda>pol.
     Inr (Backup (st\<lparr>backup_state := BPoliciesReviewing, policies := Some (map Some (psr_policies pol)),
       policy_providers := Some (psr_policy_providers pol)\<rparr>))))"

section \<open>The upload fees\<close>

definition addFee :: "AmountLike \<Rightarrow> AmountJson obj \<Rightarrow> AmountJson obj js" where
  "addFee x fees =
     js_bind (jsonifyAmount x) (\<lambda>a.
     js_bind (amounts_add (case js_get fees (am_currency a) of Some f \<Rightarrow> f | None \<Rightarrow> getZero (am_currency a)) [a]) (\<lambda>r.
     Inr (js_put (am_currency a) (ar_amount r) fees)))"

text \<open>Reading an amount field that may be \<open>undefined\<close>: \<open>jsonifyAmount\<close> lets it through and the currency is read.\<close>

definition annual_fees :: "int \<Rightarrow> provider_status \<Rightarrow> AmountJson obj \<Rightarrow> AmountJson obj js" where
  "annual_fees years prov fees =
     (case prov of
        Checked ok \<Rightarrow>
          js_bind (js_the (annual_fee ok)) (\<lambda>fee.
          js_bind (amounts_mult (AmtString fee) years) (\<lambda>r. addFee (AmtJson (ar_amount r)) fees))
      | _ \<Rightarrow> Inr fees)"

definition fee_key :: "policy_member \<Rightarrow> string" where
  "fee_key m = json_int (pm_authentication_method m) @ ''@'' @ pm_provider m"

definition truth_fee ::
  "backup \<Rightarrow> policy_member \<Rightarrow> string list \<times> AmountJson obj \<Rightarrow> (string list \<times> AmountJson obj) js" where
  "truth_fee st m = (\<lambda>(covered, fees).
     js_bind (js_the (authentication_providers st)) (\<lambda>provs.
     js_bind (js_the (authentication_methods st)) (\<lambda>ams.
     if fee_key m \<in> set covered then Inr (covered, fees)
     else
       js_bind (js_the (js_index ams (pm_authentication_method m))) (\<lambda>_.
       js_bind (js_the (js_get provs (pm_provider m))) (\<lambda>prov.
       js_bind (js_the (provider_truth_upload_fee prov)) (\<lambda>fee.
       js_bind (addFee (AmtString fee) fees) (\<lambda>fees. Inr (fee_key m # covered, fees))))))))"

definition policy_fees ::
  "backup \<Rightarrow> policy option \<Rightarrow> string list \<times> AmountJson obj \<Rightarrow> (string list \<times> AmountJson obj) js" where
  "policy_fees st p acc = js_bind (js_the p) (\<lambda>p. js_fold (truth_fee st) (pol_methods p) acc)"

definition fees_per_currency :: "backup \<Rightarrow> Timestamp \<Rightarrow> int \<Rightarrow> AmountJson obj js" where
  "fees_per_currency st expi now =
     js_bind (js_bind (getDurationRemaining expi (T_ms now)) toIntegerYears) (\<lambda>years.
     js_bind (js_fold (\<lambda>(_, prov). annual_fees years prov) (or_empty (authentication_providers st)) []) (\<lambda>fees.
     js_bind (js_fold (policy_fees st) (or_nil (policies st)) ([], fees)) (\<lambda>(_, fees).
     Inr fees)))"

definition updateUploadFees :: "backup \<Rightarrow> reducer_state io" where
  "updateUploadFees st =
     (case expiration st of
        None \<Rightarrow> io_return (Backup st)
      | Some expi \<Rightarrow>
          io_bind (io_env (\<lambda>e. fees_per_currency st expi (e_now e))) (\<lambda>r. io_js
            (js_bind r (\<lambda>fees.
             js_bind (js_map (\<lambda>(_, x). amounts_stringify (AmtJson x)) fees) (\<lambda>fs.
             Inr (Backup (st\<lparr>upload_fees := Some fs\<rparr>)))))))"

section \<open>Entering the secret\<close>

definition enterSecret :: "backup \<Rightarrow> string \<Rightarrow> string option \<Rightarrow> Timestamp option \<Rightarrow> reducer_state io" where
  "enterSecret st val mime expi =
     updateUploadFees (st\<lparr>expiration := expi,
       core_secret := Some \<lparr>cs_mime = (case mime of Some m \<Rightarrow> m | None \<Rightarrow> ''text/plain''), cs_value = val,
                            cs_filename = None\<rparr>,
       recovery_data := None\<rparr>)"

definition enterSecretName :: "backup \<Rightarrow> string \<Rightarrow> backup" where
  "enterSecretName st name = st\<lparr>secret_name := Some name\<rparr>"

definition updateSecretExpiration :: "backup \<Rightarrow> Timestamp option \<Rightarrow> reducer_state io" where
  "updateSecretExpiration st expi = updateUploadFees (st\<lparr>expiration := expi\<rparr>)"

end
