(* ===== verification/BackupUpload.thy ===== *)
theory BackupUpload
  imports BackupReducer
begin

text \<open>
  The upload of a backup (\<open>prepareRecoveryData\<close> and \<open>uploadSecret\<close> of anastasis-core/src/index.ts):
  key shares and truth metadata per pair of method and provider, the recovery document, one
  request per truth and one per policy provider, with the payments the providers ask for.
\<close>

section \<open>Preparing the recovery data\<close>

definition truth_reference :: "policy_member \<Rightarrow> string" where
  "truth_reference m = json_int (pm_authentication_method m) @ '':'' @ pm_provider m"

definition new_truth :: "nat \<Rightarrow> nat \<Rightarrow> truth_metadata io" where
  "new_truth policyIndex methIndex =
     io_bind (io_random 32) (\<lambda>share.
     io_bind (io_random 24) (\<lambda>nonce.
     io_bind (io_random 16) (\<lambda>slt.
     io_bind (io_random 64) (\<lambda>tkey.
     io_bind (io_random 32) (\<lambda>uuid.
     io_return \<lparr>tm_uuid = encodeCrock uuid, tm_key_share = encodeCrock share, tm_policy_index = policyIndex,
       tm_pol_method_index = methIndex, tm_nonce = encodeCrock nonce, tm_truth_key = encodeCrock tkey,
       tm_truth_salt = encodeCrock slt\<rparr>)))))"

definition truth_for ::
  "nat \<Rightarrow> nat \<Rightarrow> policy_member \<Rightarrow> truth_metadata obj \<Rightarrow> (truth_metadata \<times> truth_metadata obj) io" where
  "truth_for policyIndex methIndex m tms =
     (case js_get tms (truth_reference m) of
        Some tm \<Rightarrow> io_return (tm, tms)
      | None \<Rightarrow> io_bind (new_truth policyIndex methIndex) (\<lambda>tm.
                  io_return (tm, js_put (truth_reference m) tm tms)))"

text \<open>The truths of the methods of a policy, with the map they extend.\<close>

definition add_method ::
  "nat \<Rightarrow> nat \<times> policy_member \<Rightarrow> truth_metadata obj \<times> truth_metadata list
     \<Rightarrow> (truth_metadata obj \<times> truth_metadata list) io" where
  "add_method policyIndex = (\<lambda>(methIndex, m) (tms, used).
     io_bind (truth_for policyIndex methIndex m tms) (\<lambda>(tm, tms). io_return (tms, used @ [tm])))"

record prepared =
  pr_truths :: "truth_metadata obj"
  pr_keys :: "string list"
  pr_salts :: "string list"
  pr_uuids :: "string list list"

definition prepare_policy :: "nat \<times> policy option \<Rightarrow> prepared \<Rightarrow> prepared io" where
  "prepare_policy = (\<lambda>(policyIndex, p) pr.
     io_bind (io_random 64) (\<lambda>sb.
     io_bind (io_js (js_the p)) (\<lambda>pol.
     io_bind (io_fold (add_method policyIndex) (enumerate 0 (pol_methods pol)) (pr_truths pr, [])) (\<lambda>(tms, used).
     io_bind (io_js (policyKeyDerive (map tm_key_share used) (encodeCrock sb))) (\<lambda>pkey.
     io_return \<lparr>pr_truths = tms, pr_keys = pr_keys pr @ [pkey], pr_salts = pr_salts pr @ [encodeCrock sb],
                pr_uuids = pr_uuids pr @ [map tm_uuid used]\<rparr>)))))"

definition policy_at :: "policy option list \<Rightarrow> nat \<Rightarrow> policy option" where
  "policy_at ps i = (if i < length ps then ps ! i else None)"

text \<open>The policy member a truth was created for, and the method it refers to.\<close>

definition truth_member :: "backup \<Rightarrow> truth_metadata \<Rightarrow> policy_member js" where
  "truth_member st tm =
     js_bind (js_the (policies st)) (\<lambda>ps.
     js_bind (js_the (policy_at ps (tm_policy_index tm))) (\<lambda>pol.
     js_the (if tm_pol_method_index tm < length (pol_methods pol)
             then Some (pol_methods pol ! tm_pol_method_index tm) else None)))"

definition member_method :: "backup \<Rightarrow> policy_member \<Rightarrow> auth_method js" where
  "member_method st m =
     js_bind (js_the (authentication_methods st)) (\<lambda>ams.
     js_the (js_index ams (pm_authentication_method m)))"

definition provider_at :: "backup \<Rightarrow> string \<Rightarrow> provider_status js" where
  "provider_at st url = js_bind (js_the (authentication_providers st)) (\<lambda>ps. js_the (js_get ps url))"

definition make_escrow :: "backup \<Rightarrow> truth_metadata \<Rightarrow> escrow_method js" where
  "make_escrow st tm =
     js_bind (truth_member st tm) (\<lambda>meth.
     js_bind (member_method st meth) (\<lambda>am.
     js_bind (provider_at st (pm_provider meth)) (\<lambda>prov.
     Inr \<lparr>es_url = pm_provider meth, es_type = am_type am, es_uuid = tm_uuid tm, es_truth_key = tm_truth_key tm,
          es_truth_salt = tm_truth_salt tm, es_provider_salt = provider_salt prov,
          es_instructions = am_instructions am\<rparr>)))"

definition core_secret_json :: "core_secret option \<Rightarrow> jsval" where
  "core_secret_json cs =
     (case cs of
        None \<Rightarrow> JUndef
      | Some s \<Rightarrow> JObj ([(''mime'', JStr (cs_mime s)), (''value'', JStr (cs_value s))]
                          @ opt_field ''filename'' (cs_filename s)))"

definition make_policies :: "string list \<Rightarrow> string list list \<Rightarrow> string list \<Rightarrow> decryption_policy list" where
  "make_policies keys uuids salts =
     map (\<lambda>(k, us, s). \<lparr>dp_salt = s, dp_master_key = k, dp_uuids = us\<rparr>) (zip keys (zip uuids salts))"

definition prepareRecoveryData :: "backup \<Rightarrow> backup io" where
  "prepareRecoveryData st =
     (let coreSecret = encodeCrock (json_bytes (core_secret_json (core_secret st)))
      in io_bind (io_js (js_the (policies st))) (\<lambda>ps.
         io_bind (io_fold prepare_policy (enumerate 0 ps)
                    \<lparr>pr_truths = [], pr_keys = [], pr_salts = [], pr_uuids = []\<rparr>) (\<lambda>pr.
         io_bind (coreSecretEncrypt (pr_keys pr) coreSecret) (\<lambda>csr.
         io_bind (io_js (js_map (\<lambda>(_, tm). make_escrow st tm) (pr_truths pr))) (\<lambda>ems.
         io_return (st\<lparr>recovery_data := Some
           \<lparr>rcd_truth_metadata = pr_truths pr,
            rcd_recovery_document =
              \<lparr>rd_secret_name = secret_name st, rd_encrypted_core_secret = encCoreSecret csr,
               rd_escrow_methods = ems,
               rd_policies = make_policies (encMasterKeys csr) (pr_uuids pr) (pr_salts pr)\<rparr>\<rparr>\<rparr>))))))"

section \<open>Uploading the truths\<close>

type_synonym user_cache = "string obj"

definition getUserIdCaching :: "backup \<Rightarrow> string \<Rightarrow> user_cache \<Rightarrow> (string \<times> user_cache) io" where
  "getUserIdCaching st url cache =
     (case js_get cache url of
        Some (c # cs) \<Rightarrow> io_return (c # cs, cache)
      | _ \<Rightarrow>
          io_bind (io_js (provider_at st url)) (\<lambda>prov.
          io_bind (userId_for (identity_attributes st) (provider_salt prov)) (\<lambda>userId.
          io_return (userId, js_put url userId cache))))"

definition pay_timeout :: "string option \<Rightarrow> http_request \<Rightarrow> http_request" where
  "pay_timeout paySecret rq =
     (if truthy paySecret then rq\<lparr>rq_query := rq_query rq @ [(''timeout_ms'', ''500'')]\<rparr> else rq)"

definition pay_header :: "string option \<Rightarrow> (string \<times> string) list" where
  "pay_header paySecret =
     (if truthy paySecret then [(''Anastasis-Payment-Identifier'', the paySecret)] else [])"

definition truth_upload_json :: "string \<Rightarrow> string \<Rightarrow> auth_method \<Rightarrow> jsval" where
  "truth_upload_json encryptedTruth encryptedKeyShare am = JObj
     ([(''encrypted_truth'', JStr encryptedTruth), (''key_share_data'', JStr encryptedKeyShare),
       (''storage_duration_years'', JNum 5), (''type'', JStr (am_type am))]
      @ opt_field ''truth_mime'' (am_mime_type am))"

definition answer_salt :: "auth_method \<Rightarrow> string option js" where
  "answer_salt am =
     (if am_type am = ''question''
      then js_bind (decodeCrock (am_challenge am)) (\<lambda>c. Inr (Some (bytesToString c))) else Inr None)"

definition truth_request :: "string \<Rightarrow> string option \<Rightarrow> jsval \<Rightarrow> http_request \<Rightarrow> http_request" where
  "truth_request provider paySecret tur rq =
     (pay_timeout paySecret rq)\<lparr>rq_method := ''POST'',
        rq_headers := (''content-type'', ''application/json'') # pay_header paySecret,
        rq_body := TextBody (json_str tur)\<rparr>"

record payments_due =
  pd_uris :: "string list"
  pd_secrets :: "string obj"
  pd_cache :: user_cache

definition missing_pay_uri :: error_details where
  "missing_pay_uri = error_hint REDUCER_BACKEND_FAILURE ''payment requested, but no taler://pay URI given''"

text \<open>The answer to the upload of a truth: stored, to be paid for, or a failure that ends the upload.\<close>

definition truth_answer ::
  "string \<Rightarrow> http_response \<Rightarrow> payments_due \<Rightarrow> (error_details + payments_due) io" where
  "truth_answer provider resp due =
     (if rs_status resp = HttpNoContent then io_return (Inr due)
      else if rs_status resp = HttpPaymentRequired then
        (let uri = js_get (rs_headers resp) ''Taler''
         in if \<not> truthy uri then io_return (Inl missing_pay_uri)
            else io_bind (parsePayUri (the uri)) (\<lambda>parsed.
              case parsed of
                None \<Rightarrow> io_return (Inl missing_pay_uri)
              | Some u \<Rightarrow> io_return (Inr (due\<lparr>pd_uris := pd_uris due @ [the uri],
                              pd_secrets := js_put provider (pu_orderId u) (pd_secrets due)\<rparr>))))
      else io_return (Inl (error_hint REDUCER_NETWORK_FAILED
             (''could not upload truth (HTTP status '' @ nat_str (rs_status resp) @ '')''))))"

definition upload_truth ::
  "backup \<Rightarrow> string \<times> truth_metadata \<Rightarrow> payments_due \<Rightarrow> (error_details + payments_due) io" where
  "upload_truth st = (\<lambda>(_, tm) due.
     io_bind (io_js (truth_member st tm)) (\<lambda>meth.
     io_bind (io_js (member_method st meth)) (\<lambda>am.
     io_bind (getTruthValue am (tm_uuid tm) (tm_truth_salt tm)) (\<lambda>truthValue.
     io_bind (io_js (encryptTruth (tm_nonce tm) (tm_truth_key tm) truthValue)) (\<lambda>encryptedTruth.
     io_bind (getUserIdCaching st (pm_provider meth) (pd_cache due)) (\<lambda>(userId, cache).
     io_bind (io_js (answer_salt am)) (\<lambda>aslt.
     io_bind (encryptKeyshare (tm_key_share tm) userId aslt) (\<lambda>encryptedKeyShare.
     let tur = truth_upload_json encryptedTruth encryptedKeyShare am;
         paySecret = js_get (or_empty (truth_upload_payment_secrets st)) (pm_provider meth)
     in io_bind (io_url (''truth/'' @ tm_uuid tm) (pm_provider meth)) (\<lambda>rq.
        io_bind (io_fetch_ok (truth_request (pm_provider meth) paySecret tur rq)) (\<lambda>resp.
        truth_answer (pm_provider meth) resp (due\<lparr>pd_cache := cache\<rparr>)))))))))))"

section \<open>Uploading the policy document\<close>

record upload_result =
  ur_uris :: "string list"
  ur_requests :: "string obj"
  ur_success :: "success_detail obj"
  ur_cache :: user_cache

definition policy_answer ::
  "string \<Rightarrow> http_response \<Rightarrow> upload_result \<Rightarrow> (error_details + upload_result) io" where
  "policy_answer provider resp ur =
     (if rs_status resp = HttpNoContent then
        io_return (Inr (ur\<lparr>ur_success := js_put provider
          \<lparr>policy_version = header_number resp ''Anastasis-Version'',
           policy_expiration = map_option (\<lambda>n. 1000 * n) (header_number resp ''Anastasis-Policy-Expiration'')\<rparr>
          (ur_success ur)\<rparr>))
      else if rs_status resp = HttpPaymentRequired then
        (let uri = js_get (rs_headers resp) ''Taler''
         in if \<not> truthy uri then io_return (Inl missing_pay_uri)
            else io_bind (parsePayUri (the uri)) (\<lambda>parsed.
              case parsed of
                None \<Rightarrow> io_return (Inl missing_pay_uri)
              | Some u \<Rightarrow> io_return (Inr (ur\<lparr>ur_uris := ur_uris ur @ [the uri],
                              ur_requests := js_put provider (the uri) (ur_requests ur)\<rparr>))))
      else io_return (Inl (error_hint REDUCER_NETWORK_FAILED
             (''could not upload policy (http status '' @ nat_str (rs_status resp) @ '')''))))"

text \<open>A provider whose payment was requested before gets the order of that request as identifier.\<close>

definition policy_pay_secret :: "backup \<Rightarrow> string \<Rightarrow> string option io" where
  "policy_pay_secret st url =
     (let payto = map_option fst (case policy_payment_requests st of
                    None \<Rightarrow> None | Some rs \<Rightarrow> find (\<lambda>(_, p). p = url) rs)
      in if truthy payto
         then io_bind (parsePayUri (the payto)) (\<lambda>u. io_js (js_bind (js_the u) (\<lambda>u. Inr (Some (pu_orderId u)))))
         else io_return None)"

definition policy_request :: "string option \<Rightarrow> bytes \<Rightarrow> bytes \<Rightarrow> bytes \<Rightarrow> http_request \<Rightarrow> http_request" where
  "policy_request paySecret sig bodyHash body rq =
     (pay_timeout paySecret rq)\<lparr>rq_method := ''POST'',
        rq_headers := [(''Anastasis-Policy-Signature'', encodeCrock sig), (''If-None-Match'', encodeCrock bodyHash)]
          @ pay_header paySecret,
        rq_body := BytesBody body\<rparr>"

definition upload_policy ::
  "backup \<Rightarrow> recovery_document \<Rightarrow> policy_provider \<Rightarrow> upload_result \<Rightarrow> (error_details + upload_result) io" where
  "upload_policy st rd pp ur =
     (let url = pp_provider_url pp
      in io_bind (getUserIdCaching st url (ur_cache ur)) (\<lambda>(userId, cache).
         io_bind (accountKeypairDerive userId) (\<lambda>acct.
         io_bind (compressRecoveryDoc rd) (\<lambda>zippedDoc.
         io_bind (encryptRecoveryDocument userId (encodeCrock zippedDoc)) (\<lambda>encDoc.
         io_bind (io_js (decodeCrock encDoc)) (\<lambda>body.
         let bodyHash = nacl_hash body; sigPS = sp_build (sp_put bodyHash (buildSigPS ANASTASIS_POLICY_UPLOAD))
         in io_bind (io_js (decodeCrock (acct_priv acct))) (\<lambda>priv.
            io_bind (io_js (eddsaSign sigPS priv)) (\<lambda>sig.
            io_bind (policy_pay_secret st url) (\<lambda>paySecret.
            io_bind (io_url (''policy/'' @ acct_pub acct) url) (\<lambda>rq.
            io_bind (io_fetch_ok (policy_request paySecret sig bodyHash body rq)) (\<lambda>resp.
            policy_answer url resp (ur\<lparr>ur_cache := cache\<rparr>))))))))))))"

section \<open>The upload\<close>

definition upload_policies :: "backup \<Rightarrow> recovery_document \<Rightarrow> user_cache \<Rightarrow> reducer_state io" where
  "upload_policies st rd cache =
     io_bind (io_js (js_the (policy_providers st))) (\<lambda>pps.
     io_bind (io_loop (upload_policy st rd) pps
                \<lparr>ur_uris = [], ur_requests = [], ur_success = [], ur_cache = cache\<rparr>) (\<lambda>r.
     case r of
       Inl err \<Rightarrow> io_return (Error err)
     | Inr ur \<Rightarrow>
         if ur_uris ur \<noteq> [] then
           io_return (Backup (st\<lparr>backup_state := BPoliciesPaying, payments := Some (ur_uris ur),
             policy_payment_requests := Some (map (\<lambda>(p, uri). (uri, p)) (ur_requests ur))\<rparr>))
         else
           io_return (Backup (st\<lparr>core_secret := None, backup_state := BBackupFinished,
             success_details := Some (ur_success ur), payments := None\<rparr>))))"

definition upload_prepared :: "backup \<Rightarrow> recovery_data \<Rightarrow> reducer_state io" where
  "upload_prepared st rcd =
     io_bind (io_loop (upload_truth st) (rcd_truth_metadata rcd) \<lparr>pd_uris = [], pd_secrets = [], pd_cache = []\<rparr>) (\<lambda>r.
     case r of
       Inl err \<Rightarrow> io_return (Error err)
     | Inr due \<Rightarrow>
         if pd_uris due \<noteq> [] then
           io_return (Backup (st\<lparr>backup_state := BTruthsPaying,
             truth_upload_payment_secrets := Some (pd_secrets due), payments := Some (pd_uris due)\<rparr>))
         else upload_policies st (rcd_recovery_document rcd) (pd_cache due))"

definition uploadSecret :: "backup \<Rightarrow> reducer_state io" where
  "uploadSecret st =
     io_bind (case recovery_data st of None \<Rightarrow> prepareRecoveryData st | Some _ \<Rightarrow> io_return st) (\<lambda>st.
     case recovery_data st of
       None \<Rightarrow> io_throw (JsError ''invariant failed'')
     | Some rcd \<Rightarrow> upload_prepared st rcd)"

end
