(* ===== verification/RecoveryReducer.thy ===== *)
theory RecoveryReducer
  imports ReducerCommon
begin

text \<open>
  The recovery flow of anastasis-core/src/index.ts: finding and decrypting the recovery document,
  requesting truths and solving their challenges, and reconstructing the core secret from the key
  shares of one policy.
\<close>

section \<open>Choosing the place and the providers\<close>

definition recoverySelectContinent :: "recovery \<Rightarrow> string \<Rightarrow> reducer_state io" where
  "recoverySelectContinent st continent =
     io_bind (io_js (getCountries continent True)) (\<lambda>cos.
       io_return (Recovery (st\<lparr>recovery_state := RCountrySelecting, r_countries := Some cos,
         r_selected_continent := Some continent\<rparr>)))"

definition recoverySelectCountry :: "recovery \<Rightarrow> string \<Rightarrow> string list \<Rightarrow> reducer_state io" where
  "recoverySelectCountry st countryCode curs =
     io_bind (io_js (selectCountry (r_selected_continent st) countryCode curs)) (\<lambda>sel.
       io_return (Recovery (st\<lparr>recovery_state := RUserAttributesCollecting,
         r_selected_country := Some (sel_selected_country sel), r_currencies := Some (sel_currencies sel),
         r_required_attributes := Some (sel_required_attributes sel),
         r_authentication_providers := Some (sel_authentication_providers sel)\<rparr>)))"

definition addProviderRecovery :: "recovery \<Rightarrow> string \<Rightarrow> reducer_state io" where
  "addProviderRecovery st url =
     io_bind (getProviderInfo url) (\<lambda>info.
       io_return (Recovery (st\<lparr>r_authentication_providers :=
         Some (js_put url info (or_empty (r_authentication_providers st)))\<rparr>)))"

definition deleteProviderRecovery :: "recovery \<Rightarrow> string \<Rightarrow> recovery" where
  "deleteProviderRecovery st url =
     st\<lparr>r_authentication_providers := Some (js_del url (or_empty (r_authentication_providers st)))\<rparr>"

section \<open>Finding the recovery document\<close>

text \<open>\<open>"error_code" in pi || !("http_status" in pi)\<close>: an answer with another status than 200 passes.\<close>

definition check_provider :: "string \<Rightarrow> provider_status obj \<Rightarrow> provider_status obj io" where
  "check_provider url ps =
     io_bind (getProviderInfo url) (\<lambda>info.
       io_return (if has_error_code info \<or> provider_http_status info = None then ps else js_put url info ps))"

record found_document =
  fd_info :: recovery_internal_data
  fd_document :: recovery_document

definition version_query :: "int option \<Rightarrow> http_request \<Rightarrow> http_request" where
  "version_query v rq =
     (case v of
        Some n \<Rightarrow> if n \<noteq> 0 then rq\<lparr>rq_query := rq_query rq @ [(''version'', json_int n)]\<rparr> else rq
      | None \<Rightarrow> rq)"

definition read_policy :: "string \<Rightarrow> string \<Rightarrow> http_response \<Rightarrow> found_document io" where
  "read_policy url userId resp =
     io_bind (io_js (decryptRecoveryDocument userId (encodeCrock (rs_body resp)))) (\<lambda>bodyDecrypted.
     io_bind (io_js (decodeCrock bodyDecrypted)) (\<lambda>z.
     io_bind (uncompressRecoveryDoc z) (\<lambda>rd.
     io_return \<lparr>fd_info =
         \<lparr>ri_secret_name = (case rd_secret_name rd of Some n \<Rightarrow> n | None \<Rightarrow> ''<unknown>''),
          ri_provider_url = url, ri_version = header_number resp ''Anastasis-Version''\<rparr>,
       fd_document = rd\<rparr>)))"

text \<open>One round of the search: \<open>Inl\<close> breaks with what was found, \<open>Inr\<close> continues.\<close>

definition lookup_policy ::
  "recovery \<Rightarrow> provider_status obj \<Rightarrow> string \<Rightarrow> unit \<Rightarrow> (found_document + unit) io" where
  "lookup_policy st ps url u =
     (case js_get ps url of
        None \<Rightarrow> io_return (Inr ())
      | Some info \<Rightarrow>
          if truthy (selected_provider_url st) \<and> Some url \<noteq> selected_provider_url st then io_return (Inr ())
          else
            io_bind (userId_for (r_identity_attributes st) (provider_salt info)) (\<lambda>userId.
            io_bind (accountKeypairDerive userId) (\<lambda>acct.
            io_bind (io_url (''policy/'' @ acct_pub acct) url) (\<lambda>rq.
            io_bind (io_fetch_ok (version_query (selected_version st) rq)) (\<lambda>resp.
            if rs_status resp \<noteq> 200 then io_return (Inr ())
            else io_bind (read_policy url userId resp) (\<lambda>fd. io_return (Inl fd)))))))"

definition make_challenge :: "provider_status obj \<Rightarrow> escrow_method \<Rightarrow> challenge_info js" where
  "make_challenge ps x =
     js_bind (js_the (js_get ps (es_url x))) (\<lambda>prov.
     js_bind (js_the (provider_methods prov)) (\<lambda>ms.
     Inr \<lparr>ch_cost = (case find (\<lambda>m. ms_type m = es_type x) ms of Some m \<Rightarrow> ms_usage_fee m | None \<Rightarrow> None),
          ch_instructions = es_instructions x, ch_type = es_type x, ch_uuid = es_uuid x\<rparr>))"

definition policy_lookup_failed :: error_details where
  "policy_lookup_failed = error_hint REDUCER_POLICY_LOOKUP_FAILED
     ''No backups found at any provider for your identity information.''"

definition downloadPolicy :: "recovery \<Rightarrow> reducer_state io" where
  "downloadPolicy st =
     (let providerUrls = js_keys (or_empty (r_authentication_providers st))
      in io_bind (io_fold check_provider providerUrls []) (\<lambda>ps.
         io_bind (io_loop (lookup_policy st ps) providerUrls ()) (\<lambda>r.
         case r of
           Inr _ \<Rightarrow> io_return (Error policy_lookup_failed)
         | Inl fd \<Rightarrow>
             io_bind (io_js (js_map (make_challenge ps) (rd_escrow_methods (fd_document fd)))) (\<lambda>chs.
             io_return (Recovery (st\<lparr>recovery_state := RSecretSelecting, recovery_document := Some (fd_info fd),
               recovery_information := Some \<lparr>rinf_challenges = chs,
                 rinf_policies = map dp_uuids (rd_policies (fd_document fd))\<rparr>,
               verbatim_recovery_document := Some (fd_document fd)\<rparr>))))))"

definition recoveryEnterUserAttributes :: "recovery \<Rightarrow> jsval \<Rightarrow> reducer_state io" where
  "recoveryEnterUserAttributes st attributes =
     io_bind (refresh_providers (or_empty (r_authentication_providers st))) (\<lambda>newProviders.
       downloadPolicy (st\<lparr>r_identity_attributes := Some attributes,
         r_authentication_providers := Some newProviders\<rparr>))"

definition changeVersion :: "recovery \<Rightarrow> string \<Rightarrow> int \<Rightarrow> reducer_state io" where
  "changeVersion st url v =
     downloadPolicy (st\<lparr>selected_version := Some v, selected_provider_url := Some url\<rparr>)"

section \<open>Reconstructing the secret\<close>

text \<open>The shares of a policy, when none is missing (or empty).\<close>

fun policy_shares :: "string obj \<Rightarrow> string list \<Rightarrow> string list option" where
  "policy_shares ks [] = Some []"
| "policy_shares ks (u # us) =
     (if truthy (js_get ks u) then map_option ((#) (the (js_get ks u))) (policy_shares ks us) else None)"

fun usable_policy :: "string obj \<Rightarrow> decryption_policy list \<Rightarrow> (decryption_policy \<times> string list) option" where
  "usable_policy ks [] = None"
| "usable_policy ks (p # ps) =
     (case policy_shares ks (dp_uuids p) of Some shares \<Rightarrow> Some (p, shares) | None \<Rightarrow> usable_policy ks ps)"

definition recover_core_secret :: "recovery_document \<Rightarrow> decryption_policy \<Rightarrow> string list \<Rightarrow> jsval js" where
  "recover_core_secret rd p shares =
     js_bind (policyKeyDerive shares (dp_salt p)) (\<lambda>policyKey.
     js_bind (coreSecretRecover (dp_master_key p) policyKey (rd_encrypted_core_secret rd)) (\<lambda>cs.
     js_bind (decodeCrock cs) (\<lambda>b. JSON_parse (bytesToString b))))"

definition tryRecoverSecret :: "recovery \<Rightarrow> recovery js" where
  "tryRecoverSecret st =
     js_bind (js_the (verbatim_recovery_document st)) (\<lambda>rd.
     case usable_policy (or_empty (recovered_key_shares st)) (rd_policies rd) of
       None \<Rightarrow> Inr st
     | Some (p, shares) \<Rightarrow>
         js_bind (recover_core_secret rd p shares) (\<lambda>v.
         Inr (st\<lparr>recovery_state := RRecoveryFinished, selected_challenge_uuid := None,
                 r_core_secret := Some v\<rparr>)))"

definition nextFromChallengeSelecting :: "recovery \<Rightarrow> reducer_state io" where
  "nextFromChallengeSelecting st =
     io_bind (io_js (tryRecoverSecret st)) (\<lambda>s2.
       io_return (if recovery_state s2 = RRecoveryFinished then Recovery s2
                  else Error (error_hint REDUCER_ACTION_INVALID ''Not enough challenges solved'')))"

section \<open>Requesting a truth\<close>

definition js_truthy :: "jsval \<Rightarrow> bool" where
  "js_truthy v = (case v of
     JUndef \<Rightarrow> False | JNull \<Rightarrow> False | JBool b \<Rightarrow> b | JNum n \<Rightarrow> n \<noteq> 0 | JStr s \<Rightarrow> s \<noteq> [] | _ \<Rightarrow> True)"

text \<open>\<open>name in v\<close>: a primitive on the right-hand side throws.\<close>

definition js_in :: "string \<Rightarrow> jsval \<Rightarrow> bool js" where
  "js_in name v = (case v of
     JObj fs \<Rightarrow> Inr (name \<in> set (js_keys fs)) | JArr _ \<Rightarrow> Inr False | _ \<Rightarrow> Inl TypeError)"

fun strip_prefix_A :: "string \<Rightarrow> string" where
  "strip_prefix_A (a # b # s) = (if a = CHR ''A'' \<and> b = CHR ''-'' then s else a # b # s)"
| "strip_prefix_A s = s"

definition hex_string_val :: "string \<Rightarrow> nat" where
  "hex_string_val s = foldl (\<lambda>n c. 16 * n + the (hex_digit_val c)) 0 s"

text \<open>\<open>Number.parseInt(s)\<close>: the longest numeral at the start, \<open>None\<close> for \<open>NaN\<close>.\<close>

definition js_parseInt :: "string \<Rightarrow> int option" where
  "js_parseInt s =
     (let s = trim_ws s;
          neg = (take 1 s = ''-'');
          s = (if take 1 s = ''-'' \<or> take 1 s = ''+'' then drop 1 s else s);
          hex = (take 2 s = ''0x'' \<or> take 2 s = ''0X'');
          ds = (if hex then takeWhile (\<lambda>c. hex_digit_val c \<noteq> None) (drop 2 s) else takeWhile is_digit s);
          n = int (if hex then hex_string_val ds else str_nat ds)
      in if ds = [] then None else Some (if neg then - n else n))"

definition as_pin :: "jsval \<Rightarrow> int js" where
  "as_pin v = (case v of JNum n \<Rightarrow> Inr n | JUndef \<Rightarrow> Inl TypeError | JNull \<Rightarrow> Inl TypeError | _ \<Rightarrow> Inl IllTyped)"

definition pin_types :: "string list" where
  "pin_types = [''email'', ''sms'', ''post'', ''iban'', ''totp'']"

definition response_hash :: "escrow_method \<Rightarrow> jsval \<Rightarrow> string io" where
  "response_hash truth req =
     (if es_type truth = ''question'' then
        io_bind (io_js (js_in ''answer'' req)) (\<lambda>has.
          if has then io_bind (io_js (arg_prop ''answer'' as_string req)) (\<lambda>a.
                        secureAnswerHash a (es_uuid truth) (es_truth_salt truth))
          else io_throw (JsError ''unsupported answer request''))
      else if es_type truth \<in> set pin_types then
        io_bind (io_js (js_in ''answer'' req)) (\<lambda>has.
          if has then io_bind (io_js (arg_prop ''answer'' as_string req)) (\<lambda>a.
                        io_return (pinAnswerHash (js_parseInt (strip_prefix_A (trim_ws a)))))
          else io_bind (io_js (js_in ''pin'' req)) (\<lambda>has.
            if has then io_bind (io_js (arg_prop ''pin'' as_pin req)) (\<lambda>p. io_return (pinAnswerHash (Some p)))
            else io_throw (JsError ''unsupported answer request'')))
      else io_throw (JsError (''unsupported challenge type '' @ [CHR 0x22] @ es_type truth @ [CHR 0x22, CHR 0x22])))"

definition set_feedback :: "string \<Rightarrow> challenge_feedback \<Rightarrow> recovery \<Rightarrow> recovery" where
  "set_feedback uuid fb st = st\<lparr>challenge_feedback := Some (js_put uuid fb (or_empty (challenge_feedback st)))\<rparr>"

definition truth_get :: "escrow_method \<Rightarrow> string option \<Rightarrow> http_request \<Rightarrow> http_request" where
  "truth_get truth response rq =
     rq\<lparr>rq_query := (case response of Some h \<Rightarrow> [(''response'', h)] | None \<Rightarrow> []),
        rq_headers := [(''Anastasis-Truth-Decryption-Key'', es_truth_key truth)]\<rparr>"

text \<open>Status 200: the key share is decrypted and the policies are tried.\<close>

definition share_salt :: "escrow_method \<Rightarrow> jsval \<Rightarrow> string option js" where
  "share_salt truth req =
     (if js_truthy req \<and> es_type truth = ''question'' then
        js_bind (js_in ''answer'' req) (\<lambda>has.
          if has then js_bind (arg_prop ''answer'' as_string req) (\<lambda>a. Inr (Some a)) else Inr None)
      else Inr None)"

definition truth_solved :: "recovery \<Rightarrow> escrow_method \<Rightarrow> jsval \<Rightarrow> http_response \<Rightarrow> reducer_state io" where
  "truth_solved st truth req resp =
     io_bind (io_js (share_salt truth req)) (\<lambda>answerSalt.
     io_bind (userId_for (r_identity_attributes st) (es_provider_salt truth)) (\<lambda>userId.
     io_bind (io_js (decryptKeyShare (encodeCrock (rs_body resp)) userId answerSalt)) (\<lambda>keyShare.
     io_bind (io_js (tryRecoverSecret
        ((set_feedback (es_uuid truth) Solved st)\<lparr>recovery_state := RChallengeSelecting,
           recovered_key_shares := Some (js_put (es_uuid truth) keyShare (or_empty (recovered_key_shares st)))\<rparr>)))
       (\<lambda>s2. io_return (Recovery s2)))))"

text \<open>Status 403: the challenge was issued, or the answer was wrong.\<close>

definition hint_message :: "jsval \<Rightarrow> string js" where
  "hint_message h = (case h of
     JUndef \<Rightarrow> Inr ''Challenge should be solved'' | JNull \<Rightarrow> Inr ''Challenge should be solved''
   | JStr s \<Rightarrow> Inr s | _ \<Rightarrow> Inl IllTyped)"

definition forbidden_feedback :: "jsval \<Rightarrow> challenge_feedback js" where
  "forbidden_feedback body =
     js_bind (js_prop body ''code'') (\<lambda>c.
       if c = JNum (int TRUTH_CHALLENGE_RESPONSE_REQUIRED) then Inr Pending
       else js_bind (arg_prop ''hint'' hint_message body) (\<lambda>m. Inr (Message m)))"

definition truth_forbidden :: "recovery \<Rightarrow> escrow_method \<Rightarrow> http_response \<Rightarrow> reducer_state js" where
  "truth_forbidden st truth resp =
     js_bind (response_json resp) (\<lambda>body.
     js_bind (forbidden_feedback body) (\<lambda>fb.
     Inr (Recovery ((set_feedback (es_uuid truth) fb st)\<lparr>recovery_state := RChallengeSolving\<rparr>))))"

text \<open>Status 202: an external authentication, of which a bank transfer is the only known kind.\<close>

definition iban_details :: "jsval \<Rightarrow> iban_feedback js" where
  "iban_details body =
     js_bind (js_prop body ''answer_code'') (\<lambda>code.
     js_bind (js_prop body ''details'') (\<lambda>d.
     js_bind (js_prop d ''business_name'') (\<lambda>bn.
     js_bind (js_prop d ''challenge_amount'') (\<lambda>am.
     js_bind (js_prop d ''credit_iban'') (\<lambda>ib.
     js_bind (js_prop d ''wire_transfer_subject'') (\<lambda>ws.
     Inr \<lparr>if_answer_code = int_field code, if_business_name = str_field bn, if_challenge_amount = str_field am,
          if_credit_iban = str_field ib, if_wire_transfer_subject = str_field ws\<rparr>))))))"

definition truth_accepted :: "recovery \<Rightarrow> escrow_method \<Rightarrow> http_response \<Rightarrow> reducer_state js" where
  "truth_accepted st truth resp =
     js_bind (response_json resp) (\<lambda>body.
     js_bind (js_prop body ''method'') (\<lambda>m.
     if m = JStr ''iban'' then
       js_bind (iban_details body) (\<lambda>fb.
       Inr (Recovery ((set_feedback (es_uuid truth) (AuthIban fb) st)\<lparr>recovery_state := RChallengeSolving\<rparr>)))
     else Inr (Error (error_status TRUTH_CHALLENGE_FAILED ''unknown external authentication method''
                (rs_status resp)))))"

definition truth_response :: "recovery \<Rightarrow> escrow_method \<Rightarrow> jsval \<Rightarrow> http_response \<Rightarrow> reducer_state io" where
  "truth_response st truth req resp =
     (if rs_status resp = HttpOk then truth_solved st truth req resp
      else if rs_status resp = HttpForbidden then io_js (truth_forbidden st truth resp)
      else if rs_status resp = HttpAccepted then io_js (truth_accepted st truth resp)
      else io_return (Error (error_status TRUTH_CHALLENGE_FAILED ''got unexpected /truth/ response status''
             (rs_status resp))))"

definition requestTruth :: "recovery \<Rightarrow> escrow_method \<Rightarrow> jsval \<Rightarrow> reducer_state io" where
  "requestTruth st truth req =
     io_bind (io_url (''/truth/'' @ es_uuid truth) (es_url truth)) (\<lambda>rq.
     io_bind (if js_truthy req then io_bind (response_hash truth req) (\<lambda>h. io_return (Some h))
              else io_return None) (\<lambda>response.
     io_bind (io_fetch_ok (truth_get truth response rq)) (truth_response st truth req)))"

definition escrow_of :: "recovery \<Rightarrow> string option \<Rightarrow> escrow_method option js" where
  "escrow_of st uuid =
     js_bind (js_the (verbatim_recovery_document st)) (\<lambda>rd.
     Inr (find (\<lambda>x. Some (es_uuid x) = uuid) (rd_escrow_methods rd)))"

definition solveChallenge :: "recovery \<Rightarrow> jsval \<Rightarrow> reducer_state io" where
  "solveChallenge st req =
     io_bind (io_js (escrow_of st (selected_challenge_uuid st))) (\<lambda>truth.
       case truth of
         None \<Rightarrow> io_throw (JsError ''truth for challenge not found'')
       | Some t \<Rightarrow> requestTruth st t req)"

definition selectChallenge :: "recovery \<Rightarrow> string \<Rightarrow> reducer_state io" where
  "selectChallenge st uuid =
     io_bind (io_js (escrow_of st (Some uuid))) (\<lambda>truth.
       case truth of
         None \<Rightarrow> io_throw (JsThrow ''truth for challenge not found'')
       | Some t \<Rightarrow> requestTruth (st\<lparr>selected_challenge_uuid := Some uuid\<rparr>) t JUndef)"

text \<open>Polling repeats the requests of the challenges that wait for a bank transfer.\<close>

definition pin_request :: "iban_feedback \<Rightarrow> jsval" where
  "pin_request fb = JObj [(''pin'', case if_answer_code fb of Some n \<Rightarrow> JNum n | None \<Rightarrow> JUndef)]"

definition poll_challenge :: "string \<Rightarrow> recovery \<Rightarrow> recovery io" where
  "poll_challenge uuid st =
     (if recovery_state st = RRecoveryFinished then io_return st
      else
        io_bind (io_js (escrow_of st (Some uuid))) (\<lambda>truth.
        case truth of
          None \<Rightarrow> io_return st
        | Some t \<Rightarrow>
            (case js_get (or_empty (challenge_feedback st)) uuid of
               Some (AuthIban fb) \<Rightarrow>
                 io_bind (requestTruth st t (pin_request fb)) (\<lambda>s2.
                   io_return (case s2 of Recovery r \<Rightarrow> r | _ \<Rightarrow> st))
             | _ \<Rightarrow> io_return st)))"

definition pollChallenges :: "recovery \<Rightarrow> reducer_state io" where
  "pollChallenges st =
     io_bind (io_fold poll_challenge (js_keys (or_empty (challenge_feedback st))) st) (\<lambda>s2.
       io_return (Recovery s2))"

end
