(* ===== verification/Reducer.thy ===== *)
theory Reducer
  imports BackupUpload RecoveryReducer
begin

text \<open>
  The state machines of anastasis-core/src/index.ts: per state the actions with the codec of their
  argument and their handler, and \<open>reduceAction\<close>, which looks an action up, validates the argument
  and turns a thrown \<open>ReducerError\<close> into an error state.
\<close>

section \<open>Handlers on raw arguments\<close>

definition with_arg :: "string \<Rightarrow> (jsval \<Rightarrow> 'a js) \<Rightarrow> ('a \<Rightarrow> 'b io) \<Rightarrow> jsval \<Rightarrow> 'b io" where
  "with_arg name f k args = io_bind (io_js (arg_prop name f args)) k"

definition nullish :: "(jsval \<Rightarrow> 'a js) \<Rightarrow> jsval \<Rightarrow> 'a option js" where
  "nullish f v = (if v = JUndef \<or> v = JNull then Inr None else js_bind (f v) (\<lambda>x. Inr (Some x)))"

definition enterSecret_args :: "backup \<Rightarrow> jsval \<Rightarrow> reducer_state io" where
  "enterSecret_args st args =
     with_arg ''expiration'' (as_optional as_timestamp) (\<lambda>expi.
     with_arg ''secret'' Inr (\<lambda>sec.
     with_arg ''mime'' (nullish as_string) (\<lambda>mime.
     with_arg ''value'' as_string (\<lambda>val. enterSecret st val mime expi) sec) sec) args) args"

section \<open>The tables\<close>

type_synonym 's handler = "'s \<Rightarrow> jsval \<Rightarrow> reducer_state io"
type_synonym 's transitions = "(codec \<times> 's handler) obj"

definition transition :: "string \<Rightarrow> codec \<Rightarrow> 's handler \<Rightarrow> 's transitions" where
  "transition action argCodec handler = [(action, (argCodec, handler))]"

definition transitionBackupJump :: "string \<Rightarrow> backup_states \<Rightarrow> backup transitions" where
  "transitionBackupJump action s = [(action, (codecForAny, \<lambda>st a. io_return (Backup (st\<lparr>backup_state := s\<rparr>))))]"

definition transitionRecoveryJump :: "string \<Rightarrow> recovery_states \<Rightarrow> recovery transitions" where
  "transitionRecoveryJump action s = [(action, (codecForAny, \<lambda>st a. io_return (Recovery (st\<lparr>recovery_state := s\<rparr>))))]"

definition b_select_continent :: "backup transitions" where
  "b_select_continent = transition ''select_continent'' codecForActionArgSelectContinent
     (\<lambda>st. with_arg ''continent'' as_string (backupSelectContinent st))"

definition b_select_country :: "backup transitions" where
  "b_select_country = transition ''select_country'' codecForActionArgSelectCountry
     (\<lambda>st args. with_arg ''country_code'' as_string (\<lambda>c.
        with_arg ''currencies'' (as_list as_string) (backupSelectCountry st c) args) args)"

definition authentications_editing :: "backup transitions" where
  "authentications_editing =
     transitionBackupJump ''back'' BUserAttributesCollecting
     @ transition ''add_authentication'' codecForAny
         (\<lambda>st. with_arg ''authentication_method'' as_auth_method (\<lambda>m. io_return (Backup (addAuthentication st m))))
     @ transition ''delete_authentication'' codecForAny
         (\<lambda>st. with_arg ''authentication_method'' as_number (\<lambda>i. io_return (Backup (deleteAuthentication st i))))
     @ transition ''add_provider'' codecForAny (\<lambda>st. with_arg ''provider_url'' as_string (addProviderBackup st))
     @ transition ''delete_provider'' codecForAny
         (\<lambda>st. with_arg ''provider_url'' as_string (\<lambda>u. io_return (Backup (deleteProviderBackup st u))))
     @ transition ''next'' codecForAny (\<lambda>st _. io_js (nextFromAuthenticationsEditing st))"

definition policies_reviewing :: "backup transitions" where
  "policies_reviewing =
     transitionBackupJump ''back'' BAuthenticationsEditing
     @ transitionBackupJump ''next'' BSecretEditing
     @ transition ''add_policy'' codecForActionArgsAddPolicy
         (\<lambda>st. with_arg ''policy'' (as_list as_policy_member) (\<lambda>ms. io_return (Backup (addPolicy st ms))))
     @ transition ''delete_policy'' codecForAny
         (\<lambda>st. with_arg ''policy_index'' as_number (\<lambda>i. io_return (Backup (deletePolicy st i))))
     @ transition ''update_policy'' codecForAny
         (\<lambda>st args. with_arg ''policy_index'' as_number (\<lambda>i.
            with_arg ''policy'' (as_list as_policy_member) (\<lambda>ms. io_return (Backup (updatePolicy st i ms))) args) args)"

definition secret_editing :: "backup transitions" where
  "secret_editing =
     transitionBackupJump ''back'' BPoliciesReviewing
     @ transition ''next'' codecForAny (\<lambda>st _. uploadSecret st)
     @ transition ''enter_secret'' codecForAny enterSecret_args
     @ transition ''update_expiration'' codecForActionArgsUpdateExpiration
         (\<lambda>st. with_arg ''expiration'' (as_optional as_timestamp) (updateSecretExpiration st))
     @ transition ''enter_secret_name'' codecForAny
         (\<lambda>st. with_arg ''name'' as_string (\<lambda>n. io_return (Backup (enterSecretName st n))))"

definition backupTransitions :: "backup_states \<Rightarrow> backup transitions" where
  "backupTransitions s =
     (case s of
        BContinentSelecting \<Rightarrow> b_select_continent
      | BCountrySelecting \<Rightarrow> transitionBackupJump ''back'' BContinentSelecting @ b_select_country @ b_select_continent
      | BUserAttributesCollecting \<Rightarrow>
          transitionBackupJump ''back'' BCountrySelecting
          @ transition ''enter_user_attributes'' codecForActionArgsEnterUserAttributes
              (\<lambda>st. with_arg ''identity_attributes'' Inr (backupEnterUserAttributes st))
      | BAuthenticationsEditing \<Rightarrow> authentications_editing
      | BPoliciesReviewing \<Rightarrow> policies_reviewing
      | BSecretEditing \<Rightarrow> secret_editing
      | BPoliciesPaying \<Rightarrow>
          transitionBackupJump ''back'' BSecretEditing @ transition ''pay'' codecForAny (\<lambda>st _. uploadSecret st)
      | BTruthsPaying \<Rightarrow>
          transitionBackupJump ''back'' BSecretEditing @ transition ''pay'' codecForAny (\<lambda>st _. uploadSecret st)
      | BBackupFinished \<Rightarrow> transitionBackupJump ''back'' BSecretEditing)"

definition r_select_continent :: "recovery transitions" where
  "r_select_continent = transition ''select_continent'' codecForActionArgSelectContinent
     (\<lambda>st. with_arg ''continent'' as_string (recoverySelectContinent st))"

definition r_select_country :: "recovery transitions" where
  "r_select_country = transition ''select_country'' codecForActionArgSelectCountry
     (\<lambda>st args. with_arg ''country_code'' as_string (\<lambda>c.
        with_arg ''currencies'' (as_list as_string) (recoverySelectCountry st c) args) args)"

definition secret_selecting :: "recovery transitions" where
  "secret_selecting =
     transitionRecoveryJump ''back'' RUserAttributesCollecting
     @ transitionRecoveryJump ''next'' RChallengeSelecting
     @ transition ''add_provider'' codecForAny (\<lambda>st. with_arg ''provider_url'' as_string (addProviderRecovery st))
     @ transition ''delete_provider'' codecForAny
         (\<lambda>st. with_arg ''provider_url'' as_string (\<lambda>u. io_return (Recovery (deleteProviderRecovery st u))))
     @ transition ''change_version'' codecForActionArgsChangeVersion
         (\<lambda>st args. with_arg ''version'' as_number (\<lambda>v.
            with_arg ''provider_url'' as_string (\<lambda>u. changeVersion st u v) args) args)"

definition challenge_selecting :: "recovery transitions" where
  "challenge_selecting =
     transitionRecoveryJump ''back'' RSecretSelecting
     @ transition ''select_challenge'' codecForActionArgsSelectChallenge
         (\<lambda>st. with_arg ''uuid'' as_string (selectChallenge st))
     @ transition ''poll'' codecForAny (\<lambda>st _. pollChallenges st)
     @ transition ''next'' codecForAny (\<lambda>st _. nextFromChallengeSelecting st)"

definition recoveryTransitions :: "recovery_states \<Rightarrow> recovery transitions" where
  "recoveryTransitions s =
     (case s of
        RContinentSelecting \<Rightarrow> r_select_continent
      | RCountrySelecting \<Rightarrow> transitionRecoveryJump ''back'' RContinentSelecting @ r_select_country @ r_select_continent
      | RUserAttributesCollecting \<Rightarrow>
          transitionRecoveryJump ''back'' RCountrySelecting
          @ transition ''enter_user_attributes'' codecForActionArgsEnterUserAttributes
              (\<lambda>st. with_arg ''identity_attributes'' Inr (recoveryEnterUserAttributes st))
      | RSecretSelecting \<Rightarrow> secret_selecting
      | RChallengeSelecting \<Rightarrow> challenge_selecting
      | RChallengeSolving \<Rightarrow>
          transitionRecoveryJump ''back'' RChallengeSelecting @ transition ''solve_challenge'' codecForAny solveChallenge
      | RChallengePaying \<Rightarrow> []
      | RRecoveryFinished \<Rightarrow> transitionRecoveryJump ''back'' RChallengeSelecting)"

section \<open>Start states\<close>

definition empty_backup :: backup where
  "empty_backup =
     \<lparr>backup_state = BContinentSelecting, currencies = None, continents = None, countries = None,
      identity_attributes = None, authentication_providers = None, authentication_methods = None,
      required_attributes = None, selected_continent = None, selected_country = None, secret_name = None,
      policies = None, recovery_data = None, policy_providers = None, success_details = None, payments = None,
      policy_payment_requests = None, core_secret = None, expiration = None, upload_fees = None,
      truth_upload_payment_secrets = None\<rparr>"

definition empty_recovery :: recovery where
  "empty_recovery =
     \<lparr>recovery_state = RContinentSelecting, r_identity_attributes = None, r_continents = None, r_countries = None,
      r_selected_continent = None, r_selected_country = None, r_currencies = None, r_required_attributes = None,
      recovery_information = None, recovery_document = None, verbatim_recovery_document = None,
      selected_challenge_uuid = None, selected_version = None, selected_provider_url = None,
      challenge_feedback = None, recovered_key_shares = None, r_core_secret = None,
      r_authentication_providers = None\<rparr>"

definition getBackupStartState :: backup where
  "getBackupStartState = empty_backup\<lparr>backup_state := BContinentSelecting, continents := Some (getContinents True)\<rparr>"

definition getRecoveryStartState :: recovery where
  "getRecoveryStartState =
     empty_recovery\<lparr>recovery_state := RContinentSelecting, r_continents := Some (getContinents True)\<rparr>"

section \<open>The reducer\<close>

text \<open>\<open>e.toString()\<close>; the text of a \<open>TypeError\<close> is the engine's and left out.\<close>

definition exn_string :: "js_exn \<Rightarrow> string" where
  "exn_string x =
     (case x of DecodingError m \<Rightarrow> ''DecodingError: '' @ m | JsError m \<Rightarrow> ''Error: '' @ m | _ \<Rightarrow> ''TypeError'')"

definition unsupported_action :: "string \<Rightarrow> string \<Rightarrow> error_details" where
  "unsupported_action action stateName = error_hint REDUCER_ACTION_INVALID
     (''Unsupported action '' @ [CHR 0x27] @ action @ [CHR 0x27] @ '' in state ''
        @ [CHR 0x27] @ stateName @ [CHR 0x27])"

definition invalid_argument :: "js_exn \<Rightarrow> error_details" where
  "invalid_argument x = \<lparr>ed_code = REDUCER_INPUT_INVALID, ed_hint = Some ''argument validation failed'',
     ed_message = Some (exn_string x), ed_http_status = None\<rparr>"

definition invalid_state :: error_details where
  "invalid_state = error_hint REDUCER_ACTION_INVALID ''Invalid state (needs backup_state or recovery_state)''"

definition reducer_errors :: "reducer_state io \<Rightarrow> reducer_state io" where
  "reducer_errors m = io_catch m (\<lambda>x. case x of ReducerError d \<Rightarrow> io_return (Error d) | _ \<Rightarrow> io_throw x)"

text \<open>
  The tables are object literals: the names of \<open>Object.prototype\<close> are found in them too, as values
  without an \<open>argCodec\<close>.
\<close>

definition dispatch :: "'s transitions \<Rightarrow> string \<Rightarrow> 's \<Rightarrow> string \<Rightarrow> jsval \<Rightarrow> reducer_state io" where
  "dispatch table stateName st action args =
     (case js_get table action of
        None \<Rightarrow>
          if action \<in> set inherited_names then io_return (Error (invalid_argument TypeError))
          else io_return (Error (unsupported_action action stateName))
      | Some (argCodec, handler) \<Rightarrow>
          (case argCodec args None of
             Inl x \<Rightarrow> io_return (Error (invalid_argument x))
           | Inr parsedArgs \<Rightarrow> reducer_errors (handler st parsedArgs)))"

definition reduceAction :: "reducer_state \<Rightarrow> string \<Rightarrow> jsval \<Rightarrow> reducer_state io" where
  "reduceAction state action args =
     (case state of
        Backup b \<Rightarrow>
          dispatch (backupTransitions (backup_state b)) (backup_state_name (backup_state b)) b action args
      | Recovery r \<Rightarrow>
          dispatch (recoveryTransitions (recovery_state r)) (recovery_state_name (recovery_state r)) r action args
      | Error _ \<Rightarrow> io_return (Error invalid_state))"

end
