(* ===== verification/IoLogic.thy ===== *)
theory IoLogic
  imports Effects
begin

text \<open>
  Reasoning about effectful programs by their parts.  \<open>post m Q\<close>: whatever \<open>m\<close> returns satisfies
  \<open>Q\<close>.  \<open>within R m\<close>: however \<open>m\<close> ends, the world it leaves is related by \<open>R\<close> to the one it found;
  the rules for the combinators hold for every reflexive and transitive relation that allows
  random draws (locale \<open>world_rel\<close>), and are used for "only appends to the log" and for "every
  request sent satisfies \<open>P\<close>".
\<close>

named_theorems post_intros \<open>postconditions of programs\<close>
named_theorems within_intros \<open>what programs do to the world\<close>

lemma io_bind_sum:
  "io_bind m (\<lambda>r. case r of Inl a \<Rightarrow> f a | Inr b \<Rightarrow> g b) e w = (Inr y, w') \<longleftrightarrow>
    (\<exists>a u. m e w = (Inr (Inl a), u) \<and> f a e u = (Inr y, w')) \<or> (\<exists>b u. m e w = (Inr (Inr b), u) \<and> g b e u = (Inr y, w'))"
  (is "?l = ?r")
proof
  assume ?l
  then obtain r u where "m e w = (Inr r, u)" "(case r of Inl a \<Rightarrow> f a | Inr b \<Rightarrow> g b) e u = (Inr y, w')"
    by (auto simp: io_bind_Inr_iff)
  then show ?r by (cases r) auto
next
  assume ?r
  then show ?l by auto
qed

section \<open>Postconditions\<close>

definition post :: "'a io \<Rightarrow> ('a \<Rightarrow> bool) \<Rightarrow> bool" where
  "post m Q \<longleftrightarrow> (\<forall>e w v w'. m e w = (Inr v, w') \<longrightarrow> Q v)"

lemma postD: "post m Q \<Longrightarrow> m e w = (Inr v, w') \<Longrightarrow> Q v"
  by (auto simp: post_def)

lemma post_return [post_intros]: "Q v \<Longrightarrow> post (io_return v) Q"
  by (simp add: post_def io_return_def)

lemma post_throw [post_intros]: "post (io_throw x) Q"
  by (simp add: post_def io_throw_def)

lemma post_js: "(\<And>v. m = Inr v \<Longrightarrow> Q v) \<Longrightarrow> post (io_js m) Q"
  by (auto simp: post_def io_js_def)

lemma post_True [simp, intro]: "post m (\<lambda>_. True)"
  by (simp add: post_def)

lemma post_bind: "post m P \<Longrightarrow> (\<And>x. P x \<Longrightarrow> post (f x) Q) \<Longrightarrow> post (io_bind m f) Q"
  by (fastforce simp: post_def io_bind_Inr_iff)

lemma post_bind_any [post_intros]: "(\<And>x. post (f x) Q) \<Longrightarrow> post (io_bind m f) Q"
  by (rule post_bind [OF post_True])

lemma post_bind_js: "(\<And>v. m = Inr v \<Longrightarrow> post (f v) Q) \<Longrightarrow> post (io_bind (io_js m) f) Q"
  by (cases m) (auto simp: post_def)

lemma post_weaken: "post m P \<Longrightarrow> (\<And>x. P x \<Longrightarrow> Q x) \<Longrightarrow> post m Q"
  by (auto simp: post_def)

lemma post_conj: "post m P \<Longrightarrow> post m Q \<Longrightarrow> post m (\<lambda>v. P v \<and> Q v)"
  by (auto simp: post_def)

lemma post_catch: "post m Q \<Longrightarrow> (\<And>x. post (h x) Q) \<Longrightarrow> post (io_catch m h) Q"
  by (fastforce simp: post_def io_catch_def split: prod.splits sum.splits)

lemma post_fold:
  assumes "I s" "\<And>x s. x \<in> set xs \<Longrightarrow> I s \<Longrightarrow> post (f x s) I"
  shows "post (io_fold f xs s) I"
  using assms
proof (induction xs arbitrary: s)
  case (Cons x xs)
  show ?case
    using Cons.prems by (auto intro!: post_bind [where P = I] Cons.IH)
qed (simp add: post_return)

lemma post_loop:
  assumes "I s" "\<And>x s. x \<in> set xs \<Longrightarrow> I s \<Longrightarrow> post (f x s) (case_sum Q I)"
  shows "post (io_loop f xs s) (case_sum Q I)"
  using assms
proof (induction xs arbitrary: s)
  case (Cons x xs)
  have "post (case r of Inl v \<Rightarrow> io_return (Inl v) | Inr t \<Rightarrow> io_loop f xs t) (case_sum Q I)"
    if "case_sum Q I r" for r
    using that Cons.prems(2) by (cases r) (auto intro!: post_return Cons.IH)
  then show ?case
    using Cons.prems by (auto intro!: post_bind [where P = "case_sum Q I"])
qed (simp add: post_return)

section \<open>Relations between worlds\<close>

definition within :: "(world \<Rightarrow> world \<Rightarrow> bool) \<Rightarrow> 'a io \<Rightarrow> bool" where
  "within R m \<longleftrightarrow> (\<forall>e w. R w (snd (m e w)))"

lemma withinD: "within R m \<Longrightarrow> m e w = (r, w') \<Longrightarrow> R w w'"
  by (metis within_def snd_conv)

locale world_rel =
  fixes R :: "world \<Rightarrow> world \<Rightarrow> bool"
  assumes refl: "R w w"
    and trans: "R u v \<Longrightarrow> R v w \<Longrightarrow> R u w"
    and draw: "R w (w\<lparr>w_drawn := Suc (w_drawn w)\<rparr>)"
begin

lemma within_pure: "within R (io_return v)" "within R (io_throw x)" "within R (io_js m)" "within R (io_env f)"
  by (simp_all add: within_def refl)

lemma within_random: "within R (io_random n)"
  by (simp add: within_def draw)

lemma within_url: "within R (io_url p b)"
  by (simp add: within_def io_url_def refl)

lemma within_bind: "within R m \<Longrightarrow> (\<And>v. within R (f v)) \<Longrightarrow> within R (io_bind m f)"
  unfolding within_def io_bind_def by (auto split: prod.splits sum.splits) (metis snd_conv trans)+

lemma within_bind_post:
  assumes "within R m" "post m P" "\<And>v. P v \<Longrightarrow> within R (f v)"
  shows "within R (io_bind m f)"
  unfolding within_def
proof (intro allI)
  fix e w
  obtain r w1 where m: "m e w = (r, w1)" by (cases "m e w")
  show "R w (snd (io_bind m f e w))"
  proof (cases r)
    case (Inl x)
    with m withinD [OF assms(1) m] show ?thesis by simp
  next
    case (Inr v)
    with m assms(2) have "P v" by (auto dest: postD)
    with assms(3) have "R w1 (snd (f v e w1))" by (simp add: within_def)
    with m Inr withinD [OF assms(1) m] show ?thesis by (simp add: trans [of w w1])
  qed
qed

lemma within_catch: "within R m \<Longrightarrow> (\<And>x. within R (h x)) \<Longrightarrow> within R (io_catch m h)"
  unfolding within_def io_catch_def by (auto split: prod.splits sum.splits) (metis snd_conv trans)+

lemma within_fold: "(\<And>x s. x \<in> set xs \<Longrightarrow> within R (f x s)) \<Longrightarrow> within R (io_fold f xs s)"
  by (induction xs arbitrary: s) (auto intro: within_bind within_pure)

lemma within_loop: "(\<And>x s. x \<in> set xs \<Longrightarrow> within R (f x s)) \<Longrightarrow> within R (io_loop f xs s)"
  by (induction xs arbitrary: s) (auto intro!: within_bind within_pure split: sum.split)

lemma within_fetch:
  assumes "\<And>w. R w (w\<lparr>w_sent := w_sent w @ [rq]\<rparr>)"
  shows "within R (io_fetch rq)" "within R (io_fetch_ok rq)"
proof -
  show f: "within R (io_fetch rq)"
    using assms by (simp add: within_def io_fetch_def)
  show "within R (io_fetch_ok rq)"
    unfolding io_fetch_ok_def by (intro within_bind f within_pure)
qed

end

text \<open>The requests sent in between satisfy \<open>P\<close>, and nothing is taken back.\<close>

definition sends :: "(http_request \<Rightarrow> bool) \<Rightarrow> world \<Rightarrow> world \<Rightarrow> bool" where
  "sends P w w' \<longleftrightarrow> w_drawn w \<le> w_drawn w' \<and> (\<exists>rs. w_sent w' = w_sent w @ rs \<and> list_all P rs)"

lemma sends_refl: "sends P w w"
  by (simp add: sends_def)

lemma sends_trans: "sends P u v \<Longrightarrow> sends P v w \<Longrightarrow> sends P u w"
  by (auto simp: sends_def)

interpretation sends: world_rel "sends P" for P
  by unfold_locales (auto simp: sends_refl intro: sends_trans simp: sends_def)

interpretation later: world_rel later
  by unfold_locales (auto intro: later_trans simp: later_def)

lemma sends_later: "sends P w w' \<Longrightarrow> later w w'"
  by (auto simp: sends_def later_def)

lemma sends_mono: "sends P w w' \<Longrightarrow> (\<And>rq. P rq \<Longrightarrow> Q rq) \<Longrightarrow> sends Q w w'"
  by (auto simp: sends_def list_all_iff)

lemma within_mono: "within (sends P) m \<Longrightarrow> (\<And>rq. P rq \<Longrightarrow> Q rq) \<Longrightarrow> within (sends Q) m"
  unfolding within_def by (blast intro: sends_mono)

lemma sends_fetch: "P rq \<Longrightarrow> within (sends P) (io_fetch_ok rq)"
  by (rule sends.within_fetch(2)) (simp add: sends_def)

lemmas sends_intros [within_intros] =
  sends.within_pure sends.within_random sends.within_url sends.within_bind sends.within_catch
  sends.within_fold sends.within_loop sends_fetch

end
