(* ===== verification/BackupMachine.thy ===== *)
theory BackupMachine
  imports Reducer IoLogic
begin

text \<open>
  The backup flow as a state machine: the graph of its states, refined by \<open>reduceAction\<close>, and what
  the data of a state is known to hold.
\<close>

section \<open>Actions of a table\<close>

lemma post_dispatch:
  assumes "\<And>c h v. js_get table action = Some (c, h) \<Longrightarrow> c args None = Inr v \<Longrightarrow> post (h st v) Q"
    and "\<And>d. Q (Error d)"
  shows "post (dispatch table name st action args) Q"
  using assms
  by (auto simp: dispatch_def reducer_errors_def intro!: post_return post_catch post_throw
      split: option.splits sum.splits js_exn.splits)

lemma within_dispatch:
  assumes "\<And>c h v. js_get table action = Some (c, h) \<Longrightarrow> c args None = Inr v \<Longrightarrow> within (sends P) (h st v)"
  shows "within (sends P) (dispatch table name st action args)"
  using assms
  by (auto simp: dispatch_def reducer_errors_def intro!: within_intros split: option.splits sum.splits js_exn.splits)

lemma post_with_arg [post_intros]: "(\<And>v. post (k v) Q) \<Longrightarrow> post (with_arg n f k args) Q"
  by (auto simp: with_arg_def intro: post_intros)

lemma within_with_arg [within_intros]: "(\<And>v. within (sends P) (k v)) \<Longrightarrow> within (sends P) (with_arg n f k args)"
  by (auto simp: with_arg_def intro: within_intros)

lemmas table_simps = transition_def transitionBackupJump_def transitionRecoveryJump_def js_get_append js_get_Cons
  b_select_continent_def b_select_country_def authentications_editing_def policies_reviewing_def secret_editing_def
  r_select_continent_def r_select_country_def secret_selecting_def challenge_selecting_def
  backupTransitions_def recoveryTransitions_def

section \<open>The graph of the backup states\<close>

definition uploaded_states :: "backup_states set" where
  "uploaded_states = {BTruthsPaying, BPoliciesPaying, BBackupFinished}"

inductive backup_step :: "backup_states \<Rightarrow> string \<Rightarrow> backup_states \<Rightarrow> bool" where
  continent: "s \<in> {BContinentSelecting, BCountrySelecting} \<Longrightarrow> backup_step s ''select_continent'' BCountrySelecting"
| country: "backup_step BCountrySelecting ''select_country'' BUserAttributesCollecting"
| attributes: "backup_step BUserAttributesCollecting ''enter_user_attributes'' BAuthenticationsEditing"
| editing: "a \<in> {''add_authentication'', ''delete_authentication'', ''add_provider'', ''delete_provider''} \<Longrightarrow>
    backup_step BAuthenticationsEditing a BAuthenticationsEditing"
| suggest: "backup_step BAuthenticationsEditing ''next'' BPoliciesReviewing"
| reviewing: "a \<in> {''add_policy'', ''delete_policy'', ''update_policy''} \<Longrightarrow>
    backup_step BPoliciesReviewing a BPoliciesReviewing"
| reviewed: "backup_step BPoliciesReviewing ''next'' BSecretEditing"
| entering: "a \<in> {''enter_secret'', ''update_expiration'', ''enter_secret_name''} \<Longrightarrow>
    backup_step BSecretEditing a BSecretEditing"
| upload: "t \<in> uploaded_states \<Longrightarrow> backup_step BSecretEditing ''next'' t"
| paying: "s \<in> {BTruthsPaying, BPoliciesPaying} \<Longrightarrow> t \<in> uploaded_states \<Longrightarrow> backup_step s ''pay'' t"
| go_back: "(s, t) \<in> {(BCountrySelecting, BContinentSelecting), (BUserAttributesCollecting, BCountrySelecting),
      (BAuthenticationsEditing, BUserAttributesCollecting), (BPoliciesReviewing, BAuthenticationsEditing),
      (BSecretEditing, BPoliciesReviewing), (BTruthsPaying, BSecretEditing), (BPoliciesPaying, BSecretEditing),
      (BBackupFinished, BSecretEditing)} \<Longrightarrow> backup_step s ''back'' t"

inductive_simps backup_step_from:
  "backup_step BContinentSelecting a t" "backup_step BCountrySelecting a t"
  "backup_step BUserAttributesCollecting a t" "backup_step BAuthenticationsEditing a t"
  "backup_step BPoliciesReviewing a t" "backup_step BSecretEditing a t" "backup_step BTruthsPaying a t"
  "backup_step BPoliciesPaying a t" "backup_step BBackupFinished a t"

text \<open>A backup state of the given kind, or an error state.\<close>

definition goes_to :: "backup_states set \<Rightarrow> (backup \<Rightarrow> bool) \<Rightarrow> reducer_state \<Rightarrow> bool" where
  "goes_to S P s = (case s of Backup b \<Rightarrow> backup_state b \<in> S \<and> P b | Error _ \<Rightarrow> True | Recovery _ \<Rightarrow> False)"

lemma goes_to_simps [simp]:
  "goes_to S P (Backup b) \<longleftrightarrow> backup_state b \<in> S \<and> P b" "goes_to S P (Error d)" "\<not> goes_to S P (Recovery r)"
  by (simp_all add: goes_to_def)

abbreviation "anything \<equiv> \<lambda>_ :: backup. True"

lemma post_updateUploadFees:
  "(\<And>fs. goes_to S P (Backup (st\<lparr>upload_fees := fs\<rparr>))) \<Longrightarrow> goes_to S P (Backup st) \<Longrightarrow>
    post (updateUploadFees st) (goes_to S P)"
  by (auto simp: updateUploadFees_def js_bind_Inr_iff intro!: post_intros post_js split: option.splits)

lemma post_prepareRecoveryData:
  "post (prepareRecoveryData st) (\<lambda>st'. \<exists>r. st' = st\<lparr>recovery_data := Some r\<rparr>)"
  unfolding prepareRecoveryData_def Let_def by (intro post_intros) blast

text \<open>What the upload changes of the state it was given.\<close>

definition upload_frame :: "backup \<Rightarrow> backup" where
  "upload_frame st = st\<lparr>recovery_data := None, backup_state := BSecretEditing, payments := None, core_secret := None,
     truth_upload_payment_secrets := None, policy_payment_requests := None, success_details := None\<rparr>"

definition uploaded :: "backup \<Rightarrow> backup \<Rightarrow> bool" where
  "uploaded st b \<longleftrightarrow> upload_frame b = upload_frame st \<and>
     (if backup_state b = BBackupFinished
      then core_secret b = None \<and> payments b = None \<and> success_details b \<noteq> None
      else \<exists>uris. payments b = Some uris \<and> uris \<noteq> [])"

lemma post_uploadSecret: "post (uploadSecret st) (goes_to uploaded_states (uploaded st))"
proof -
  let ?P = "\<lambda>st'. \<exists>r. st' = st\<lparr>recovery_data := Some r\<rparr>"
  have prep: "post (case recovery_data st of None \<Rightarrow> prepareRecoveryData st | Some _ \<Rightarrow> io_return st) ?P"
  proof (cases "recovery_data st")
    case None
    then show ?thesis using post_prepareRecoveryData [of st] by simp
  next
    case (Some r)
    then have eq: "st = st\<lparr>recovery_data := Some r\<rparr>" by (cases st) simp
    show ?thesis unfolding Some option.case by (rule post_return, rule exI, rule eq)
  qed
  have up: "post (upload_policies st' rd c) (goes_to uploaded_states (uploaded st))" if "?P st'" for st' rd c
    using that unfolding upload_policies_def
    by (auto intro!: post_intros simp: uploaded_def upload_frame_def uploaded_states_def split: sum.split)
  have "post (case recovery_data st' of None \<Rightarrow> io_throw (JsError ''invariant failed'')
      | Some rcd \<Rightarrow> upload_prepared st' rcd) (goes_to uploaded_states (uploaded st))" if "?P st'" for st'
    using that up [OF that] unfolding upload_prepared_def
    by (auto intro!: post_intros simp: uploaded_def upload_frame_def uploaded_states_def split: sum.split)
  then show ?thesis
    unfolding uploadSecret_def by (rule post_bind [OF prep])
qed

section \<open>What a backup state holds\<close>

fun stage :: "backup_states \<Rightarrow> nat" where
  "stage BContinentSelecting = 0"
| "stage BCountrySelecting = 1"
| "stage BUserAttributesCollecting = 2"
| "stage BAuthenticationsEditing = 3"
| "stage BPoliciesReviewing = 4"
| "stage BSecretEditing = 5"
| "stage BTruthsPaying = 6"
| "stage BPoliciesPaying = 6"
| "stage BBackupFinished = 6"

text \<open>A chosen continent comes with its countries, a chosen country with its attributes.\<close>

definition continent_ok :: "string option \<Rightarrow> country list option \<Rightarrow> bool" where
  "continent_ok c cos \<longleftrightarrow> (\<exists>x ys. c = Some x \<and> cos = Some ys \<and> getCountries x True = Inr ys)"

definition country_ok ::
  "string option \<Rightarrow> string option \<Rightarrow> attribute_spec list option \<Rightarrow> provider_status obj option \<Rightarrow> bool" where
  "country_ok continent code attrs provs \<longleftrightarrow>
     (\<exists>co\<in>set countriesList. code = Some (co_code co) \<and> continent = Some (co_continent co)
        \<and> attrs = js_get countryDetails (co_code co) \<and> attrs \<noteq> None \<and> provs \<noteq> None)"

definition backup_ok :: "backup \<Rightarrow> bool" where
  "backup_ok b \<longleftrightarrow>
     continents b = Some (getContinents True)
     \<and> (1 \<le> stage (backup_state b) \<longrightarrow> continent_ok (selected_continent b) (countries b))
     \<and> (2 \<le> stage (backup_state b) \<longrightarrow>
          country_ok (selected_continent b) (selected_country b) (required_attributes b) (authentication_providers b))
     \<and> (3 \<le> stage (backup_state b) \<longrightarrow> identity_attributes b \<noteq> None)
     \<and> (4 \<le> stage (backup_state b) \<longrightarrow> policies b \<noteq> None \<and> policy_providers b \<noteq> None)
     \<and> (backup_state b \<in> {BTruthsPaying, BPoliciesPaying} \<longrightarrow> (\<exists>uris. payments b = Some uris \<and> uris \<noteq> []))
     \<and> (backup_state b = BBackupFinished \<longrightarrow>
          core_secret b = None \<and> payments b = None \<and> success_details b \<noteq> None)"

lemma backup_ok_start: "backup_ok getBackupStartState"
  by (simp add: backup_ok_def getBackupStartState_def empty_backup_def)

lemma country_ok_providers: "country_ok c x a p \<Longrightarrow> country_ok c x a (Some q)"
  by (auto simp: country_ok_def)

lemma getCountries_continent_ok: "getCountries c True = Inr cos \<Longrightarrow> continent_ok (Some c) (Some cos)"
  by (simp add: continent_ok_def)

lemma find_Some: "find P xs = Some x \<Longrightarrow> x \<in> set xs \<and> P x"
  by (auto simp: find_Some_iff)

lemma selectCountry_Inr:
  assumes "selectCountry c code curs = Inr sel"
  shows "country_ok c (Some (sel_selected_country sel)) (Some (sel_required_attributes sel)) p \<longleftrightarrow> p \<noteq> None"
  using assms unfolding selectCountry_def country_ok_def Let_def
  by (fastforce simp: js_bind_Inr_iff dest: find_Some split: option.splits if_splits)

lemma post_backupSelectContinent:
  "backup_ok st \<Longrightarrow> post (backupSelectContinent st c) (goes_to {BCountrySelecting} backup_ok)"
  unfolding backupSelectContinent_def
  by (rule post_bind [OF post_js [where Q = "\<lambda>cos. getCountries c True = Inr cos"]], assumption)
    (auto intro!: post_return getCountries_continent_ok simp: backup_ok_def)

lemma post_backupSelectCountry:
  "backup_ok st \<Longrightarrow> backup_state st = BCountrySelecting \<Longrightarrow>
    post (backupSelectCountry st c curs) (goes_to {BUserAttributesCollecting} backup_ok)"
  unfolding backupSelectCountry_def
  by (rule post_bind [OF post_js [where Q = "\<lambda>sel. selectCountry (selected_continent st) c curs = Inr sel"]], assumption)
    (auto intro!: post_return simp: backup_ok_def selectCountry_Inr)

lemma post_nextFromAuthenticationsEditing:
  "backup_ok st \<Longrightarrow> backup_state st = BAuthenticationsEditing \<Longrightarrow>
    post (io_js (nextFromAuthenticationsEditing st)) (goes_to {BPoliciesReviewing} backup_ok)"
  by (auto intro!: post_js simp: nextFromAuthenticationsEditing_def js_bind_Inr_iff backup_ok_def)

lemma uploaded_ok:
  assumes "backup_ok st" "5 \<le> stage (backup_state st)" "backup_state b \<in> uploaded_states" "uploaded st b"
  shows "backup_ok b"
proof -
  have f: "upload_frame b = upload_frame st" using assms(4) by (simp add: uploaded_def)
  have "continents b = continents st" "selected_continent b = selected_continent st" "countries b = countries st"
    "selected_country b = selected_country st" "required_attributes b = required_attributes st"
    "authentication_providers b = authentication_providers st" "identity_attributes b = identity_attributes st"
    "policies b = policies st" "policy_providers b = policy_providers st"
    using f by (auto simp: upload_frame_def dest: arg_cong [where f = continents] arg_cong [where f = selected_continent]
      arg_cong [where f = countries] arg_cong [where f = selected_country] arg_cong [where f = required_attributes]
      arg_cong [where f = authentication_providers] arg_cong [where f = identity_attributes]
      arg_cong [where f = policies] arg_cong [where f = policy_providers])
  then show ?thesis
    using assms by (auto simp: backup_ok_def uploaded_def uploaded_states_def)
qed

lemma post_upload:
  "backup_ok st \<Longrightarrow> 5 \<le> stage (backup_state st) \<Longrightarrow> post (uploadSecret st) (goes_to uploaded_states backup_ok)"
  by (rule post_weaken [OF post_uploadSecret]) (auto simp: goes_to_def split: reducer_state.splits intro: uploaded_ok)

lemma post_enterSecret_args:
  "backup_ok st \<Longrightarrow> backup_state st = BSecretEditing \<Longrightarrow>
    post (enterSecret_args st args) (goes_to {BSecretEditing} backup_ok)"
  unfolding enterSecret_args_def enterSecret_def
  by (intro post_intros post_updateUploadFees) (auto simp: backup_ok_def)

lemma post_updateSecretExpiration:
  "backup_ok st \<Longrightarrow> backup_state st = BSecretEditing \<Longrightarrow>
    post (updateSecretExpiration st t) (goes_to {BSecretEditing} backup_ok)"
  unfolding updateSecretExpiration_def
  by (intro post_updateUploadFees) (auto simp: backup_ok_def)

lemma post_providers:
  "backup_ok st \<Longrightarrow> backup_state st = BUserAttributesCollecting \<Longrightarrow>
    post (backupEnterUserAttributes st v) (goes_to {BAuthenticationsEditing} backup_ok)"
  "backup_ok st \<Longrightarrow> backup_state st = BAuthenticationsEditing \<Longrightarrow>
    post (addProviderBackup st u) (goes_to {BAuthenticationsEditing} backup_ok)"
  unfolding backupEnterUserAttributes_def addProviderBackup_def
  by (auto intro!: post_intros simp: backup_ok_def intro: country_ok_providers)

lemma goes_to_weaken: "post m (goes_to S P) \<Longrightarrow> S \<subseteq> T \<Longrightarrow> post m (goes_to T P)"
  by (erule post_weaken) (auto simp: goes_to_def split: reducer_state.splits)

lemmas handler_posts = post_backupSelectContinent post_backupSelectCountry post_nextFromAuthenticationsEditing
  post_upload post_enterSecret_args post_updateSecretExpiration post_providers

lemmas goes_to_handler = handler_posts [THEN goes_to_weaken]

lemma backup_handlers:
  assumes "js_get (backupTransitions (backup_state st)) a = Some (c, h)" "backup_ok st"
  shows "post (h st v) (goes_to {t. backup_step (backup_state st) a t} backup_ok)"
proof (cases "backup_state st")
  case BContinentSelecting
  with assms show ?thesis
    by (auto simp: table_simps backup_step_from intro!: post_intros goes_to_handler(1) split: if_splits)
next
  case BCountrySelecting
  with assms show ?thesis
    by (auto simp: table_simps backup_step_from backup_ok_def [of "st\<lparr>backup_state := _\<rparr>"]
        intro!: post_intros goes_to_handler(1,2) split: if_splits) (auto simp: backup_ok_def)
next
  case BUserAttributesCollecting
  with assms show ?thesis
    by (auto simp: table_simps backup_step_from intro!: post_intros goes_to_handler(7) split: if_splits)
      (auto simp: backup_ok_def)
next
  case BAuthenticationsEditing
  with assms show ?thesis
    by (auto simp: table_simps backup_step_from intro!: post_intros goes_to_handler(3,8) split: if_splits)
      (auto simp: backup_ok_def addAuthentication_def deleteAuthentication_def deleteProviderBackup_def
         intro: country_ok_providers)
next
  case BPoliciesReviewing
  with assms show ?thesis
    by (auto simp: table_simps backup_step_from intro!: post_intros split: if_splits)
      (auto simp: backup_ok_def addPolicy_def deletePolicy_def updatePolicy_def)
next
  case BSecretEditing
  with assms show ?thesis
    by (auto simp: table_simps backup_step_from intro!: post_intros goes_to_handler(4,5,6) split: if_splits)
      (auto simp: backup_ok_def enterSecretName_def)
next
  case BTruthsPaying
  with assms show ?thesis
    by (auto simp: table_simps backup_step_from intro!: post_intros goes_to_handler(4) split: if_splits)
      (auto simp: backup_ok_def)
next
  case BPoliciesPaying
  with assms show ?thesis
    by (auto simp: table_simps backup_step_from intro!: post_intros goes_to_handler(4) split: if_splits)
      (auto simp: backup_ok_def)
next
  case BBackupFinished
  with assms show ?thesis
    by (auto simp: table_simps backup_step_from intro!: post_intros split: if_splits)
      (auto simp: backup_ok_def)
qed

text \<open>Every action leads along the graph, to a state that holds what it should, or to an error state.\<close>

lemma reduceAction_backup:
  assumes "backup_ok b" "reduceAction (Backup b) a args e w = (Inr s, w')"
  shows "goes_to {t. backup_step (backup_state b) a t} backup_ok s"
proof -
  have "post (reduceAction (Backup b) a args) (goes_to {t. backup_step (backup_state b) a t} backup_ok)"
    using backup_handlers [OF _ assms(1)] by (auto simp: reduceAction_def intro!: post_dispatch)
  with assms(2) show ?thesis by (rule postD [rotated])
qed

end
