(* ===== verification/RecoveryMachine.thy ===== *)
theory RecoveryMachine
  imports BackupMachine
begin

text \<open>
  The recovery flow as a state machine: the graph of its states, refined by \<open>reduceAction\<close>, the
  data its states hold, and that the flow finishes only with the shares of a whole policy.
\<close>

section \<open>The graph of the recovery states\<close>

definition requested_states :: "recovery_states set" where
  "requested_states = {RChallengeSelecting, RChallengeSolving, RRecoveryFinished}"

inductive recovery_step :: "recovery_states \<Rightarrow> string \<Rightarrow> recovery_states \<Rightarrow> bool" where
  r_continent: "s \<in> {RContinentSelecting, RCountrySelecting} \<Longrightarrow> recovery_step s ''select_continent'' RCountrySelecting"
| r_country: "recovery_step RCountrySelecting ''select_country'' RUserAttributesCollecting"
| r_attributes: "recovery_step RUserAttributesCollecting ''enter_user_attributes'' RSecretSelecting"
| r_providers: "a \<in> {''add_provider'', ''delete_provider'', ''change_version''} \<Longrightarrow>
    recovery_step RSecretSelecting a RSecretSelecting"
| r_selected: "recovery_step RSecretSelecting ''next'' RChallengeSelecting"
| r_request: "a \<in> {''select_challenge'', ''poll''} \<Longrightarrow> t \<in> requested_states \<Longrightarrow>
    recovery_step RChallengeSelecting a t"
| r_finish: "recovery_step RChallengeSelecting ''next'' RRecoveryFinished"
| r_solve: "t \<in> requested_states \<Longrightarrow> recovery_step RChallengeSolving ''solve_challenge'' t"
| r_back: "(s, t) \<in> {(RCountrySelecting, RContinentSelecting), (RUserAttributesCollecting, RCountrySelecting),
      (RSecretSelecting, RUserAttributesCollecting), (RChallengeSelecting, RSecretSelecting),
      (RChallengeSolving, RChallengeSelecting), (RRecoveryFinished, RChallengeSelecting)} \<Longrightarrow>
    recovery_step s ''back'' t"

inductive_simps recovery_step_from:
  "recovery_step RContinentSelecting a t" "recovery_step RCountrySelecting a t"
  "recovery_step RUserAttributesCollecting a t" "recovery_step RSecretSelecting a t"
  "recovery_step RChallengeSelecting a t" "recovery_step RChallengePaying a t"
  "recovery_step RChallengeSolving a t" "recovery_step RRecoveryFinished a t"

definition comes_to :: "recovery_states set \<Rightarrow> (recovery \<Rightarrow> bool) \<Rightarrow> reducer_state \<Rightarrow> bool" where
  "comes_to S P s = (case s of Recovery r \<Rightarrow> recovery_state r \<in> S \<and> P r | Error _ \<Rightarrow> True | Backup _ \<Rightarrow> False)"

lemma comes_to_simps [simp]:
  "comes_to S P (Recovery r) \<longleftrightarrow> recovery_state r \<in> S \<and> P r" "comes_to S P (Error d)" "\<not> comes_to S P (Backup b)"
  by (simp_all add: comes_to_def)

lemma comes_to_weaken: "post m (comes_to S P) \<Longrightarrow> S \<subseteq> T \<Longrightarrow> post m (comes_to T P)"
  by (erule post_weaken) (auto simp: comes_to_def split: reducer_state.splits)

section \<open>What a recovery state holds\<close>

fun r_stage :: "recovery_states \<Rightarrow> nat" where
  "r_stage RContinentSelecting = 0"
| "r_stage RCountrySelecting = 1"
| "r_stage RUserAttributesCollecting = 2"
| "r_stage RSecretSelecting = 3"
| "r_stage RChallengeSelecting = 4"
| "r_stage RChallengePaying = 4"
| "r_stage RChallengeSolving = 4"
| "r_stage RRecoveryFinished = 5"

text \<open>The challenges shown are those of the document, and every solved one has its key share.\<close>

definition document_ok :: "recovery \<Rightarrow> bool" where
  "document_ok r \<longleftrightarrow> (\<exists>rd info. verbatim_recovery_document r = Some rd \<and> recovery_information r = Some info
     \<and> map ch_uuid (rinf_challenges info) = map es_uuid (rd_escrow_methods rd)
     \<and> rinf_policies info = map dp_uuids (rd_policies rd) \<and> recovery_document r \<noteq> None)"

definition shares_ok :: "recovery \<Rightarrow> bool" where
  "shares_ok r \<longleftrightarrow> (\<forall>u. js_get (or_empty (challenge_feedback r)) u = Some Solved \<longrightarrow>
     js_get (or_empty (recovered_key_shares r)) u \<noteq> None)"

text \<open>The core secret was recovered with the shares of all challenges of one policy of the document.\<close>

definition complete :: "recovery \<Rightarrow> bool" where
  "complete r \<longleftrightarrow> (\<exists>rd p shares v. verbatim_recovery_document r = Some rd \<and> p \<in> set (rd_policies rd)
     \<and> policy_shares (or_empty (recovered_key_shares r)) (dp_uuids p) = Some shares
     \<and> recover_core_secret rd p shares = Inr v \<and> r_core_secret r = Some v)"

definition recovery_ok :: "recovery \<Rightarrow> bool" where
  "recovery_ok r \<longleftrightarrow>
     r_continents r = Some (getContinents True) \<and> shares_ok r
     \<and> (1 \<le> r_stage (recovery_state r) \<longrightarrow> continent_ok (r_selected_continent r) (r_countries r))
     \<and> (2 \<le> r_stage (recovery_state r) \<longrightarrow>
          country_ok (r_selected_continent r) (r_selected_country r) (r_required_attributes r) (r_authentication_providers r))
     \<and> (3 \<le> r_stage (recovery_state r) \<longrightarrow> r_identity_attributes r \<noteq> None \<and> document_ok r)
     \<and> (recovery_state r = RRecoveryFinished \<longrightarrow> complete r)"

lemma recovery_ok_start: "recovery_ok getRecoveryStartState"
  by (simp add: recovery_ok_def getRecoveryStartState_def empty_recovery_def shares_ok_def or_empty_def)

lemma recoverySelects_ok:
  "recovery_ok st \<Longrightarrow> post (recoverySelectContinent st c) (comes_to {RCountrySelecting} recovery_ok)"
  "recovery_ok st \<Longrightarrow> recovery_state st = RCountrySelecting \<Longrightarrow>
    post (recoverySelectCountry st code curs) (comes_to {RUserAttributesCollecting} recovery_ok)"
  unfolding recoverySelectContinent_def recoverySelectCountry_def
   apply (rule post_bind [OF post_js [where Q = "\<lambda>cos. getCountries c True = Inr cos"]], assumption)
   apply (auto intro!: post_return getCountries_continent_ok simp: recovery_ok_def shares_ok_def)[1]
  apply (rule post_bind [OF post_js [where Q = "\<lambda>sel. selectCountry (r_selected_continent st) code curs = Inr sel"]],
      assumption)
  apply (auto intro!: post_return simp: recovery_ok_def selectCountry_Inr shares_ok_def)
  done

section \<open>Downloading the document\<close>

lemma make_challenge_uuid: "js_map (make_challenge ps) es = Inr cs \<Longrightarrow> map ch_uuid cs = map es_uuid es"
  by (induction es arbitrary: cs) (auto simp: js_bind_Inr_iff make_challenge_def)

text \<open>The parts of the state that the download needs and keeps.\<close>

definition place_ok :: "recovery \<Rightarrow> bool" where
  "place_ok r \<longleftrightarrow> r_continents r = Some (getContinents True) \<and> shares_ok r
     \<and> continent_ok (r_selected_continent r) (r_countries r)
     \<and> country_ok (r_selected_continent r) (r_selected_country r) (r_required_attributes r) (r_authentication_providers r)
     \<and> r_identity_attributes r \<noteq> None"

lemma post_downloadPolicy: "place_ok st \<Longrightarrow> post (downloadPolicy st) (comes_to {RSecretSelecting} recovery_ok)"
  unfolding downloadPolicy_def Let_def
  by (intro post_bind_any)
    (auto intro!: post_return post_bind_js make_challenge_uuid split: sum.split
      simp: recovery_ok_def place_ok_def document_ok_def shares_ok_def)

lemma post_recoveryEnterUserAttributes:
  "recovery_ok st \<Longrightarrow> recovery_state st = RUserAttributesCollecting \<Longrightarrow>
    post (recoveryEnterUserAttributes st v) (comes_to {RSecretSelecting} recovery_ok)"
  unfolding recoveryEnterUserAttributes_def
  by (intro post_bind_any post_downloadPolicy)
    (auto simp: place_ok_def recovery_ok_def shares_ok_def intro: country_ok_providers)

lemma post_changeVersion:
  "recovery_ok st \<Longrightarrow> recovery_state st = RSecretSelecting \<Longrightarrow>
    post (changeVersion st u v) (comes_to {RSecretSelecting} recovery_ok)"
  unfolding changeVersion_def
  by (intro post_downloadPolicy) (auto simp: place_ok_def recovery_ok_def shares_ok_def)

section \<open>Requesting truths\<close>

text \<open>In the states where challenges are handled.\<close>

definition challenging :: "recovery \<Rightarrow> bool" where
  "challenging r \<longleftrightarrow> place_ok r \<and> document_ok r"

lemma challenging_ok:
  "recovery_ok r \<Longrightarrow> 3 \<le> r_stage (recovery_state r) \<Longrightarrow> challenging r"
  "challenging r \<Longrightarrow> recovery_state r \<in> {RChallengeSelecting, RChallengeSolving} \<Longrightarrow> recovery_ok r"
  "challenging r \<Longrightarrow> complete r \<Longrightarrow> recovery_ok r"
  by (auto simp: challenging_def recovery_ok_def place_ok_def document_ok_def)

lemma challenging_update:
  "challenging (st\<lparr>recovery_state := s\<rparr>) = challenging st"
  "challenging (st\<lparr>selected_challenge_uuid := u\<rparr>) = challenging st"
  "challenging (st\<lparr>r_core_secret := v\<rparr>) = challenging st"
  by (simp_all add: challenging_def place_ok_def document_ok_def shares_ok_def)

lemma challenging_feedback:
  "challenging st \<Longrightarrow> fb \<noteq> Solved \<Longrightarrow> challenging (set_feedback u fb st)"
  "challenging st \<Longrightarrow> challenging ((set_feedback u Solved st)\<lparr>recovery_state := s, recovered_key_shares :=
     Some (js_put u k (or_empty (recovered_key_shares st)))\<rparr>)"
  by (auto simp: challenging_def place_ok_def document_ok_def shares_ok_def set_feedback_def js_get_put or_empty_def
      split: if_splits)

text \<open>\<open>tryRecoverSecret\<close> returns the state as it was, or finished with the secret of a complete policy.\<close>

lemma usable_policy_Some:
  "usable_policy ks ps = Some (p, shares) \<Longrightarrow> p \<in> set ps \<and> policy_shares ks (dp_uuids p) = Some shares"
  by (induction ps) (auto split: option.splits)

lemma tryRecoverSecret_cases:
  assumes "tryRecoverSecret st = Inr s"
  shows "s = st \<or> complete s \<and>
    (\<exists>v. s = st\<lparr>recovery_state := RRecoveryFinished, selected_challenge_uuid := None, r_core_secret := Some v\<rparr>)"
  using assms
  by (auto simp: tryRecoverSecret_def complete_def js_bind_Inr_iff split: option.splits)
    (blast dest: usable_policy_Some)

lemma tryRecoverSecret_ok:
  assumes "tryRecoverSecret st = Inr s" "challenging st" "recovery_state st \<in> {RChallengeSelecting, RChallengeSolving}"
  shows "recovery_ok s \<and> recovery_state s \<in> {recovery_state st, RRecoveryFinished}"
  using tryRecoverSecret_cases [OF assms(1)] challenging_ok(2) [OF assms(2,3)] challenging_ok(3) [of s] assms(2)
  by (auto simp: challenging_update)

lemma post_truth_solved:
  "challenging st \<Longrightarrow> post (truth_solved st t req resp) (comes_to requested_states recovery_ok)"
  unfolding truth_solved_def
  by (rule post_bind_any, rule post_bind_any, rule post_bind_any, rule post_bind_js)
    (auto intro!: post_return dest!: tryRecoverSecret_ok [OF _ challenging_feedback(2)] simp: requested_states_def)

lemma forbidden_not_solved [simp]: "forbidden_feedback body \<noteq> Inr Solved"
  by (auto simp: forbidden_feedback_def js_bind_Inr_iff split: if_splits)

lemma post_requestTruth:
  assumes "challenging st"
  shows "post (requestTruth st t req) (comes_to requested_states recovery_ok)"
proof -
  have "post (truth_response st t req resp) (comes_to requested_states recovery_ok)" for resp
    using post_truth_solved [OF assms] assms unfolding truth_response_def truth_forbidden_def truth_accepted_def
    by (auto intro!: post_return post_js challenging_ok(2) challenging_feedback(1)
        simp: js_bind_Inr_iff requested_states_def challenging_update
        split: if_splits)
  then show ?thesis unfolding requestTruth_def by (intro post_bind_any)
qed

lemma post_escrow: "(\<And>t. post (f (Some t)) Q) \<Longrightarrow> post (f None) Q \<Longrightarrow> post (io_bind (io_js (escrow_of st u)) f) Q"
  by (intro post_bind_any) (metis option.exhaust)

lemma post_challenges:
  "challenging st \<Longrightarrow> post (solveChallenge st req) (comes_to requested_states recovery_ok)"
  "challenging st \<Longrightarrow> post (selectChallenge st u) (comes_to requested_states recovery_ok)"
  unfolding solveChallenge_def selectChallenge_def
  by (auto intro!: post_escrow post_throw post_requestTruth simp: challenging_update)

lemma post_poll_challenge:
  assumes "recovery_ok st" "recovery_state st \<in> requested_states"
  shows "post (poll_challenge u st) (\<lambda>r. recovery_ok r \<and> recovery_state r \<in> requested_states)"
proof -
  have "challenging st" using assms by (intro challenging_ok(1)) (auto simp: requested_states_def)
  then have "post (io_bind (requestTruth st t req) (\<lambda>s2. io_return (case s2 of Recovery r \<Rightarrow> r | _ \<Rightarrow> st)))
      (\<lambda>r. recovery_ok r \<and> recovery_state r \<in> requested_states)" for t req
    using assms by (intro post_bind [OF post_requestTruth]) (auto intro!: post_return split: reducer_state.splits)
  with assms show ?thesis
    unfolding poll_challenge_def
    by (auto intro!: post_escrow post_return split: option.split challenge_feedback.split)
qed

lemma post_pollChallenges:
  "recovery_ok st \<Longrightarrow> recovery_state st = RChallengeSelecting \<Longrightarrow>
    post (pollChallenges st) (comes_to requested_states recovery_ok)"
  unfolding pollChallenges_def
  by (rule post_bind [OF post_fold [where I = "\<lambda>r. recovery_ok r \<and> recovery_state r \<in> requested_states"]])
    (auto intro!: post_return intro: post_weaken [OF post_poll_challenge] simp: requested_states_def)

lemma post_nextFromChallengeSelecting:
  "recovery_ok st \<Longrightarrow> recovery_state st = RChallengeSelecting \<Longrightarrow>
    post (nextFromChallengeSelecting st) (comes_to {RRecoveryFinished} recovery_ok)"
  unfolding nextFromChallengeSelecting_def
  by (rule post_bind [OF post_js [where Q = recovery_ok]])
    (auto intro!: post_return dest: tryRecoverSecret_ok challenging_ok(1))

section \<open>Every action leads along the graph\<close>

lemma post_addProviderRecovery:
  "recovery_ok st \<Longrightarrow> recovery_state st = RSecretSelecting \<Longrightarrow>
    post (addProviderRecovery st u) (comes_to {RSecretSelecting} recovery_ok)"
  unfolding addProviderRecovery_def
  by (auto intro!: post_intros simp: recovery_ok_def shares_ok_def document_ok_def intro: country_ok_providers)

lemmas comes_to_handler = recoverySelects_ok [THEN comes_to_weaken]
  post_recoveryEnterUserAttributes [THEN comes_to_weaken] post_changeVersion [THEN comes_to_weaken]
  post_challenges [THEN comes_to_weaken] post_pollChallenges [THEN comes_to_weaken]
  post_nextFromChallengeSelecting [THEN comes_to_weaken] post_addProviderRecovery [THEN comes_to_weaken]

lemma recovery_ok_back:
  "recovery_ok st \<Longrightarrow> min (r_stage s) 3 \<le> r_stage (recovery_state st) \<Longrightarrow> s \<noteq> RRecoveryFinished \<Longrightarrow>
    recovery_ok (st\<lparr>recovery_state := s\<rparr>)"
  by (auto simp: recovery_ok_def shares_ok_def document_ok_def)

lemma recovery_handlers:
  assumes "js_get (recoveryTransitions (recovery_state st)) a = Some (c, h)" "recovery_ok st"
  shows "post (h st v) (comes_to {t. recovery_step (recovery_state st) a t} recovery_ok)"
proof (cases "recovery_state st")
  case RContinentSelecting
  with assms show ?thesis
    by (auto simp: table_simps recovery_step_from intro!: post_intros comes_to_handler(1) split: if_splits)
next
  case RCountrySelecting
  with assms show ?thesis
    by (auto simp: table_simps recovery_step_from intro!: post_intros comes_to_handler(1,2) recovery_ok_back split: if_splits)
next
  case RUserAttributesCollecting
  with assms show ?thesis
    by (auto simp: table_simps recovery_step_from intro!: post_intros comes_to_handler(3) recovery_ok_back split: if_splits)
next
  case RSecretSelecting
  with assms show ?thesis
    by (auto simp: table_simps recovery_step_from intro!: post_intros comes_to_handler(4,9) recovery_ok_back split: if_splits)
      (auto simp: recovery_ok_def shares_ok_def document_ok_def deleteProviderRecovery_def intro: country_ok_providers)
next
  case RChallengeSelecting
  with assms show ?thesis
    by (auto simp: table_simps recovery_step_from intro!: post_intros comes_to_handler(6,7,8) recovery_ok_back
          challenging_ok(1) split: if_splits)
next
  case RChallengePaying
  with assms show ?thesis by (simp add: recoveryTransitions_def)
next
  case RChallengeSolving
  with assms show ?thesis
    by (auto simp: table_simps recovery_step_from intro!: post_intros comes_to_handler(5) recovery_ok_back
          challenging_ok(1) split: if_splits)
next
  case RRecoveryFinished
  with assms show ?thesis
    by (auto simp: table_simps recovery_step_from intro!: post_intros recovery_ok_back split: if_splits)
qed

lemma reduceAction_recovery:
  assumes "recovery_ok r" "reduceAction (Recovery r) a args e w = (Inr s, w')"
  shows "comes_to {t. recovery_step (recovery_state r) a t} recovery_ok s"
proof -
  have "post (reduceAction (Recovery r) a args) (comes_to {t. recovery_step (recovery_state r) a t} recovery_ok)"
    using recovery_handlers [OF _ assms(1)] by (auto simp: reduceAction_def intro!: post_dispatch)
  with assms(2) show ?thesis by (rule postD [rotated])
qed

end
