(* ===== verification/ReducerRuns.thy ===== *)
theory ReducerRuns
  imports RecoveryMachine
begin

text \<open>
  Sessions of the reducer: what holds in every state that a sequence of actions can reach, what
  every call does to the world, and how it fails.
\<close>

section \<open>Reachable states\<close>

text \<open>
  A client keeps the state of the last successful action; a failed call only advances the world.
\<close>

inductive reachable :: "env \<Rightarrow> reducer_state \<Rightarrow> world \<Rightarrow> bool" for e where
  start_backup: "reachable e (Backup getBackupStartState) w"
| start_recovery: "reachable e (Recovery getRecoveryStartState) w"
| advance: "reachable e s w \<Longrightarrow> reduceAction s a args e w = (Inr s', w') \<Longrightarrow> reachable e s' w'"
| keep: "reachable e s w \<Longrightarrow> reduceAction s a args e w = (r, w') \<Longrightarrow> reachable e s w'"

definition state_ok :: "reducer_state \<Rightarrow> bool" where
  "state_ok s = (case s of Backup b \<Rightarrow> backup_ok b | Recovery r \<Rightarrow> recovery_ok r | Error _ \<Rightarrow> True)"

definition follows_graph :: "reducer_state \<Rightarrow> string \<Rightarrow> reducer_state \<Rightarrow> bool" where
  "follows_graph s a s' \<longleftrightarrow> (\<exists>d. s' = Error d)
     \<or> (\<exists>b b'. s = Backup b \<and> s' = Backup b' \<and> backup_step (backup_state b) a (backup_state b'))
     \<or> (\<exists>r r'. s = Recovery r \<and> s' = Recovery r' \<and> recovery_step (recovery_state r) a (recovery_state r'))"

lemma reduceAction_step:
  assumes "state_ok s" "reduceAction s a args e w = (Inr s', w')"
  shows "state_ok s' \<and> follows_graph s a s'"
proof (cases s)
  case (Backup b)
  then show ?thesis
    using reduceAction_backup [of b a args e w s' w'] assms
    by (auto simp: state_ok_def follows_graph_def goes_to_def split: reducer_state.splits)
next
  case (Recovery r)
  then show ?thesis
    using reduceAction_recovery [of r a args e w s' w'] assms
    by (auto simp: state_ok_def follows_graph_def comes_to_def split: reducer_state.splits)
next
  case (Error d)
  then show ?thesis
    using assms(2) by (auto simp: reduceAction_def state_ok_def follows_graph_def)
qed

lemma reachable_ok: "reachable e s w \<Longrightarrow> state_ok s"
proof (induction rule: reachable.induct)
  case (advance s w a args s' w')
  then show ?case using reduceAction_step by blast
qed (auto simp: state_ok_def backup_ok_start recovery_ok_start)

section \<open>How a call fails\<close>

text \<open>An exception of the handlers of kind \<open>ReducerError\<close> becomes an error state.\<close>

lemma dispatch_no_reducer_error: "dispatch table name st a args e w = (Inl x, w') \<Longrightarrow> x \<noteq> ReducerError d"
  by (auto simp: dispatch_def reducer_errors_def io_catch_def io_return_def io_throw_def
      split: option.splits sum.splits prod.splits js_exn.splits if_splits)

lemma reduceAction_no_reducer_error: "reduceAction s a args e w = (Inl x, w') \<Longrightarrow> x \<noteq> ReducerError d"
  by (cases s) (auto simp: reduceAction_def dispatch_no_reducer_error)

definition actions_of :: "reducer_state \<Rightarrow> string list" where
  "actions_of s = (case s of
     Backup b \<Rightarrow> js_keys (backupTransitions (backup_state b))
   | Recovery r \<Rightarrow> js_keys (recoveryTransitions (recovery_state r))
   | Error _ \<Rightarrow> [])"

definition state_name :: "reducer_state \<Rightarrow> string" where
  "state_name s = (case s of
     Backup b \<Rightarrow> backup_state_name (backup_state b)
   | Recovery r \<Rightarrow> recovery_state_name (recovery_state r)
   | Error _ \<Rightarrow> [])"

lemma js_get_None: "a \<notin> set (js_keys t) \<Longrightarrow> js_get t a = None"
  by (cases "js_get t a") (auto simp: js_keys_get)

text \<open>An action that the table of the state does not list changes nothing and is reported.\<close>

lemma reduceAction_unsupported:
  assumes "a \<notin> set (actions_of s)"
  shows "reduceAction s a args e w =
    (Inr (Error (case s of Error _ \<Rightarrow> invalid_state
       | _ \<Rightarrow> if a \<in> set inherited_names then invalid_argument TypeError else unsupported_action a (state_name s))), w)"
  using assms
  by (cases s) (auto simp: reduceAction_def dispatch_def actions_of_def state_name_def js_get_None)

text \<open>The argument of an action is checked before anything is done.\<close>

lemma dispatch_invalid:
  "js_get table a = Some (c, h) \<Longrightarrow> c args None = Inl x \<Longrightarrow>
    dispatch table name st a args e w = (Inr (Error (invalid_argument x)), w)"
  by (simp add: dispatch_def)

section \<open>Jumps\<close>

definition backup_back :: "backup_states \<Rightarrow> backup_states option" where
  "backup_back s = (case s of
     BContinentSelecting \<Rightarrow> None | BCountrySelecting \<Rightarrow> Some BContinentSelecting
   | BUserAttributesCollecting \<Rightarrow> Some BCountrySelecting | BAuthenticationsEditing \<Rightarrow> Some BUserAttributesCollecting
   | BPoliciesReviewing \<Rightarrow> Some BAuthenticationsEditing | BSecretEditing \<Rightarrow> Some BPoliciesReviewing
   | _ \<Rightarrow> Some BSecretEditing)"

text \<open>Going back works in every state but the first, changes only the state and sends nothing.\<close>

lemma backup_back_jump:
  "backup_back (backup_state b) = Some t \<Longrightarrow>
    reduceAction (Backup b) ''back'' args e w = (Inr (Backup (b\<lparr>backup_state := t\<rparr>)), w)"
  by (cases "backup_state b")
    (auto simp: backup_back_def reduceAction_def table_simps dispatch_def codecForAny_def reducer_errors_def io_catch_def)

section \<open>Requests\<close>

definition config_of :: "string list \<Rightarrow> http_request \<Rightarrow> bool" where
  "config_of urls rq \<longleftrightarrow> rq_path rq = ''config'' \<and> rq_base rq \<in> set urls
     \<and> rq_method rq = ''GET'' \<and> rq_body rq = NoBody"

definition upload_rq :: "http_request \<Rightarrow> bool" where
  "upload_rq rq \<longleftrightarrow> rq_method rq = ''POST'' \<and> (startsWith (rq_path rq) ''truth/'' \<or> startsWith (rq_path rq) ''policy/'')"

lemma within_url_fetch:
  assumes "\<And>rq. rq_path rq = p \<Longrightarrow> rq_base rq = b \<Longrightarrow> rq_method rq = ''GET'' \<Longrightarrow> rq_body rq = NoBody \<Longrightarrow>
    within (sends P) (f rq)"
  shows "within (sends P) (io_bind (io_url p b) f)"
proof (rule sends.within_bind_post [where P = "\<lambda>rq. rq_path rq = p \<and> rq_base rq = b \<and> rq_method rq = ''GET'' \<and> rq_body rq = NoBody"])
  show "post (io_url p b) (\<lambda>rq. rq_path rq = p \<and> rq_base rq = b \<and> rq_method rq = ''GET'' \<and> rq_body rq = NoBody)"
    by (auto simp: post_def io_url_def split: if_splits)
qed (use assms in \<open>auto intro: within_intros\<close>)

lemma within_getProviderInfo: "url \<in> set urls \<Longrightarrow> within (sends (config_of urls)) (getProviderInfo url)"
  unfolding getProviderInfo_def fetch_config_def
  by (intro within_intros within_url_fetch) (auto simp: config_of_def)

lemma within_refresh_providers: "within (sends (config_of (js_keys ps))) (refresh_providers ps)"
  unfolding refresh_providers_def refresh_provider_def
  by (intro within_intros) (simp add: within_getProviderInfo)

text \<open>Programs that send nothing.\<close>

lemma within_pure_parts:
  "within (sends P) (userId_for a s)" "within (sends P) (userIdentifierDerive v t)"
  "within (sends P) (accountKeypairDerive u)" "within (sends P) (compressRecoveryDoc rd)"
  "within (sends P) (uncompressRecoveryDoc z)" "within (sends P) (encryptRecoveryDocument u d)"
  "within (sends P) (encryptKeyshare ks u x)" "within (sends P) (getTruthValue am tu q)"
  "within (sends P) (secureAnswerHash an tu q)" "within (sends P) (parsePayUri uri)"
  "within (sends P) (coreSecretEncrypt pks cs)"
proof -
  show u: "within (sends P) (userIdentifierDerive v t)" for v t
    unfolding userIdentifierDerive_def Let_def by (intro within_intros)
  show h: "within (sends P) (secureAnswerHash an tu q)" for an tu q
    unfolding secureAnswerHash_def by (intro within_intros)
  show "within (sends P) (userId_for a s)"
    using u unfolding userId_for_def Let_def by (auto intro!: within_intros split: option.split)
  show "within (sends P) (accountKeypairDerive u)" for u
    unfolding accountKeypairDerive_def by (intro within_intros)
  show "within (sends P) (compressRecoveryDoc rd)"
    unfolding compressRecoveryDoc_def Let_def by (intro within_intros)
  show "within (sends P) (uncompressRecoveryDoc z)"
    unfolding uncompressRecoveryDoc_def Let_def by (intro within_intros)
  show "within (sends P) (encryptRecoveryDocument u d)" for u
    unfolding encryptRecoveryDocument_def by (intro within_intros)
  show "within (sends P) (encryptKeyshare ks u x)" for u
    unfolding encryptKeyshare_def Let_def by (intro within_intros)
  show "within (sends P) (getTruthValue am tu q)"
    using h unfolding getTruthValue_def by (auto intro!: within_intros)
  show "within (sends P) (parsePayUri uri)"
    unfolding parsePayUri_def base_of_def canonicalizeBaseUrl_def Let_def
    by (auto intro!: within_intros split: option.split)
  show "within (sends P) (coreSecretEncrypt pks cs)"
    unfolding coreSecretEncrypt_def encryptMasterKey_def Let_def by (intro within_intros)
qed

lemma within_prepareRecoveryData: "within (sends P) (prepareRecoveryData st)"
  unfolding prepareRecoveryData_def prepare_policy_def add_method_def truth_for_def new_truth_def Let_def
  by (auto intro!: within_intros within_pure_parts split: option.split)

lemma within_uploadSecret: "within (sends upload_rq) (uploadSecret st)"
proof -
  have id: "within (sends P) (getUserIdCaching st u c)" for P st u c
    unfolding getUserIdCaching_def
    by (auto intro!: within_intros within_pure_parts split: option.split list.split)
  have truth: "within (sends upload_rq) (upload_truth st t d)" for st t d
    unfolding upload_truth_def truth_answer_def Let_def
    by (auto intro!: within_intros within_pure_parts id within_url_fetch
        simp: upload_rq_def truth_request_def pay_timeout_def startsWith_def split: prod.split option.split)
  have policy: "within (sends upload_rq) (upload_policy st rd pp ur)" for st rd pp ur
    unfolding upload_policy_def policy_answer_def policy_pay_secret_def Let_def
    by (auto intro!: within_intros within_pure_parts id within_url_fetch
        simp: upload_rq_def policy_request_def pay_timeout_def startsWith_def split: prod.split option.split)
  have "within (sends upload_rq) (upload_policies st rd c)" for st rd c
    unfolding upload_policies_def
    by (auto intro!: within_intros policy split: sum.split)
  then have "within (sends upload_rq) (upload_prepared st rcd)" for st rcd
    unfolding upload_prepared_def by (auto intro!: within_intros truth split: sum.split)
  then show ?thesis
    unfolding uploadSecret_def
    by (auto intro!: within_intros within_prepareRecoveryData split: option.split)
qed

text \<open>
  The requests an action of the backup flow may send, by the state, the action and its argument:
  the provider to be added is the one that the argument names.
\<close>

definition names_provider :: "jsval \<Rightarrow> string \<Rightarrow> bool" where
  "names_provider args u \<longleftrightarrow> (\<exists>fs. args = JObj fs \<and> js_get fs ''provider_url'' = Some (JStr u))"

definition backup_requests :: "backup \<Rightarrow> string \<Rightarrow> jsval \<Rightarrow> http_request \<Rightarrow> bool" where
  "backup_requests b a args rq \<longleftrightarrow>
     (if backup_state b = BUserAttributesCollecting
      then a = ''enter_user_attributes'' \<and> config_of (js_keys (or_empty (authentication_providers b))) rq
      else if backup_state b = BAuthenticationsEditing then a = ''add_provider'' \<and> (\<exists>u. names_provider args u \<and> config_of [u] rq)
      else a \<in> {''next'', ''pay''} \<and> 5 \<le> stage (backup_state b) \<and> upload_rq rq)"

lemma named_provider: "arg_prop ''provider_url'' as_string args = Inr u \<Longrightarrow> names_provider args u"
  by (auto simp: arg_prop_def js_prop_def as_string_def names_provider_def js_bind_Inr_iff split: jsval.splits option.splits)

lemma within_add_provider:
  "within (sends (\<lambda>rq. \<exists>u. names_provider args u \<and> config_of [u] rq))
    (with_arg ''provider_url'' as_string (addProviderBackup st) args)"
proof (cases "arg_prop ''provider_url'' as_string args")
  case (Inr u)
  have "within (sends (\<lambda>rq. \<exists>u. names_provider args u \<and> config_of [u] rq)) (getProviderInfo u)"
    by (rule within_mono [OF within_getProviderInfo [of u "[u]"]]) (use named_provider [OF Inr] in auto)
  then have "within (sends (\<lambda>rq. \<exists>u. names_provider args u \<and> config_of [u] rq)) (addProviderBackup st u)"
    unfolding addProviderBackup_def by (intro within_intros)
  then show ?thesis by (simp add: with_arg_def Inr within_def io_bind_def io_js_def)
qed (simp add: with_arg_def within_def io_bind_def io_js_def sends_refl)

lemma within_fees: "within (sends P) (updateUploadFees st)"
  unfolding updateUploadFees_def by (auto intro!: within_intros split: option.split)

lemma backup_sends: "within (sends (backup_requests b a args)) (reduceAction (Backup b) a args)"
proof -
  have "within (sends (backup_requests b a args)) (h b v)"
    if "js_get (backupTransitions (backup_state b)) a = Some (c, h)" "c args None = Inr v" for c h v
  proof (cases "backup_state b")
    case BUserAttributesCollecting
    with that show ?thesis
      unfolding backupEnterUserAttributes_def
      by (auto simp: table_simps backup_requests_def [abs_def] backupEnterUserAttributes_def
          intro!: within_intros within_refresh_providers split: if_splits)
  next
    case BAuthenticationsEditing
    with that show ?thesis
      by (auto simp: table_simps backup_requests_def [abs_def] codecForAny_def
          intro!: within_add_provider within_intros split: if_splits)
  next
    case BSecretEditing
    with that show ?thesis
      by (auto simp: table_simps backup_requests_def [abs_def] enterSecret_args_def enterSecret_def
          updateSecretExpiration_def intro!: within_intros within_uploadSecret within_fees split: if_splits)
  qed (use that in \<open>auto simp: table_simps backup_requests_def [abs_def] backupSelectContinent_def
        backupSelectCountry_def intro!: within_intros within_uploadSecret split: if_splits\<close>)
  then show ?thesis by (auto simp: reduceAction_def intro!: within_dispatch)
qed

definition recovery_rq :: "http_request \<Rightarrow> bool" where
  "recovery_rq rq \<longleftrightarrow> rq_method rq = ''GET'' \<and> rq_body rq = NoBody
     \<and> (rq_path rq = ''config'' \<or> startsWith (rq_path rq) ''policy/'' \<or> startsWith (rq_path rq) ''/truth/'')"

lemma config_recovery: "config_of us rq \<Longrightarrow> rq_body rq = NoBody \<Longrightarrow> recovery_rq rq"
  by (simp add: config_of_def recovery_rq_def)

lemma within_recovery_config: "within (sends recovery_rq) (getProviderInfo url)"
  unfolding getProviderInfo_def fetch_config_def
  by (intro within_intros within_url_fetch) (auto simp: recovery_rq_def)

lemma within_downloadPolicy: "within (sends recovery_rq) (downloadPolicy st)"
proof -
  have "within (sends recovery_rq) (lookup_policy st ps url u)" for ps url u
    unfolding lookup_policy_def read_policy_def
    by (auto intro!: within_intros within_pure_parts within_url_fetch
        simp: recovery_rq_def version_query_def startsWith_def split: option.split)
  then show ?thesis
    unfolding downloadPolicy_def check_provider_def Let_def
    by (auto intro!: within_intros within_recovery_config split: sum.split)
qed

lemma within_requestTruth: "within (sends recovery_rq) (requestTruth st t req)"
proof -
  have "within (sends recovery_rq) (truth_response st t req resp)" for resp
    unfolding truth_response_def truth_solved_def by (auto intro!: within_intros within_pure_parts)
  moreover have "within (sends recovery_rq) (response_hash t req)"
    unfolding response_hash_def by (auto intro!: within_intros within_pure_parts)
  ultimately show ?thesis
    unfolding requestTruth_def
    by (auto intro!: within_intros within_url_fetch simp: recovery_rq_def truth_get_def startsWith_def)
qed

lemma within_poll_challenge: "within (sends recovery_rq) (poll_challenge u st)"
  unfolding poll_challenge_def
  by (auto intro!: within_intros within_requestTruth split: option.split challenge_feedback.split)

lemmas recovery_parts = within_recovery_config within_downloadPolicy within_requestTruth within_poll_challenge

lemma recovery_sends: "within (sends recovery_rq) (reduceAction (Recovery r) a args)"
proof -
  have "within (sends recovery_rq) (h r v)" if "js_get (recoveryTransitions (recovery_state r)) a = Some (c, h)" for c h v
    using that
    by (cases "recovery_state r")
      (auto simp: table_simps recoverySelectContinent_def recoverySelectCountry_def recoveryEnterUserAttributes_def
        refresh_providers_def refresh_provider_def addProviderRecovery_def changeVersion_def selectChallenge_def
        solveChallenge_def pollChallenges_def nextFromChallengeSelecting_def
        intro!: within_intros recovery_parts split: if_splits option.split)
  then show ?thesis by (auto simp: reduceAction_def intro!: within_dispatch)
qed

end
