(* ===== verification/BackupStored.thy ===== *)
theory BackupStored
  imports ReducerRuns
begin

text \<open>
  What a finished upload means: every truth and every policy document was sent in one request and
  the provider stored it (status 204), in the order of the metadata and of the providers.
\<close>

section \<open>One request and its answer\<close>

definition exchange :: "env \<Rightarrow> http_request list \<Rightarrow> http_request \<Rightarrow> nat \<Rightarrow> bool" where
  "exchange e log rq status \<longleftrightarrow> (\<exists>resp. e_fetch e log rq = Some resp \<and> rs_status resp = status)"

lemma silent:
  "within (sends (\<lambda>_. False)) m \<Longrightarrow> m e w = (r, w') \<Longrightarrow> w_sent w' = w_sent w"
  by (drule (1) withinD) (auto simp: sends_def list_all_iff)

lemma io_fetch_ok_Inr:
  "io_fetch_ok rq e w = (Inr resp, w') \<Longrightarrow>
    e_fetch e (w_sent w) rq = Some resp \<and> w' = w\<lparr>w_sent := w_sent w @ [rq]\<rparr>"
  by (auto simp: io_fetch_ok_def io_bind_Inr_iff io_fetch_def io_js_def)

lemma io_url_Inr:
  "io_url p b e w = (Inr rq, w') \<Longrightarrow> w' = w \<and> rq_path rq = p \<and> rq_base rq = b"
  by (auto simp: io_url_def split: if_splits)

lemma io_js_Inr: "io_js m e w = (Inr v, w') \<longleftrightarrow> m = Inr v \<and> w' = w"
  by (auto simp: io_js_def)

lemma within_getUserIdCaching: "within (sends P) (getUserIdCaching st u c)"
  unfolding getUserIdCaching_def
  by (auto intro!: within_intros within_pure_parts split: option.split list.split)

lemma within_pay_secret: "within (sends P) (policy_pay_secret st u)"
  unfolding policy_pay_secret_def Let_def by (auto intro!: within_intros within_pure_parts split: option.split)

lemmas silent_parts = within_pure_parts [THEN silent] within_getUserIdCaching [THEN silent] within_pay_secret [THEN silent]

text \<open>The answer to an upload decides whether a payment is recorded.\<close>

lemma truth_answer_Inr:
  assumes "truth_answer prov resp due e w = (Inr (Inr due'), w')"
  shows "w_sent w' = w_sent w"
    "rs_status resp = HttpNoContent \<and> due' = due
     \<or> rs_status resp = HttpPaymentRequired \<and> (\<exists>uri. pd_uris due' = pd_uris due @ [uri])"
proof -
  show "w_sent w' = w_sent w"
    using assms unfolding truth_answer_def Let_def
    by (auto simp: io_bind_Inr_iff io_return_def dest!: silent_parts split: if_splits option.splits)
  show "rs_status resp = HttpNoContent \<and> due' = due
     \<or> rs_status resp = HttpPaymentRequired \<and> (\<exists>uri. pd_uris due' = pd_uris due @ [uri])"
    using assms unfolding truth_answer_def Let_def
    by (auto simp: io_bind_Inr_iff io_return_def split: if_splits option.splits)
qed

lemma policy_answer_Inr:
  assumes "policy_answer prov resp ur e w = (Inr (Inr ur'), w')"
  shows "w_sent w' = w_sent w"
    "rs_status resp = HttpNoContent \<and> ur_uris ur' = ur_uris ur \<and>
       (\<exists>sd. ur_success ur' = js_put prov sd (ur_success ur))
     \<or> rs_status resp = HttpPaymentRequired \<and> (\<exists>uri. ur_uris ur' = ur_uris ur @ [uri])"
proof -
  show "w_sent w' = w_sent w"
    using assms unfolding policy_answer_def Let_def
    by (auto simp: io_bind_Inr_iff io_return_def dest!: silent_parts split: if_splits option.splits)
  show "rs_status resp = HttpNoContent \<and> ur_uris ur' = ur_uris ur \<and>
       (\<exists>sd. ur_success ur' = js_put prov sd (ur_success ur))
     \<or> rs_status resp = HttpPaymentRequired \<and> (\<exists>uri. ur_uris ur' = ur_uris ur @ [uri])"
    using assms unfolding policy_answer_def Let_def
    by (auto simp: io_bind_Inr_iff io_return_def split: if_splits option.splits)
qed

text \<open>The upload of a truth sends one request to the provider of its method.\<close>

definition truth_rq :: "backup \<Rightarrow> truth_metadata \<Rightarrow> http_request \<Rightarrow> bool" where
  "truth_rq st tm rq \<longleftrightarrow> rq_path rq = ''truth/'' @ tm_uuid tm
     \<and> (\<exists>m. truth_member st tm = Inr m \<and> rq_base rq = pm_provider m)"

definition policy_rq :: "policy_provider \<Rightarrow> http_request \<Rightarrow> bool" where
  "policy_rq pp rq \<longleftrightarrow> startsWith (rq_path rq) ''policy/'' \<and> rq_base rq = pp_provider_url pp"

lemma upload_truth_Inr:
  assumes "upload_truth st (k, tm) due e w = (Inr (Inr due'), w')"
  shows "\<exists>rq. w_sent w' = w_sent w @ [rq] \<and> truth_rq st tm rq
    \<and> (exchange e (w_sent w) rq HttpNoContent \<and> pd_uris due' = pd_uris due
       \<or> exchange e (w_sent w) rq HttpPaymentRequired \<and> (\<exists>uri. pd_uris due' = pd_uris due @ [uri]))"
  using assms
  apply (clarsimp simp: upload_truth_def Let_def io_bind_Inr_iff io_js_Inr split: prod.splits)
  apply (frule truth_answer_Inr(1))
  apply (drule truth_answer_Inr(2))
  apply (auto simp: exchange_def truth_request_def pay_timeout_def truth_rq_def dest!: silent_parts io_fetch_ok_Inr io_url_Inr)
  done

lemma upload_policy_Inr:
  assumes "upload_policy st rd pp ur e w = (Inr (Inr ur'), w')"
  shows "\<exists>rq. w_sent w' = w_sent w @ [rq] \<and> policy_rq pp rq
    \<and> (exchange e (w_sent w) rq HttpNoContent \<and> ur_uris ur' = ur_uris ur
         \<and> (\<exists>sd. ur_success ur' = js_put (pp_provider_url pp) sd (ur_success ur))
       \<or> exchange e (w_sent w) rq HttpPaymentRequired \<and> (\<exists>uri. ur_uris ur' = ur_uris ur @ [uri]))"
  using assms
  apply (clarsimp simp: upload_policy_def Let_def io_bind_Inr_iff io_js_Inr split: prod.splits)
  apply (frule policy_answer_Inr(1))
  apply (drule policy_answer_Inr(2))
  apply (auto simp: exchange_def policy_request_def pay_timeout_def policy_rq_def startsWith_def
      dest!: silent_parts io_fetch_ok_Inr io_url_Inr)
  done

section \<open>The whole upload\<close>

text \<open>Each of the requests, sent after the log before it, was answered with 204.\<close>

fun all_stored :: "env \<Rightarrow> http_request list \<Rightarrow> http_request list \<Rightarrow> bool" where
  "all_stored e log [] = True"
| "all_stored e log (rq # rqs) = (exchange e log rq HttpNoContent \<and> all_stored e (log @ [rq]) rqs)"

lemma all_stored_append: "all_stored e log (xs @ ys) = (all_stored e log xs \<and> all_stored e (log @ xs) ys)"
  by (induction e log xs rule: all_stored.induct) auto

lemma io_loop_Cons_Inr:
  "io_loop f (x # xs) s e w = (Inr (Inr t), w') \<longleftrightarrow>
    (\<exists>u v. f x s e w = (Inr (Inr u), v) \<and> io_loop f xs u e v = (Inr (Inr t), w'))"
  unfolding io_loop.simps io_bind_sum by (auto simp: io_return_def)

lemma upload_truths:
  assumes "io_loop (upload_truth st) tms due e w = (Inr (Inr due'), w')"
  shows "\<exists>rqs more. w_sent w' = w_sent w @ rqs \<and> list_all2 (\<lambda>(_, tm). truth_rq st tm) tms rqs
    \<and> pd_uris due' = pd_uris due @ more \<and> (more = [] \<longrightarrow> all_stored e (w_sent w) rqs)"
  using assms
proof (induction tms arbitrary: due w)
  case (Cons t tms)
  obtain k tm where t: "t = (k, tm)" by (cases t)
  obtain u v where u: "upload_truth st (k, tm) due e w = (Inr (Inr u), v)"
    and l: "io_loop (upload_truth st) tms u e v = (Inr (Inr due'), w')"
    using Cons.prems unfolding t io_loop_Cons_Inr by blast
  obtain rq where rq: "w_sent v = w_sent w @ [rq]" "truth_rq st tm rq"
    and p: "exchange e (w_sent w) rq HttpNoContent \<and> pd_uris u = pd_uris due
       \<or> exchange e (w_sent w) rq HttpPaymentRequired \<and> (\<exists>uri. pd_uris u = pd_uris due @ [uri])"
    using upload_truth_Inr [OF u] by blast
  obtain rqs more where IH: "w_sent w' = w_sent v @ rqs" "list_all2 (\<lambda>(_, tm). truth_rq st tm) tms rqs"
    "pd_uris due' = pd_uris u @ more" "more = [] \<longrightarrow> all_stored e (w_sent v) rqs"
    using Cons.IH [OF l] by blast
  show ?case
    using p
  proof (elim disjE conjE exE)
    assume "exchange e (w_sent w) rq HttpNoContent" "pd_uris u = pd_uris due"
    with IH rq t show ?thesis by (intro exI [of _ "rq # rqs"] exI [of _ more]) auto
  next
    fix uri assume "pd_uris u = pd_uris due @ [uri]"
    with IH rq t show ?thesis by (intro exI [of _ "rq # rqs"] exI [of _ "uri # more"]) auto
  qed
qed (auto simp: io_return_def)

lemma upload_policies_loop:
  assumes "io_loop (upload_policy st rd) pps ur e w = (Inr (Inr ur'), w')"
  shows "\<exists>rqs more. w_sent w' = w_sent w @ rqs \<and> list_all2 policy_rq pps rqs
    \<and> ur_uris ur' = ur_uris ur @ more
    \<and> (more = [] \<longrightarrow> all_stored e (w_sent w) rqs
         \<and> set (js_keys (ur_success ur')) = set (js_keys (ur_success ur)) \<union> pp_provider_url ` set pps)"
  using assms
proof (induction pps arbitrary: ur w)
  case (Cons pp pps)
  obtain u v where u: "upload_policy st rd pp ur e w = (Inr (Inr u), v)"
    and l: "io_loop (upload_policy st rd) pps u e v = (Inr (Inr ur'), w')"
    using Cons.prems unfolding io_loop_Cons_Inr by blast
  obtain rq where rq: "w_sent v = w_sent w @ [rq]" "policy_rq pp rq"
    and p: "exchange e (w_sent w) rq HttpNoContent \<and> ur_uris u = ur_uris ur
         \<and> (\<exists>sd. ur_success u = js_put (pp_provider_url pp) sd (ur_success ur))
       \<or> exchange e (w_sent w) rq HttpPaymentRequired \<and> (\<exists>uri. ur_uris u = ur_uris ur @ [uri])"
    using upload_policy_Inr [OF u] by blast
  obtain rqs more where IH: "w_sent w' = w_sent v @ rqs" "list_all2 policy_rq pps rqs" "ur_uris ur' = ur_uris u @ more"
    "more = [] \<longrightarrow> all_stored e (w_sent v) rqs
         \<and> set (js_keys (ur_success ur')) = set (js_keys (ur_success u)) \<union> pp_provider_url ` set pps"
    using Cons.IH [OF l] by blast
  show ?case
    using p
  proof (elim disjE conjE exE)
    fix sd assume "exchange e (w_sent w) rq HttpNoContent" "ur_uris u = ur_uris ur"
      "ur_success u = js_put (pp_provider_url pp) sd (ur_success ur)"
    with IH rq show ?thesis
      by (intro exI [of _ "rq # rqs"] exI [of _ more]) (auto simp: js_keys_put)
  next
    fix uri assume "ur_uris u = ur_uris ur @ [uri]"
    with IH rq show ?thesis by (intro exI [of _ "rq # rqs"] exI [of _ "uri # more"]) auto
  qed
qed (auto simp: io_return_def)

text \<open>
  A backup is finished only after every truth and every policy document was stored: the log grew by
  exactly one request per truth, in the order of the metadata, then one per policy provider, and
  all of them were answered with 204.
\<close>

lemma upload_policies_Inr:
  assumes "upload_policies st rd c e w = (Inr (Backup b), w')" "backup_state b = BBackupFinished"
  obtains pps ur where "policy_providers st = Some pps" "ur_uris ur = []"
    "io_loop (upload_policy st rd) pps \<lparr>ur_uris = [], ur_requests = [], ur_success = [], ur_cache = c\<rparr> e w = (Inr (Inr ur), w')"
    "b = st\<lparr>core_secret := None, backup_state := BBackupFinished, success_details := Some (ur_success ur), payments := None\<rparr>"
proof (cases "policy_providers st")
  case None
  with assms(1) show ?thesis by (simp add: upload_policies_def)
next
  case (Some pps)
  have "js_the (policy_providers st) = Inr pps" using Some by simp
  note l = assms(1) [unfolded upload_policies_def this io_bind_simps io_bind_sum]
  then show ?thesis
  proof (elim disjE exE conjE)
    fix ur u
    assume r: "io_loop (upload_policy st rd) pps \<lparr>ur_uris = [], ur_requests = [], ur_success = [], ur_cache = c\<rparr> e w
        = (Inr (Inr ur), u)"
      "(if ur_uris ur \<noteq> [] then io_return (Backup (st\<lparr>backup_state := BPoliciesPaying, payments := Some (ur_uris ur),
          policy_payment_requests := Some (map (\<lambda>(p, uri). (uri, p)) (ur_requests ur))\<rparr>))
        else io_return (Backup (st\<lparr>core_secret := None, backup_state := BBackupFinished,
          success_details := Some (ur_success ur), payments := None\<rparr>))) e u = (Inr (Backup b), w')"
    show ?thesis
    proof (cases "ur_uris ur = []")
      case True
      with r(2) have "w' = u" "b = st\<lparr>core_secret := None, backup_state := BBackupFinished,
        success_details := Some (ur_success ur), payments := None\<rparr>" by (simp_all add: io_return_def)
      with r(1) True show ?thesis by (intro that [OF Some]) simp_all
    next
      case False
      with r(2) assms(2) show ?thesis by (auto simp: io_return_def)
    qed
  qed (simp add: io_return_def)
qed

lemma upload_policies_finished:
  assumes "upload_policies st rd c e w = (Inr (Backup b), w')" "backup_state b = BBackupFinished"
  shows "\<exists>pps rqs sd. policy_providers st = Some pps \<and> w_sent w' = w_sent w @ rqs \<and> list_all2 policy_rq pps rqs
    \<and> all_stored e (w_sent w) rqs \<and> success_details b = Some sd \<and> set (js_keys sd) = pp_provider_url ` set pps"
proof -
  obtain pps ur where ur: "policy_providers st = Some pps" "ur_uris ur = []"
    "io_loop (upload_policy st rd) pps \<lparr>ur_uris = [], ur_requests = [], ur_success = [], ur_cache = c\<rparr> e w = (Inr (Inr ur), w')"
    "b = st\<lparr>core_secret := None, backup_state := BBackupFinished, success_details := Some (ur_success ur), payments := None\<rparr>"
    using upload_policies_Inr [OF assms] .
  obtain rqs where l: "w_sent w' = w_sent w @ rqs" "list_all2 policy_rq pps rqs" "all_stored e (w_sent w) rqs"
    "set (js_keys (ur_success ur)) = pp_provider_url ` set pps"
    using upload_policies_loop [OF ur(3)] ur(2) by (clarsimp simp: js_keys_def)
  show ?thesis
    using l ur by (intro exI [of _ pps] exI [of _ rqs] exI [of _ "ur_success ur"]) simp
qed

lemma uploadSecret_finished:
  assumes "uploadSecret st e w = (Inr (Backup b), w')" "backup_state b = BBackupFinished"
  shows "\<exists>rcd pps trs prs sd. recovery_data b = Some rcd \<and> policy_providers st = Some pps
    \<and> w_sent w' = w_sent w @ trs @ prs \<and> all_stored e (w_sent w) (trs @ prs)
    \<and> list_all2 (\<lambda>(_, tm). truth_rq st tm) (rcd_truth_metadata rcd) trs \<and> list_all2 policy_rq pps prs
    \<and> success_details b = Some sd \<and> set (js_keys sd) = pp_provider_url ` set pps"
proof -
  obtain st' w1 where prep: "(case recovery_data st of None \<Rightarrow> prepareRecoveryData st | Some _ \<Rightarrow> io_return st) e w = (Inr st', w1)"
    and up: "(case recovery_data st' of None \<Rightarrow> io_throw (JsError ''invariant failed'')
       | Some rcd \<Rightarrow> upload_prepared st' rcd) e w1 = (Inr (Backup b), w')"
    using assms(1) unfolding uploadSecret_def by (auto simp: io_bind_Inr_iff)
  have w1: "w_sent w1 = w_sent w"
    using prep within_prepareRecoveryData [THEN silent] by (auto simp: io_return_def split: option.splits)
  have st': "\<exists>r. st' = st\<lparr>recovery_data := r\<rparr>"
    using prep post_prepareRecoveryData [of st] by (auto simp: io_return_def dest: postD split: option.splits intro: exI [of _ "recovery_data st"])
  then have same: "policy_providers st' = policy_providers st" "truth_rq st' = truth_rq st"
    by (auto simp: truth_rq_def [abs_def] truth_member_def)
  obtain rcd where rcd: "recovery_data st' = Some rcd" and u: "upload_prepared st' rcd e w1 = (Inr (Backup b), w')"
    using up by (auto split: option.splits)
  obtain due w2 where l: "io_loop (upload_truth st') (rcd_truth_metadata rcd) \<lparr>pd_uris = [], pd_secrets = [], pd_cache = []\<rparr> e w1
       = (Inr (Inr due), w2)" and d: "pd_uris due = []"
    and p: "upload_policies st' (rcd_recovery_document rcd) (pd_cache due) e w2 = (Inr (Backup b), w')"
    using u assms(2) unfolding upload_prepared_def io_bind_sum by (auto simp: io_return_def split: if_splits)
  obtain trs where trs: "w_sent w2 = w_sent w1 @ trs" "list_all2 (\<lambda>(_, tm). truth_rq st' tm) (rcd_truth_metadata rcd) trs"
    "all_stored e (w_sent w1) trs"
    using upload_truths [OF l] d by auto
  obtain pps prs sd where prs: "policy_providers st' = Some pps" "w_sent w' = w_sent w2 @ prs" "list_all2 policy_rq pps prs"
    "all_stored e (w_sent w2) prs" "success_details b = Some sd" "set (js_keys sd) = pp_provider_url ` set pps"
    using upload_policies_finished [OF p assms(2)] by blast
  have "recovery_data b = Some rcd"
    by (rule upload_policies_Inr [OF p assms(2)]) (simp add: rcd)
  with trs prs w1 same show ?thesis
    by (intro exI [of _ rcd] exI [of _ pps] exI [of _ trs] exI [of _ prs] exI [of _ sd]) (auto simp: all_stored_append)
qed

end
