(* ===== verification/BackupRecovery.thy ===== *)
theory BackupRecovery
  imports BackupStored
begin

text \<open>
  The two flows together: the recovery document that \<open>prepareRecoveryData\<close> makes gives the core
  secret back to whoever has the key shares of one policy, and the document, the key shares and
  the answers that the upload sends are read back by the download.
\<close>

section \<open>The recovery document\<close>

lemma io_fold_inv:
  assumes "io_fold f xs s e w = (Inr t, w')" "I s"
    and "\<And>x s w v w'. x \<in> set xs \<Longrightarrow> I s \<Longrightarrow> f x s e w = (Inr v, w') \<Longrightarrow> I v"
  shows "I t"
  using assms
proof (induction xs arbitrary: s w)
  case (Cons x xs)
  then obtain v u where v: "f x s e w = (Inr v, u)" "io_fold f xs v e u = (Inr t, w')"
    by (auto simp: io_bind_Inr_iff)
  show ?case
    by (rule Cons.IH [OF v(2)], rule Cons.prems(3) [OF _ Cons.prems(2) v(1)], simp,
        erule (2) Cons.prems(3) [OF list.set_intros(2)])
qed (simp add: io_return_def)

lemma js_put_fresh: "js_get d k = None \<Longrightarrow> js_put k v d = d @ [(k, v)]"
  by (induction d) (auto simp: js_get_Cons split: if_splits)

text \<open>The key share of a truth is 32 bytes in Crockford coding.\<close>

definition share_of :: "truth_metadata \<Rightarrow> bool" where
  "share_of tm \<longleftrightarrow> (\<exists>b. tm_key_share tm = encodeCrock b \<and> length b = 32)"

lemma share_of_truthy: "share_of tm \<Longrightarrow> truthy (Some (tm_key_share tm))"
  by (auto simp: share_of_def truthy_def length_encodeCrock split: list.split dest!: arg_cong [where f = length])

abbreviation truths_in :: "truth_metadata obj \<Rightarrow> truth_metadata set" where
  "truths_in tms \<equiv> snd ` set tms"

lemma new_truth_share: "random_ok e \<Longrightarrow> new_truth i j e w = (Inr tm, w') \<Longrightarrow> share_of tm"
  by (auto simp: new_truth_def share_of_def random_ok_def io_bind_Inr_iff)

lemma js_get_truths: "js_get d k = Some v \<Longrightarrow> v \<in> snd ` set d"
  by (auto simp: js_get_def dest!: map_of_SomeD) force

definition truths_ok :: "truth_metadata obj \<times> truth_metadata list \<Rightarrow> bool" where
  "truths_ok = (\<lambda>(tms, used). (\<forall>tm\<in>truths_in tms. share_of tm) \<and> set used \<subseteq> truths_in tms)"

lemma add_method_ok:
  assumes "random_ok e" "truths_ok s" "add_method i x s e w = (Inr t, w')"
  shows "truths_ok t \<and> truths_in (fst s) \<subseteq> truths_in (fst t)"
  using assms new_truth_share [OF assms(1)]
  by (cases s; cases x; cases "js_get (fst s) (truth_reference (snd x))")
    (auto simp: add_method_def truth_for_def truths_ok_def io_bind_Inr_iff io_return_def js_put_fresh
       dest: js_get_truths)

text \<open>
  What is known of the policies prepared so far: their truths, and that the key of each is derived
  from the shares of its truths and its salt.
\<close>

definition policy_prepared :: "prepared \<Rightarrow> truth_metadata list list \<Rightarrow> bool" where
  "policy_prepared pr useds \<longleftrightarrow> (\<forall>tm\<in>truths_in (pr_truths pr). share_of tm)
     \<and> (\<forall>used\<in>set useds. set used \<subseteq> truths_in (pr_truths pr))
     \<and> pr_uuids pr = map (map tm_uuid) useds
     \<and> list_all2 (\<lambda>used (k, s). policyKeyDerive (map tm_key_share used) s = Inr k) useds (zip (pr_keys pr) (pr_salts pr))
     \<and> length (pr_keys pr) = length useds \<and> length (pr_salts pr) = length useds"

lemma prepare_policy_ok:
  assumes "random_ok e" "policy_prepared pr useds" "prepare_policy (i, p) pr e w = (Inr pr', w')"
  shows "\<exists>used. policy_prepared pr' (useds @ [used])"
proof -
  obtain sb pol tms used k w1 w2 where p: "p = Some pol"
    "io_fold (add_method i) (enumerate 0 (pol_methods pol)) (pr_truths pr, []) e w1 = (Inr (tms, used), w2)"
    "policyKeyDerive (map tm_key_share used) (encodeCrock sb) = Inr k"
    and pr': "pr' = \<lparr>pr_truths = tms, pr_keys = pr_keys pr @ [k], pr_salts = pr_salts pr @ [encodeCrock sb],
      pr_uuids = pr_uuids pr @ [map tm_uuid used]\<rparr>"
    using assms(3) unfolding prepare_policy_def prod.case io_bind_Inr_iff
    by (auto simp only: io_js_Inr js_the_Inr_iff io_random_eval prod.inject sum.inject prod.case io_return_def
        io_bind_Inr_iff split_paired_Ex)
  let ?I = "\<lambda>s. truths_ok s \<and> truths_in (pr_truths pr) \<subseteq> truths_in (fst s)"
  have "?I (tms, used)"
  proof (rule io_fold_inv [where I = ?I, OF p(2)])
    show "?I (pr_truths pr, [])"
      using assms(2) by (simp add: truths_ok_def policy_prepared_def)
    show "?I t" if "?I s" "add_method i x s e u = (Inr t, u')" for x s t u u'
      using add_method_ok [OF assms(1) _ that(2)] that(1) by blast
  qed
  then have tms: "\<forall>tm\<in>truths_in tms. share_of tm" "set used \<subseteq> truths_in tms" "truths_in (pr_truths pr) \<subseteq> truths_in tms"
    by (auto simp: truths_ok_def)
  then have "set u \<subseteq> truths_in tms" if "u \<in> set useds" for u
    using assms(2) that unfolding policy_prepared_def by blast
  with tms assms(2) p(3) show ?thesis
    unfolding pr' policy_prepared_def by (intro exI [of _ used]) (simp add: list_all2_appendI)
qed

lemma prepare_policies_ok:
  assumes "random_ok e" "io_fold prepare_policy (enumerate n ps) pr e w = (Inr pr', w')" "policy_prepared pr useds"
  shows "\<exists>more. policy_prepared pr' (useds @ more) \<and> length more = length ps"
  using assms(2,3)
proof (induction ps arbitrary: n pr useds w)
  case (Cons p ps)
  obtain pr1 w1 where s: "prepare_policy (n, p) pr e w = (Inr pr1, w1)"
    "io_fold prepare_policy (enumerate (Suc n) ps) pr1 e w1 = (Inr pr', w')"
    using Cons.prems(1) by (auto simp: io_bind_Inr_iff)
  obtain used where u: "policy_prepared pr1 (useds @ [used])"
    using prepare_policy_ok [OF assms(1) Cons.prems(2) s(1)] by blast
  obtain more where "policy_prepared pr' ((useds @ [used]) @ more)" "length more = length ps"
    using Cons.IH [OF s(2) u] by blast
  then show ?case by (intro exI [of _ "used # more"]) simp
qed (auto simp: io_return_def)

lemma json_ok_core_secret: "json_ok (core_secret_json (Some cs))"
  by (cases "cs_filename cs") (simp_all add: core_secret_json_def opt_field_def)

text \<open>
  The policies of a prepared document: each lists the truths it needs, and their key shares give
  the core secret.
\<close>

definition recoverable :: "recovery_data \<Rightarrow> jsval \<Rightarrow> bool" where
  "recoverable rcd v \<longleftrightarrow> (\<forall>p\<in>set (rd_policies (rcd_recovery_document rcd)). \<exists>used.
     set used \<subseteq> truths_in (rcd_truth_metadata rcd) \<and> dp_uuids p = map tm_uuid used
     \<and> recover_core_secret (rcd_recovery_document rcd) p (map tm_key_share used) = Inr v)"

lemma make_policies_nth:
  "length keys = length uuids \<Longrightarrow> length salts = length uuids \<Longrightarrow> i < length uuids \<Longrightarrow>
    make_policies keys uuids salts ! i = \<lparr>dp_salt = salts ! i, dp_master_key = keys ! i, dp_uuids = uuids ! i\<rparr>"
  by (simp add: make_policies_def)

lemma length_make_policies:
  "length keys = length uuids \<Longrightarrow> length salts = length uuids \<Longrightarrow> length (make_policies keys uuids salts) = length uuids"
  by (simp add: make_policies_def)

lemma policy_prepared_nth:
  assumes "policy_prepared pr useds" "i < length useds"
  shows "policyKeyDerive (map tm_key_share (useds ! i)) (pr_salts pr ! i) = Inr (pr_keys pr ! i)"
    and "set (useds ! i) \<subseteq> truths_in (pr_truths pr)"
proof -
  have "list_all2 (\<lambda>used (k, s). policyKeyDerive (map tm_key_share used) s = Inr k) useds (zip (pr_keys pr) (pr_salts pr))"
    "length (pr_keys pr) = length useds" "length (pr_salts pr) = length useds"
    using assms(1) by (simp_all add: policy_prepared_def)
  then show "policyKeyDerive (map tm_key_share (useds ! i)) (pr_salts pr ! i) = Inr (pr_keys pr ! i)"
    using assms(2) list_all2_nthD by fastforce
  show "set (useds ! i) \<subseteq> truths_in (pr_truths pr)"
    using assms nth_mem unfolding policy_prepared_def by blast
qed

lemma prepared_recoverable:
  assumes pp: "policy_prepared pr useds" and cs: "core_secret st = Some c"
    and n: "length (encMasterKeys csr) = length (pr_keys pr)"
    and r: "\<forall>i<length (pr_keys pr). coreSecretRecover (encMasterKeys csr ! i) (pr_keys pr ! i) (encCoreSecret csr)
      = Inr (encodeCrock (json_bytes (core_secret_json (core_secret st))))"
  shows "recoverable \<lparr>rcd_truth_metadata = pr_truths pr, rcd_recovery_document =
      \<lparr>rd_secret_name = sn, rd_encrypted_core_secret = encCoreSecret csr, rd_escrow_methods = ems,
       rd_policies = make_policies (encMasterKeys csr) (pr_uuids pr) (pr_salts pr)\<rparr>\<rparr> (core_secret_json (Some c))"
proof -
  have len: "length (encMasterKeys csr) = length useds" "length (pr_salts pr) = length useds"
    "length (pr_keys pr) = length useds" "pr_uuids pr = map (map tm_uuid) useds"
    using pp n by (simp_all add: policy_prepared_def)
  let ?ps = "make_policies (encMasterKeys csr) (pr_uuids pr) (pr_salts pr)"
  note key = policy_prepared_nth [OF pp]
  have nth: "?ps ! i = \<lparr>dp_salt = pr_salts pr ! i, dp_master_key = encMasterKeys csr ! i, dp_uuids = map tm_uuid (useds ! i)\<rparr>"
    if "i < length useds" for i
    using that len by (simp add: make_policies_nth)
  have "recover_core_secret \<lparr>rd_secret_name = sn, rd_encrypted_core_secret = encCoreSecret csr,
      rd_escrow_methods = ems, rd_policies = ?ps\<rparr> (?ps ! i) (map tm_key_share (useds ! i)) = Inr (core_secret_json (Some c))"
    if "i < length useds" for i
    unfolding recover_core_secret_def nth [OF that]
    using key [OF that] r len that
    by (simp add: decodeCrock_encodeCrock cs json_bytes_parse [OF json_ok_core_secret])
  moreover have "\<exists>i<length useds. p = ?ps ! i" if "p \<in> set ?ps" for p
    using that len by (metis in_set_conv_nth length_make_policies length_map)
  ultimately show ?thesis
    unfolding recoverable_def using key(2) nth by (metis (no_types, lifting) decryption_policy.select_convs(3)
      recovery_data.select_convs recovery_document.select_convs(4))
qed

text \<open>
  Preparing the recovery data of a state with a core secret: every policy of the document gives
  the secret back to whoever has the key shares of its truths, and the escrow methods are those
  of the truths.
\<close>

lemma prepareRecoveryData_recoverable:
  assumes e: "random_ok e" and p: "prepareRecoveryData st e w = (Inr st', w')" and cs: "core_secret st = Some c"
  shows "\<exists>rcd ps. recovery_data st' = Some rcd \<and> policies st = Some ps
    \<and> length (rd_policies (rcd_recovery_document rcd)) = length ps
    \<and> recoverable rcd (core_secret_json (Some c)) \<and> (\<forall>tm\<in>truths_in (rcd_truth_metadata rcd). share_of tm)
    \<and> js_map (\<lambda>(_, tm). make_escrow st tm) (rcd_truth_metadata rcd) = Inr (rd_escrow_methods (rcd_recovery_document rcd))"
proof -
  let ?cs = "encodeCrock (json_bytes (core_secret_json (core_secret st)))"
  obtain ps pr csr ems w1 w2 where ps: "policies st = Some ps"
    and pr: "io_fold prepare_policy (enumerate 0 ps) \<lparr>pr_truths = [], pr_keys = [], pr_salts = [], pr_uuids = []\<rparr> e w = (Inr pr, w1)"
    and csr: "coreSecretEncrypt (pr_keys pr) ?cs e w1 = (Inr csr, w2)"
    and ems: "js_map (\<lambda>(_, tm). make_escrow st tm) (pr_truths pr) = Inr ems"
    and st': "st' = st\<lparr>recovery_data := Some \<lparr>rcd_truth_metadata = pr_truths pr, rcd_recovery_document =
       \<lparr>rd_secret_name = secret_name st, rd_encrypted_core_secret = encCoreSecret csr, rd_escrow_methods = ems,
        rd_policies = make_policies (encMasterKeys csr) (pr_uuids pr) (pr_salts pr)\<rparr>\<rparr>\<rparr>"
    using p unfolding prepareRecoveryData_def Let_def
    by (auto simp only: io_bind_Inr_iff io_js_Inr js_the_Inr_iff io_return_def prod.inject sum.inject)
  have "policy_prepared \<lparr>pr_truths = [], pr_keys = [], pr_salts = [], pr_uuids = []\<rparr> []"
    by (simp add: policy_prepared_def)
  from prepare_policies_ok [OF e pr this]
  obtain useds where u: "policy_prepared pr useds" "length useds = length ps" by auto
  have "is_crock k" if k: "k \<in> set (pr_keys pr)" for k
  proof -
    obtain i where "i < length (pr_keys pr)" "k = pr_keys pr ! i" using k by (metis in_set_conv_nth)
    moreover from this have "i < length useds" using u(1) by (simp add: policy_prepared_def)
    ultimately show ?thesis
      using policyKeyDerive_crock [OF policy_prepared_nth(1) [OF u(1)]] by simp
  qed
  then obtain r w3 where "coreSecretEncrypt (pr_keys pr) ?cs e w1 = (Inr r, w3)"
    "length (encMasterKeys r) = length (pr_keys pr)"
    "\<forall>i<length (pr_keys pr). coreSecretRecover (encMasterKeys r ! i) (pr_keys pr ! i) (encCoreSecret r) = Inr ?cs"
    using coreSecretEncrypt_ok [OF e, of "pr_keys pr" ?cs w1] by auto
  with csr have n: "length (encMasterKeys csr) = length (pr_keys pr)"
    and r: "\<forall>i<length (pr_keys pr). coreSecretRecover (encMasterKeys csr ! i) (pr_keys pr ! i) (encCoreSecret csr) = Inr ?cs"
    by auto
  have "length (make_policies (encMasterKeys csr) (pr_uuids pr) (pr_salts pr)) = length ps"
    using u n by (simp add: policy_prepared_def length_make_policies)
  moreover have "\<forall>tm\<in>truths_in (pr_truths pr). share_of tm"
    using u(1) by (simp add: policy_prepared_def)
  ultimately show ?thesis
    using ps ems prepared_recoverable [OF u(1) cs n r] by (simp add: st')
qed

section \<open>Reconstructing the secret\<close>

text \<open>
  The shares collected so far agree with those of the truths, and one policy has all of its shares.
\<close>

definition shares_agree :: "string obj \<Rightarrow> truth_metadata set \<Rightarrow> bool" where
  "shares_agree ks tms \<longleftrightarrow> (\<forall>tm\<in>tms. js_get ks (tm_uuid tm) \<in> {None, Some (tm_key_share tm)})"

lemma shares_agree_mono: "shares_agree ks B \<Longrightarrow> A \<subseteq> B \<Longrightarrow> shares_agree ks A"
  unfolding shares_agree_def by (rule ballI, drule bspec, erule (1) subsetD)

lemma policy_shares_all:
  assumes "shares_agree ks (set used)" "\<forall>tm\<in>set used. share_of tm"
  shows "policy_shares ks (map tm_uuid used) =
    (if \<forall>tm\<in>set used. js_get ks (tm_uuid tm) \<noteq> None then Some (map tm_key_share used) else None)"
  using assms
proof (induction used)
  case (Cons tm used)
  have IH: "policy_shares ks (map tm_uuid used) =
    (if \<forall>tm\<in>set used. js_get ks (tm_uuid tm) \<noteq> None then Some (map tm_key_share used) else None)"
    using Cons.prems by (intro Cons.IH) (auto simp: shares_agree_def)
  have "js_get ks (tm_uuid tm) = None \<or> js_get ks (tm_uuid tm) = Some (tm_key_share tm)" "share_of tm"
    using Cons.prems by (auto simp: shares_agree_def)
  then show ?case
    using share_of_truthy [of tm] by (elim disjE) (simp_all add: IH truthy_def [of None])
qed simp

lemma usable_policy_found:
  "p \<in> set ps \<Longrightarrow> policy_shares ks (dp_uuids p) \<noteq> None \<Longrightarrow> usable_policy ks ps \<noteq> None"
  by (induction ps) (auto split: option.split)

lemma tryRecoverSecret_finds:
  assumes r: "recoverable rcd v" and s: "\<forall>tm\<in>truths_in (rcd_truth_metadata rcd). share_of tm"
    and rd: "verbatim_recovery_document r = Some (rcd_recovery_document rcd)"
    and ks: "shares_agree (or_empty (recovered_key_shares r)) (truths_in (rcd_truth_metadata rcd))"
    and p: "p \<in> set (rd_policies (rcd_recovery_document rcd))"
      "\<forall>u\<in>set (dp_uuids p). js_get (or_empty (recovered_key_shares r)) u \<noteq> None"
  shows "tryRecoverSecret r = Inr (r\<lparr>recovery_state := RRecoveryFinished, selected_challenge_uuid := None,
    r_core_secret := Some v\<rparr>)"
proof -
  let ?ks = "or_empty (recovered_key_shares r)"
  have shares: "\<exists>used :: truth_metadata list. policy_shares ?ks (dp_uuids q) =
      (if \<forall>u\<in>set (dp_uuids q). js_get ?ks u \<noteq> None then Some (map tm_key_share used) else None)
    \<and> recover_core_secret (rcd_recovery_document rcd) q (map tm_key_share used) = Inr v"
    if q: "q \<in> set (rd_policies (rcd_recovery_document rcd))" for q
  proof -
    obtain used where used: "set used \<subseteq> truths_in (rcd_truth_metadata rcd)" "dp_uuids q = map tm_uuid used"
      "recover_core_secret (rcd_recovery_document rcd) q (map tm_key_share used) = Inr v"
      using r q unfolding recoverable_def by blast
    have a: "shares_agree ?ks (set used)"
      using shares_agree_mono [OF ks used(1)] .
    have "\<forall>tm\<in>set used. share_of tm"
      using s used(1) by blast
    from policy_shares_all [OF a this] used(2,3) show ?thesis by (intro exI [of _ used]) simp
  qed
  obtain used :: "truth_metadata list" where "policy_shares ?ks (dp_uuids p) = Some (map tm_key_share used)"
    using shares [OF p(1)] p(2) by auto
  then obtain q sh where u: "usable_policy ?ks (rd_policies (rcd_recovery_document rcd)) = Some (q, sh)"
    using usable_policy_found [OF p(1), of ?ks] by auto
  then have q: "q \<in> set (rd_policies (rcd_recovery_document rcd))" "policy_shares ?ks (dp_uuids q) = Some sh"
    using usable_policy_Some [OF u] by auto
  have "recover_core_secret (rcd_recovery_document rcd) q sh = Inr v"
    using shares [OF q(1)] q(2) by (auto split: if_splits)
  then show ?thesis
    by (simp add: tryRecoverSecret_def rd u)
qed

section \<open>What the providers store is what the recovery reads\<close>

lemma encrypt_random:
  assumes "random_ok e" "is_crock k"
  shows "\<exists>b. io_bind (io_random 24) (\<lambda>n. io_js (anastasisEncrypt (encodeCrock n) k (encodeCrock p) s)) e w
      = (Inr (encodeCrock b), w\<lparr>w_drawn := Suc (w_drawn w)\<rparr>)
    \<and> anastasisDecrypt k (encodeCrock b) s = Inr (encodeCrock p)"
proof -
  obtain c where "anastasisEncrypt (encodeCrock (e_random e (w_drawn w) 24)) k (encodeCrock p) s = Inr c"
    "crock_of c" "anastasisDecrypt k c s = Inr (encodeCrock p)"
    using anastasis_open_seal [OF random_nonce [OF assms(1)] assms(2) crock_of_encode, of "w_drawn w" p s]
    by (auto simp: nonceSize_def)
  then show ?thesis by (auto simp: crock_of_def)
qed

text \<open>The recovery document: what was posted, returned with status 200, is the document.\<close>

lemma document_roundtrip:
  assumes "random_ok e" "zlib_ok e" "is_crock uid"
  shows "\<exists>z body w1. compressRecoveryDoc rd e w = (Inr z, w)
    \<and> encryptRecoveryDocument uid (encodeCrock z) e w = (Inr (encodeCrock body), w1)
    \<and> (\<forall>url resp. rs_body resp = body \<longrightarrow>
          (\<exists>fd. fd_document fd = rd \<and> (\<forall>u. read_policy url uid resp e u = (Inr fd, u))))"
proof -
  obtain z where z: "compressRecoveryDoc rd e w = (Inr z, w)" "\<And>u. uncompressRecoveryDoc z e u = (Inr rd, u)"
    using compress_uncompress [OF assms(2)] by (metis prod.inject sum.inject(2))
  obtain b where b: "encryptRecoveryDocument uid (encodeCrock z) e w = (Inr (encodeCrock b), w\<lparr>w_drawn := Suc (w_drawn w)\<rparr>)"
    "decryptRecoveryDocument uid (encodeCrock b) = Inr (encodeCrock z)"
    using encrypt_random [OF assms(1,3), of z "''erd''" w]
    by (auto simp: encryptRecoveryDocument_def decryptRecoveryDocument_def asOpaque_def nonceSize_def)
  have "read_policy url uid resp e u = (Inr \<lparr>fd_info =
         \<lparr>ri_secret_name = (case rd_secret_name rd of Some n \<Rightarrow> n | None \<Rightarrow> ''<unknown>''),
          ri_provider_url = url, ri_version = header_number resp ''Anastasis-Version''\<rparr>, fd_document = rd\<rparr>, u)"
    if "rs_body resp = b" for url resp u
    using that b(2) z(2) by (simp add: read_policy_def decodeCrock_encodeCrock)
  then have "\<exists>fd. fd_document fd = rd \<and> (\<forall>u. read_policy url uid resp e u = (Inr fd, u))"
    if "rs_body resp = b" for url resp
    using that by (metis found_document.select_convs(2))
  with z(1) b(1) show ?thesis
    by (intro exI [of _ z] exI [of _ b] exI [of _ "w\<lparr>w_drawn := Suc (w_drawn w)\<rparr>"]) simp
qed

text \<open>The key share of a truth, under the same user identifier and the same answer.\<close>

lemma keyshare_roundtrip:
  assumes "random_ok e" "is_crock uid" "crock_of ks"
  shows "\<exists>b w1. encryptKeyshare ks uid a e w = (Inr (encodeCrock b), w1) \<and> decryptKeyShare (encodeCrock b) uid a = Inr ks"
proof -
  obtain k where k: "ks = encodeCrock k" using assms(3) by (auto simp: crock_of_def)
  show ?thesis
    using encrypt_random [OF assms(1,2), of k "case a of Some x \<Rightarrow> x | None \<Rightarrow> ''eks''" w]
    by (auto simp: encryptKeyshare_def decryptKeyShare_def asOpaque_def k Let_def)
qed

text \<open>
  The answer to a security question: the response sent by the recovery is the truth value that the
  backup uploaded.
\<close>

lemma answer_response:
  assumes "am_type am = ''question''" "am_challenge am = encodeCrock (stringToBytes a)"
    and "es_type t = ''question''" "js_get fs ''answer'' = Some (JStr a)"
  shows "response_hash t (JObj fs) e w = getTruthValue am (es_uuid t) (es_truth_salt t) e w"
proof -
  have "''answer'' \<in> set (js_keys fs)" using assms(4) by (simp add: js_keys_get)
  moreover have "io_bind m (\<lambda>h. io_return (asOpaque h)) e w = m e w" for m :: "string io"
    by (auto simp: io_bind_def asOpaque_def io_return_def split: prod.split sum.split)
  ultimately show ?thesis
    using assms by (simp add: response_hash_def getTruthValue_def js_in_def arg_prop_def js_prop_def as_string_def
        decodeCrock_encodeCrock)
qed

section \<open>The same user identifier on both sides\<close>

text \<open>Programs whose outcome depends on the environment only.\<close>

definition steady :: "env \<Rightarrow> 'a io \<Rightarrow> bool" where
  "steady e m \<longleftrightarrow> (\<exists>r. \<forall>w. m e w = (r, w))"

lemma steady_intros:
  "steady e (io_return v)" "steady e (io_throw x)" "steady e (io_js j)" "steady e (io_env f)"
  by (auto simp: steady_def)

lemma steady_bind:
  assumes "steady e m" "\<And>v. steady e (f v)"
  shows "steady e (io_bind m f)"
proof -
  obtain r where r: "\<And>w. m e w = (r, w)" using assms(1) by (auto simp: steady_def)
  show ?thesis
    using assms(2) r by (cases r) (auto simp: steady_def io_bind_def)
qed

lemma steadyD: "steady e m \<Longrightarrow> m e w = (r, w') \<Longrightarrow> w' = w \<and> (\<forall>u. m e u = (r, u))"
  by (auto simp: steady_def)

lemma steady_userId: "steady e (userId_for a s)"
  unfolding userId_for_def userIdentifierDerive_def Let_def
  by (auto intro!: steady_bind steady_intros split: option.split)

lemma steady_keypair: "steady e (accountKeypairDerive u)"
  unfolding accountKeypairDerive_def by (intro steady_bind steady_intros)

lemma userId_for_crock: "userId_for a s e w = (Inr u, w') \<Longrightarrow> crock_of u"
  by (auto simp: userId_for_def userIdentifierDerive_def Let_def io_bind_Inr_iff io_js_Inr io_throw_def io_return_def
      split: option.splits)

text \<open>The identifier of the user at a provider, from the attributes of the backup.\<close>

definition identity :: "env \<Rightarrow> backup \<Rightarrow> string \<Rightarrow> string \<Rightarrow> bool" where
  "identity e st url uid \<longleftrightarrow> (\<exists>prov. provider_at st url = Inr prov
     \<and> (\<forall>w. userId_for (identity_attributes st) (provider_salt prov) e w = (Inr uid, w)))"

definition cache_ok :: "env \<Rightarrow> backup \<Rightarrow> user_cache \<Rightarrow> bool" where
  "cache_ok e st c \<longleftrightarrow> (\<forall>url uid. js_get c url = Some uid \<longrightarrow> identity e st url uid)"

lemma cache_ok_Nil [simp]: "cache_ok e st []"
  by (simp add: cache_ok_def)

lemma identity_crock: "identity e st url uid \<Longrightarrow> is_crock uid"
  by (auto simp: identity_def dest: userId_for_crock intro: crock_of_is_crock)

lemma getUserIdCaching_identity:
  assumes "cache_ok e st c" "getUserIdCaching st url c e w = (Inr (uid, c'), w')"
  shows "w' = w \<and> identity e st url uid \<and> cache_ok e st c'"
proof (cases "\<exists>x xs. js_get c url = Some (x # xs)")
  case True
  with assms show ?thesis by (auto simp: getUserIdCaching_def io_return_def cache_ok_def)
next
  case False
  then obtain prov u w1 where p: "provider_at st url = Inr prov" "c' = js_put url uid c" "w' = w1" "u = uid"
    "userId_for (identity_attributes st) (provider_salt prov) e w = (Inr u, w1)"
    using assms(2) unfolding getUserIdCaching_def
    by (auto simp: io_bind_Inr_iff io_js_Inr io_return_def split: option.splits list.splits)
  then have "w' = w" "identity e st url uid"
    using steadyD [OF steady_userId p(5)] by (auto simp: identity_def)
  with assms(1) p(2) show ?thesis by (auto simp: cache_ok_def js_get_put)
qed

section \<open>An uploaded document is found again\<close>

definition get_request :: "string \<Rightarrow> string \<Rightarrow> http_request" where
  "get_request path base = \<lparr>rq_path = path, rq_base = base, rq_query = [], rq_method = ''GET'', rq_headers = [],
     rq_body = NoBody\<rparr>"

text \<open>
  The upload of a policy document posts a body; whenever the provider answers the request of a
  later recovery with that body, the recovery reads the document, provided that it knows the same
  attributes and the same provider salt.
\<close>

lemma upload_policy_found:
  assumes e: "random_ok e" "zlib_ok e" and c: "cache_ok e st (ur_cache ur)"
    and up: "upload_policy st rd pp ur e w = (Inr (Inr ur'), w')"
  shows "\<exists>rq body prov. w_sent w' = w_sent w @ [rq] \<and> rq_method rq = ''POST'' \<and> rq_body rq = BytesBody body
    \<and> provider_at st (pp_provider_url pp) = Inr prov \<and> cache_ok e st (ur_cache ur')
    \<and> (\<forall>r ps info u resp. js_get ps (pp_provider_url pp) = Some info \<longrightarrow> provider_salt info = provider_salt prov \<longrightarrow>
        r_identity_attributes r = identity_attributes st \<longrightarrow> selected_provider_url r = None \<longrightarrow>
        selected_version r = None \<longrightarrow> e_fetch e (w_sent u) (get_request (rq_path rq) (rq_base rq)) = Some resp \<longrightarrow>
        rs_status resp = 200 \<longrightarrow> rs_body resp = body \<longrightarrow>
        (\<exists>fd. fst (lookup_policy r ps (pp_provider_url pp) () e u) = Inr (Inl fd) \<and> fd_document fd = rd))"
proof -
  let ?url = "pp_provider_url pp"
  obtain uid cache w1 acct w2 z w3 encDoc w4 body priv w5 sig w6 paySecret w7 rq0 w8 resp w9 where
    uid: "getUserIdCaching st ?url (ur_cache ur) e w = (Inr (uid, cache), w1)" and
    acct: "accountKeypairDerive uid e w1 = (Inr acct, w2)" and
    z: "compressRecoveryDoc rd e w2 = (Inr z, w3)" and
    enc: "encryptRecoveryDocument uid (encodeCrock z) e w3 = (Inr encDoc, w4)" and
    body: "decodeCrock encDoc = Inr body" and
    sig: "eddsaSign (sp_build (sp_put (nacl_hash body) (buildSigPS ANASTASIS_POLICY_UPLOAD))) priv = Inr sig" "w6 = w4" and
    pay: "policy_pay_secret st ?url e w6 = (Inr paySecret, w7)" and
    url: "io_url (''policy/'' @ acct_pub acct) ?url e w7 = (Inr rq0, w8)" and
    fetch: "io_fetch_ok (policy_request paySecret sig (nacl_hash body) body rq0) e w8 = (Inr resp, w9)" and
    answer: "policy_answer ?url resp (ur\<lparr>ur_cache := cache\<rparr>) e w9 = (Inr (Inr ur'), w')"
    using up unfolding upload_policy_def Let_def
    by (auto simp only: io_bind_Inr_iff io_js_Inr split_paired_Ex prod.case)
  have id: "w1 = w" "identity e st ?url uid" "cache_ok e st cache"
    using getUserIdCaching_identity [OF c uid] by auto
  have acct': "\<And>u. accountKeypairDerive uid e u = (Inr acct, u)" "w2 = w1"
    using steadyD [OF steady_keypair acct] by auto
  obtain z' body' w1' where rt: "compressRecoveryDoc rd e w = (Inr z', w)"
    "encryptRecoveryDocument uid (encodeCrock z') e w = (Inr (encodeCrock body'), w1')"
    and read: "\<And>url resp. rs_body resp = body' \<Longrightarrow>
      \<exists>fd. fd_document fd = rd \<and> (\<forall>u. read_policy url uid resp e u = (Inr fd, u))"
    using document_roundtrip [OF e identity_crock [OF id(2)], of rd w] by auto
  have b: "body' = body" "z' = z" "w3 = w"
    using rt z enc body id(1) acct'(2) by (auto simp: decodeCrock_encodeCrock)
  have ok: "e_url_ok e (rq_path rq0) (rq_base rq0)" "rq_path rq0 = ''policy/'' @ acct_pub acct" "rq_base rq0 = ?url"
    using url by (auto simp: io_url_def split: if_splits)
  let ?rq = "policy_request paySecret sig (nacl_hash body) body rq0"
  have rq: "rq_path ?rq = rq_path rq0" "rq_base ?rq = rq_base rq0" "rq_body ?rq = BytesBody body" "rq_method ?rq = ''POST''"
    by (simp_all add: policy_request_def pay_timeout_def)
  have "w_sent w' = w_sent w @ [?rq]"
    using policy_answer_Inr(1) [OF answer] io_fetch_ok_Inr [OF fetch] io_url_Inr [OF url] silent_parts(5,6,10,13)
      silent_parts pay sig enc id acct' b by auto
  moreover have "ur_cache ur' = cache"
    using answer unfolding policy_answer_def Let_def
    by (auto simp: io_bind_Inr_iff io_return_def split: if_splits option.splits)
  moreover obtain prov where prov: "provider_at st ?url = Inr prov"
    "\<And>w. userId_for (identity_attributes st) (provider_salt prov) e w = (Inr uid, w)"
    using id(2) by (auto simp: identity_def)
  moreover have "\<exists>fd. fst (lookup_policy r ps ?url () e u) = Inr (Inl fd) \<and> fd_document fd = rd"
    if r: "js_get ps ?url = Some info" "provider_salt info = provider_salt prov"
      "r_identity_attributes r = identity_attributes st" "selected_provider_url r = None" "selected_version r = None"
      "e_fetch e (w_sent u) (get_request (rq_path ?rq) (rq_base ?rq)) = Some resp'" "rs_status resp' = 200"
      "rs_body resp' = body" for r ps info u resp'
  proof -
    obtain fd where "\<And>u. read_policy ?url uid resp' e u = (Inr fd, u)" "fd_document fd = rd"
      using read [of resp' ?url] r(8) b(1) by auto
    then show ?thesis
      using r prov(2) acct'(1) ok
      by (simp add: lookup_policy_def truthy_def io_url_def version_query_def io_fetch_ok_def io_fetch_def get_request_def rq
          io_bind_def)
  qed
  ultimately show ?thesis
    using rq(3,4) id(3) by (intro exI [of _ ?rq] exI [of _ body] exI [of _ prov]) simp
qed

section \<open>An uploaded key share is found again\<close>

text \<open>
  The upload of a truth posts its encrypted key share; whoever gets it back under the same
  attributes, provider salt and, for a question, the same answer, has the key share.
\<close>

lemma upload_truth_share:
  assumes e: "random_ok e" and c: "cache_ok e st (pd_cache due)" and s: "share_of tm"
    and up: "upload_truth st (k, tm) due e w = (Inr (Inr due'), w')"
  shows "\<exists>rq m am encTruth share aslt uid. w_sent w' = w_sent w @ [rq]
    \<and> truth_member st tm = Inr m \<and> member_method st m = Inr am \<and> answer_salt am = Inr aslt
    \<and> rq_path rq = ''truth/'' @ tm_uuid tm \<and> rq_base rq = pm_provider m
    \<and> rq_body rq = TextBody (json_str (truth_upload_json encTruth (encodeCrock share) am))
    \<and> identity e st (pm_provider m) uid \<and> cache_ok e st (pd_cache due')
    \<and> decryptKeyShare (encodeCrock share) uid aslt = Inr (tm_key_share tm)"
proof -
  obtain m am tv w1 encTruth uid cache w2 aslt encShare w3 rq0 w4 resp w5 where
    m: "truth_member st tm = Inr m" "member_method st m = Inr am" and
    tv: "getTruthValue am (tm_uuid tm) (tm_truth_salt tm) e w = (Inr tv, w1)" and
    et: "encryptTruth (tm_nonce tm) (tm_truth_key tm) tv = Inr encTruth" and
    uid: "getUserIdCaching st (pm_provider m) (pd_cache due) e w1 = (Inr (uid, cache), w2)" and
    aslt: "answer_salt am = Inr aslt" and
    ks: "encryptKeyshare (tm_key_share tm) uid aslt e w2 = (Inr encShare, w3)" and
    url: "io_url (''truth/'' @ tm_uuid tm) (pm_provider m) e w3 = (Inr rq0, w4)" and
    fetch: "io_fetch_ok (truth_request (pm_provider m) (js_get (or_empty (truth_upload_payment_secrets st)) (pm_provider m))
        (truth_upload_json encTruth encShare am) rq0) e w4 = (Inr resp, w5)" and
    answer: "truth_answer (pm_provider m) resp (due\<lparr>pd_cache := cache\<rparr>) e w5 = (Inr (Inr due'), w')"
    using up unfolding upload_truth_def Let_def prod.case
    by (auto simp only: io_bind_Inr_iff io_js_Inr split_paired_Ex prod.case)
  have id: "w2 = w1" "identity e st (pm_provider m) uid" "cache_ok e st cache"
    using getUserIdCaching_identity [OF c uid] by auto
  obtain b where b: "tm_key_share tm = encodeCrock b" using s by (auto simp: share_of_def)
  obtain share where share: "encShare = encodeCrock share" "decryptKeyShare (encodeCrock share) uid aslt = Inr (tm_key_share tm)"
    using keyshare_roundtrip [OF e identity_crock [OF id(2)], of "tm_key_share tm" aslt w2] ks b by auto
  let ?rq = "truth_request (pm_provider m) (js_get (or_empty (truth_upload_payment_secrets st)) (pm_provider m))
        (truth_upload_json encTruth encShare am) rq0"
  have "rq_path ?rq = ''truth/'' @ tm_uuid tm" "rq_base ?rq = pm_provider m"
    "rq_body ?rq = TextBody (json_str (truth_upload_json encTruth encShare am))"
    using io_url_Inr [OF url] by (simp_all add: truth_request_def pay_timeout_def)
  moreover have "w_sent w' = w_sent w @ [?rq]"
    using truth_answer_Inr(1) [OF answer] io_fetch_ok_Inr [OF fetch] io_url_Inr [OF url] silent_parts(7,8)
      tv ks id(1) by auto
  moreover have "pd_cache due' = cache"
    using answer unfolding truth_answer_def Let_def
    by (auto simp: io_bind_Inr_iff io_return_def split: if_splits option.splits)
  ultimately show ?thesis
    using m aslt id share by (intro exI [of _ ?rq] exI [of _ m] exI [of _ am] exI [of _ encTruth] exI [of _ share]
        exI [of _ aslt] exI [of _ uid]) simp
qed

text \<open>The state in which the recovery tries the policies once a truth was solved.\<close>

definition with_share :: "escrow_method \<Rightarrow> string \<Rightarrow> recovery \<Rightarrow> recovery" where
  "with_share t ks r = (set_feedback (es_uuid t) Solved r)\<lparr>recovery_state := RChallengeSelecting,
     recovered_key_shares := Some (js_put (es_uuid t) ks (or_empty (recovered_key_shares r)))\<rparr>"

lemma truth_solved_share:
  assumes "share_salt t req = Inr aslt" "identity e st url uid" "provider_at st url = Inr prov"
    and "es_provider_salt t = provider_salt prov" "r_identity_attributes r = identity_attributes st"
    and "decryptKeyShare (encodeCrock (rs_body resp)) uid aslt = Inr ks"
  shows "truth_solved r t req resp e u = (map_sum id Recovery (tryRecoverSecret (with_share t ks r)), u)"
proof -
  have "userId_for (r_identity_attributes r) (es_provider_salt t) e u = (Inr uid, u)"
    using assms(2-5) by (auto simp: identity_def)
  then show ?thesis
    using assms(1,6)
    by (cases "tryRecoverSecret (with_share t ks r)")
      (simp_all add: truth_solved_def with_share_def)
qed

text \<open>
  Solving the last challenge of a policy: the answer of the provider with the key share that was
  uploaded finishes the recovery with the core secret of the backup.
\<close>

lemma last_share_recovers:
  assumes r: "recoverable rcd v" "\<forall>tm\<in>truths_in (rcd_truth_metadata rcd). share_of tm"
    and rd: "verbatim_recovery_document r = Some (rcd_recovery_document rcd)"
    and ks: "shares_agree (js_put (es_uuid t) ks (or_empty (recovered_key_shares r))) (truths_in (rcd_truth_metadata rcd))"
    and p: "p \<in> set (rd_policies (rcd_recovery_document rcd))"
      "\<forall>u\<in>set (dp_uuids p). u = es_uuid t \<or> js_get (or_empty (recovered_key_shares r)) u \<noteq> None"
    and t: "share_salt t req = Inr aslt" "identity e st url uid" "provider_at st url = Inr prov"
      "es_provider_salt t = provider_salt prov" "r_identity_attributes r = identity_attributes st"
    and resp: "rs_status resp = 200" "decryptKeyShare (encodeCrock (rs_body resp)) uid aslt = Inr ks"
  shows "\<exists>s. truth_response r t req resp e u = (Inr (Recovery s), u) \<and> recovery_state s = RRecoveryFinished
    \<and> r_core_secret s = Some v"
proof -
  let ?r = "with_share t ks r"
  have "recovered_key_shares ?r = Some (js_put (es_uuid t) ks (or_empty (recovered_key_shares r)))"
    "verbatim_recovery_document ?r = Some (rcd_recovery_document rcd)"
    using rd by (simp_all add: with_share_def set_feedback_def)
  with ks p have "tryRecoverSecret ?r = Inr (?r\<lparr>recovery_state := RRecoveryFinished, selected_challenge_uuid := None,
    r_core_secret := Some v\<rparr>)"
    by (intro tryRecoverSecret_finds [OF r]) (auto simp: or_empty_def js_get_put)
  then show ?thesis
    using truth_solved_share [OF t resp(2), of u] resp(1)
    by (simp add: truth_response_def HttpOk_def)
qed

section \<open>A provider that fails\<close>

text \<open>
  \<open>downloadPolicy\<close> keeps a provider whose configuration request was answered with another status
  than 200 and then uses the salt it does not have: when such a provider comes first, the
  exception ends the recovery, whatever the other providers store.
\<close>

lemma check_provider_total: "\<exists>info w'. check_provider u ps e w = (Inr (if has_error_code info \<or> provider_http_status info = None
    then ps else js_put u info ps), w') \<and> getProviderInfo u e w = (Inr info, w')"
  using getProviderInfo_total [of u e w] by (auto simp: check_provider_def)

lemma check_providers_total:
  "\<exists>ps' w'. io_fold check_provider us ps e w = (Inr ps', w') \<and> (\<forall>u. u \<notin> set us \<longrightarrow> js_get ps' u = js_get ps u)"
proof (induction us arbitrary: ps w)
  case (Cons v us)
  obtain q w1 where q: "check_provider v ps e w = (Inr q, w1)" "\<forall>u. u \<noteq> v \<longrightarrow> js_get q u = js_get ps u"
    using check_provider_total [of v ps e w] by (auto simp: js_get_put split: if_splits)
  obtain ps' w' where "io_fold check_provider us q e w1 = (Inr ps', w')" "\<forall>u. u \<notin> set us \<longrightarrow> js_get ps' u = js_get q u"
    using Cons.IH [of q w1] by blast
  with q show ?case by (intro exI [of _ ps'] exI [of _ w']) simp
qed (simp add: io_return_def)

lemma failed_provider_aborts:
  assumes us: "js_keys (or_empty (r_authentication_providers st)) = u # us" "u \<notin> set us"
    and resp: "e_url_ok e ''config'' u" "e_fetch e (w_sent w) (get_request ''config'' u) = Some resp" "rs_status resp \<noteq> 200"
    and st: "selected_provider_url st = None" "r_identity_attributes st = Some v" "canonicalJson v = Inr c"
  shows "fst (downloadPolicy st e w) = Inl TypeError"
proof -
  let ?w = "w\<lparr>w_sent := w_sent w @ [get_request ''config'' u]\<rparr>"
  let ?info = "CheckFailed REDUCER_NETWORK_FAILED ''unexpected status'' (Some (rs_status resp))"
  have "getProviderInfo u e w = (Inr ?info, ?w)"
    using resp by (simp add: getProviderInfo_def fetch_config_def io_catch_def io_bind_def io_url_def io_fetch_ok_def
        io_fetch_def io_return_def io_js_def provider_answer_def get_request_def)
  then have "check_provider u [] e w = (Inr [(u, ?info)], ?w)"
    by (simp add: check_provider_def has_error_code_def provider_http_status_def)
  moreover obtain ps w1 where ps: "io_fold check_provider us [(u, ?info)] e ?w = (Inr ps, w1)" "js_get ps u = Some ?info"
    using check_providers_total [of us "[(u, ?info)]" e ?w] us(2) by (auto simp: js_get_Cons)
  ultimately have "io_fold check_provider (u # us) [] e w = (Inr ps, w1)" by simp
  moreover have "io_loop (lookup_policy st ps) (u # us) () e w1 = (Inl TypeError, w1)"
    using ps(2) st by (simp add: lookup_policy_def truthy_def provider_salt_def userId_for_def)
  ultimately show ?thesis
    by (simp add: downloadPolicy_def us(1) Let_def)
qed

end
