(* ===== verification/BackupCompletes.thy ===== *)
theory BackupCompletes
  imports BackupRecovery
begin

text \<open>
  When an upload succeeds: with policies that refer to existing methods and known providers, and
  providers that store what they are sent, \<open>uploadSecret\<close> ends in the finished state.
\<close>

section \<open>What the upload needs\<close>

definition method_ready :: "auth_method \<Rightarrow> bool" where
  "method_ready am \<longleftrightarrow> am_type am \<in> {''question'', ''sms'', ''email'', ''totp'', ''iban''} \<and> crock_of (am_challenge am)"

definition provider_ready :: "env \<Rightarrow> backup \<Rightarrow> string \<Rightarrow> bool" where
  "provider_ready e st url \<longleftrightarrow> (\<exists>uid. identity e st url uid) \<and> (\<forall>p. e_url_ok e p url)"

definition member_ready :: "env \<Rightarrow> backup \<Rightarrow> policy_member \<Rightarrow> bool" where
  "member_ready e st m \<longleftrightarrow> (\<exists>am. member_method st m = Inr am \<and> method_ready am) \<and> provider_ready e st (pm_provider m)"

definition upload_ready :: "env \<Rightarrow> backup \<Rightarrow> bool" where
  "upload_ready e st \<longleftrightarrow> recovery_data st = None \<and> policy_payment_requests st = None
     \<and> (\<exists>pols. policies st = Some (map Some pols) \<and> (\<forall>pol\<in>set pols. \<forall>m\<in>set (pol_methods pol). member_ready e st m))
     \<and> (\<exists>pps. policy_providers st = Some pps \<and> (\<forall>pp\<in>set pps. provider_ready e st (pp_provider_url pp)))"

text \<open>Providers that store every upload.\<close>

definition storing :: "env \<Rightarrow> bool" where
  "storing e \<longleftrightarrow> (\<forall>log rq. rq_method rq = ''POST'' \<longrightarrow> exchange e log rq HttpNoContent)"

section \<open>Programs that return\<close>

lemma io_fold_total:
  assumes "I s" "\<And>x s w. x \<in> set xs \<Longrightarrow> I s \<Longrightarrow> \<exists>v w'. f x s e w = (Inr v, w') \<and> I v"
  shows "\<exists>v w'. io_fold f xs s e w = (Inr v, w') \<and> I v"
  using assms
proof (induction xs arbitrary: s w)
  case (Cons x xs)
  obtain v u where v: "f x s e w = (Inr v, u)" "I v"
    using Cons.prems(2) [of x s w] Cons.prems(1) by auto
  have "\<exists>t w'. io_fold f xs v e u = (Inr t, w') \<and> I t"
    by (rule Cons.IH [OF v(2)], rule Cons.prems(2)) simp_all
  with v show ?case by simp
qed (simp add: io_return_def)

lemma io_loop_total:
  assumes "I s" "\<And>x s w. x \<in> set xs \<Longrightarrow> I s \<Longrightarrow> \<exists>v w'. f x s e w = (Inr (Inr v), w') \<and> I v"
  shows "\<exists>v w'. io_loop f xs s e w = (Inr (Inr v), w') \<and> I v"
  using assms
proof (induction xs arbitrary: s w)
  case (Cons x xs)
  obtain v u where v: "f x s e w = (Inr (Inr v), u)" "I v"
    using Cons.prems(2) [of x s w] Cons.prems(1) by auto
  have "\<exists>t w'. io_loop f xs v e u = (Inr (Inr t), w') \<and> I t"
    by (rule Cons.IH [OF v(2)], rule Cons.prems(2)) simp_all
  with v show ?case by simp
qed (simp add: io_return_def)

lemma js_map_total: "(\<And>x. x \<in> set xs \<Longrightarrow> \<exists>y. f x = Inr y) \<Longrightarrow> \<exists>ys. js_map f xs = Inr ys"
proof (induction xs)
  case (Cons x xs)
  obtain y where "f x = Inr y" using Cons.prems [of x] by auto
  moreover obtain ys where "js_map f xs = Inr ys" using Cons by auto
  ultimately show ?case by simp
qed simp

section \<open>Preparing\<close>

definition truth_ready :: "env \<Rightarrow> backup \<Rightarrow> truth_metadata \<Rightarrow> bool" where
  "truth_ready e st tm \<longleftrightarrow> share_of tm \<and> nonce_str (tm_nonce tm) \<and> is_crock (tm_truth_key tm)
     \<and> is_crock (tm_truth_salt tm) \<and> is_crock (tm_uuid tm)
     \<and> (\<exists>m. truth_member st tm = Inr m \<and> member_ready e st m)"

definition truths_ready :: "env \<Rightarrow> backup \<Rightarrow> truth_metadata obj \<times> truth_metadata list \<Rightarrow> bool" where
  "truths_ready e st = (\<lambda>(tms, used). (\<forall>tm\<in>truths_in tms. truth_ready e st tm) \<and> (\<forall>tm\<in>set used. truth_ready e st tm))"

lemma new_truth_ready:
  assumes "random_ok e" "policies st = Some (map Some pols)" "i < length pols" "j < length (pol_methods (pols ! i))"
    and "member_ready e st (pol_methods (pols ! i) ! j)"
  shows "\<exists>tm w'. new_truth i j e w = (Inr tm, w') \<and> truth_ready e st tm"
  using assms
  by (simp add: new_truth_def truth_ready_def truth_member_def policy_at_def share_of_def nonce_str_def random_ok_def
      nonceSize_def) blast

lemma add_method_total:
  assumes "random_ok e" "policies st = Some (map Some pols)" "i < length pols"
    and "(j, m) \<in> set (enumerate 0 (pol_methods (pols ! i)))" "member_ready e st m" "truths_ready e st s"
  shows "\<exists>t w'. add_method i (j, m) s e w = (Inr t, w') \<and> truths_ready e st t"
proof -
  obtain tms used where s: "s = (tms, used)" by (cases s)
  show ?thesis
  proof (cases "js_get tms (truth_reference m)")
    case (Some tm)
    then have "truth_ready e st tm" using assms(6) js_get_truths [OF Some] by (auto simp: truths_ready_def s)
    with Some assms(6) show ?thesis by (auto simp: add_method_def truth_for_def truths_ready_def s)
  next
    case None
    have j: "j < length (pol_methods (pols ! i))" "m = pol_methods (pols ! i) ! j"
      using assms(4) by (simp_all add: in_set_enumerate_eq)
    obtain tm w' where "new_truth i j e w = (Inr tm, w')" "truth_ready e st tm"
      using new_truth_ready [OF assms(1-3) j(1), of w] assms(5) j(2) by blast
    with None assms(6) show ?thesis
      by (auto simp: add_method_def truth_for_def truths_ready_def s js_put_fresh)
  qed
qed

definition prepared_ready :: "env \<Rightarrow> backup \<Rightarrow> prepared \<Rightarrow> bool" where
  "prepared_ready e st pr \<longleftrightarrow> (\<forall>tm\<in>truths_in (pr_truths pr). truth_ready e st tm) \<and> (\<forall>k\<in>set (pr_keys pr). is_crock k)"

lemma prepare_policy_total:
  assumes e: "random_ok e" and p: "policies st = Some (map Some pols)" "(i, q) \<in> set (enumerate 0 (map Some pols))"
    and m: "\<forall>pol\<in>set pols. \<forall>m\<in>set (pol_methods pol). member_ready e st m" and r: "prepared_ready e st pr"
  shows "\<exists>pr' w'. prepare_policy (i, q) pr e w = (Inr pr', w') \<and> prepared_ready e st pr'"
proof -
  have i: "i < length pols" "q = Some (pols ! i)" using p(2) by (auto simp: in_set_enumerate_eq)
  let ?w = "w\<lparr>w_drawn := Suc (w_drawn w)\<rparr>"
  have "\<exists>t w'. io_fold (add_method i) (enumerate 0 (pol_methods (pols ! i))) (pr_truths pr, []) e ?w = (Inr t, w')
      \<and> truths_ready e st t"
  proof (rule io_fold_total)
    show "truths_ready e st (pr_truths pr, [])" using r by (simp add: truths_ready_def prepared_ready_def)
    show "\<exists>v w'. add_method i x s e u = (Inr v, w') \<and> truths_ready e st v"
      if x: "x \<in> set (enumerate 0 (pol_methods (pols ! i)))" "truths_ready e st s" for x s u
    proof -
      obtain j mm where jm: "x = (j, mm)" by (cases x)
      then have "mm \<in> set (pol_methods (pols ! i))"
        using x(1) by (auto simp: in_set_enumerate_eq)
      then have "member_ready e st mm"
        using m i(1) nth_mem by blast
      with add_method_total [OF e p(1) i(1) _ _ x(2), of j mm u] x(1) jm show ?thesis by simp
    qed
  qed
  then obtain tms used w' where t: "io_fold (add_method i) (enumerate 0 (pol_methods (pols ! i))) (pr_truths pr, []) e ?w
      = (Inr (tms, used), w')" "truths_ready e st (tms, used)" by auto
  have "\<forall>s\<in>set (map tm_key_share used). is_crock s"
    using t(2) by (auto simp: truths_ready_def truth_ready_def share_of_def)
  then obtain k where k: "policyKeyDerive (map tm_key_share used) (encodeCrock (e_random e (w_drawn w) 64)) = Inr k" "crock_of k"
    using policyKeyDerive_ok [OF _ crock_of_is_crock [OF crock_of_encode]] by blast
  with t i r show ?thesis
    by (auto simp: prepare_policy_def prepared_ready_def truths_ready_def)
qed

lemma make_escrow_total: "truth_ready e st tm \<Longrightarrow> \<exists>es. make_escrow st tm = Inr es"
  by (auto simp: truth_ready_def member_ready_def provider_ready_def identity_def make_escrow_def)

lemma prepareRecoveryData_total:
  assumes e: "random_ok e" and r: "upload_ready e st"
  shows "\<exists>rcd w'. prepareRecoveryData st e w = (Inr (st\<lparr>recovery_data := Some rcd\<rparr>), w')
    \<and> (\<forall>tm\<in>truths_in (rcd_truth_metadata rcd). truth_ready e st tm)"
proof -
  obtain pols where p: "policies st = Some (map Some pols)" "\<forall>pol\<in>set pols. \<forall>m\<in>set (pol_methods pol). member_ready e st m"
    using r by (auto simp: upload_ready_def)
  have "\<exists>pr w'. io_fold prepare_policy (enumerate 0 (map Some pols)) \<lparr>pr_truths = [], pr_keys = [], pr_salts = [], pr_uuids = []\<rparr> e w
      = (Inr pr, w') \<and> prepared_ready e st pr"
  proof (rule io_fold_total)
    show "\<exists>v w'. prepare_policy x s e u = (Inr v, w') \<and> prepared_ready e st v"
      if "x \<in> set (enumerate 0 (map Some pols))" "prepared_ready e st s" for x s u
      using prepare_policy_total [OF e p(1) _ p(2) that(2), of "fst x" "snd x" u] that(1) by simp
  qed (simp add: prepared_ready_def)
  then obtain pr w1 where pr: "io_fold prepare_policy (enumerate 0 (map Some pols))
      \<lparr>pr_truths = [], pr_keys = [], pr_salts = [], pr_uuids = []\<rparr> e w = (Inr pr, w1)" "prepared_ready e st pr"
    by blast
  obtain csr w2 where csr: "coreSecretEncrypt (pr_keys pr) (encodeCrock (json_bytes (core_secret_json (core_secret st)))) e w1
      = (Inr csr, w2)"
  proof -
    have "\<forall>pk\<in>set (pr_keys pr). is_crock pk" using pr(2) by (simp add: prepared_ready_def)
    from coreSecretEncrypt_ok [OF e this crock_of_encode] show thesis using that by blast
  qed
  have "\<exists>ems. js_map (\<lambda>(_, tm). make_escrow st tm) (pr_truths pr) = Inr ems"
  proof (rule js_map_total)
    show "\<exists>y. (case x of (_, tm) \<Rightarrow> make_escrow st tm) = Inr y" if x: "x \<in> set (pr_truths pr)" for x
      using pr(2) make_escrow_total [of e st "snd x"] x by (cases x) (auto simp: prepared_ready_def)
  qed
  then obtain ems where ems: "js_map (\<lambda>(_, tm). make_escrow st tm) (pr_truths pr) = Inr ems" ..
  have "\<forall>tm\<in>truths_in (pr_truths pr). truth_ready e st tm"
    using pr(2) by (simp add: prepared_ready_def)
  with p(1) pr(1) csr ems show ?thesis
    by (simp add: prepareRecoveryData_def Let_def) (rule exI, rule conjI [OF refl], simp)
qed

section \<open>Uploading\<close>

lemma getUserIdCaching_total:
  assumes "provider_ready e st url" "cache_ok e st c"
  shows "\<exists>uid c'. getUserIdCaching st url c e w = (Inr (uid, c'), w) \<and> cache_ok e st c' \<and> is_crock uid"
proof -
  obtain prov uid where p: "provider_at st url = Inr prov"
    "userId_for (identity_attributes st) (provider_salt prov) e w = (Inr uid, w)"
    using assms(1) by (auto simp: provider_ready_def identity_def)
  then have "\<exists>uid c'. getUserIdCaching st url c e w = (Inr (uid, c'), w)"
    by (auto simp: getUserIdCaching_def split: option.split list.split)
  then show ?thesis
    using getUserIdCaching_identity [OF assms(2)] identity_crock by blast
qed

lemma secureAnswerHash_total:
  assumes "is_crock u" "is_crock s"
  shows "\<exists>v. secureAnswerHash a u s e w = (Inr v, w) \<and> crock_of v"
proof -
  obtain ub sb where b: "decodeCrock u = Inr ub" "decodeCrock s = Inr sb" using assms by (auto simp: is_crock_def)
  obtain k where "kdfKw \<lparr>kdf_outputLength = 64, kdf_ikm = e_argon2id e (argon2_params (stringToBytes a) sb),
      kdf_salt = Some ub, kdf_info = Some (stringToBytes ''anastasis-secure-question-hashing'')\<rparr> = Inr k"
    using kdfKw_ok by blast
  with b show ?thesis by (simp add: secureAnswerHash_def)
qed

lemma getTruthValue_total:
  assumes "method_ready am" "is_crock u" "is_crock s"
  shows "\<exists>v. getTruthValue am u s e w = (Inr v, w) \<and> crock_of v"
proof (cases "am_type am = ''question''")
  case True
  obtain c where c: "am_challenge am = encodeCrock c" using assms(1) by (auto simp: method_ready_def crock_of_def)
  obtain v where "secureAnswerHash (bytesToString c) u s e w = (Inr v, w)" "crock_of v"
    using secureAnswerHash_total [OF assms(2,3)] by blast
  with True c show ?thesis by (simp add: getTruthValue_def asOpaque_def decodeCrock_encodeCrock)
next
  case False
  with assms show ?thesis by (auto simp: getTruthValue_def method_ready_def)
qed

lemma answer_salt_total: "method_ready am \<Longrightarrow> \<exists>a. answer_salt am = Inr a"
  by (auto simp: answer_salt_def method_ready_def crock_of_def decodeCrock_encodeCrock)

definition nothing_due :: "env \<Rightarrow> backup \<Rightarrow> payments_due \<Rightarrow> bool" where
  "nothing_due e st due \<longleftrightarrow> pd_uris due = [] \<and> cache_ok e st (pd_cache due)"

lemma storing_fetch:
  assumes "storing e" "rq_method rq = ''POST''"
  shows "\<exists>resp w'. io_fetch_ok rq e w = (Inr resp, w') \<and> rs_status resp = HttpNoContent"
  using assms by (auto simp: storing_def exchange_def io_fetch_ok_def io_fetch_def io_bind_def)

lemma upload_truth_total:
  assumes e: "random_ok e" "storing e" and t: "truth_ready e st tm" and d: "nothing_due e st due"
  shows "\<exists>due' w'. upload_truth st (k, tm) due e w = (Inr (Inr due'), w') \<and> nothing_due e st due'"
proof -
  obtain m am where m: "truth_member st tm = Inr m" "member_method st m = Inr am" "method_ready am"
    "provider_ready e st (pm_provider m)"
    using t by (auto simp: truth_ready_def member_ready_def)
  have tm: "is_crock (tm_uuid tm)" "is_crock (tm_truth_salt tm)" "nonce_str (tm_nonce tm)" "is_crock (tm_truth_key tm)"
    "crock_of (tm_key_share tm)"
    using t by (auto simp: truth_ready_def share_of_def)
  obtain tv where tv: "getTruthValue am (tm_uuid tm) (tm_truth_salt tm) e w = (Inr tv, w)" "crock_of tv"
    using getTruthValue_total [OF m(3) tm(1,2)] by blast
  obtain et where et: "encryptTruth (tm_nonce tm) (tm_truth_key tm) tv = Inr et"
    using anastasis_open_seal [OF tm(3,4) tv(2), of "''ect''"] by (auto simp: encryptTruth_def asOpaque_def)
  obtain uid c where uid: "getUserIdCaching st (pm_provider m) (pd_cache due) e w = (Inr (uid, c), w)" "cache_ok e st c" "is_crock uid"
    using getUserIdCaching_total [OF m(4)] d unfolding nothing_due_def by blast
  obtain aslt where a: "answer_salt am = Inr aslt" using answer_salt_total [OF m(3)] ..
  obtain eks w1 where ks: "encryptKeyshare (tm_key_share tm) uid aslt e w = (Inr eks, w1)"
    using keyshare_roundtrip [OF e(1) uid(3) tm(5)] by blast
  let ?rq = "truth_request (pm_provider m) (js_get (or_empty (truth_upload_payment_secrets st)) (pm_provider m))
    (truth_upload_json et eks am) (get_request (''truth/'' @ tm_uuid tm) (pm_provider m))"
  obtain resp w2 where f: "io_fetch_ok ?rq e w1 = (Inr resp, w2)" "rs_status resp = HttpNoContent"
    using storing_fetch [OF e(2), of ?rq w1] by (auto simp: truth_request_def)
  have url: "io_url (''truth/'' @ tm_uuid tm) (pm_provider m) e w1
      = (Inr (get_request (''truth/'' @ tm_uuid tm) (pm_provider m)), w1)"
    using m(4) by (simp add: io_url_def provider_ready_def get_request_def)
  have "upload_truth st (k, tm) due e w = (Inr (Inr (due\<lparr>pd_cache := c\<rparr>)), w2)"
    using m(1,2) tv(1) et uid(1) a ks url f by (simp add: upload_truth_def Let_def truth_answer_def)
  with d uid(2) show ?thesis by (simp add: nothing_due_def)
qed

lemma eddsaGetPublic_total: "length k = 32 \<Longrightarrow> \<exists>pk. eddsaGetPublic k = Inr pk"
  by (simp add: eddsaGetPublic_def crypto_sign_keyPair_fromSeed_def split: prod.split)

lemma eddsaSign_total: "length k = 32 \<Longrightarrow> \<exists>sig. eddsaSign m k = Inr sig"
  by (auto simp: eddsaSign_def crypto_sign_keyPair_fromSeed_def crypto_sign_keypair_def sign_detached_def nacl_sign_def Let_def
      length_ed_pack)

lemma accountKeypairDerive_total:
  assumes "is_crock uid"
  shows "\<exists>a p. accountKeypairDerive uid e w = (Inr a, w) \<and> decodeCrock (acct_priv a) = Inr p \<and> length p = 32"
proof -
  obtain u where u: "decodeCrock uid = Inr u" using assms by (auto simp: is_crock_def)
  obtain k where "kdfKw \<lparr>kdf_outputLength = 32, kdf_ikm = u, kdf_salt = None, kdf_info = Some (stringToBytes ''ver'')\<rparr> = Inr k"
    "length k = 32"
    using kdfKw_ok [of "\<lparr>kdf_outputLength = 32, kdf_ikm = u, kdf_salt = None, kdf_info = Some (stringToBytes ''ver'')\<rparr>"] by auto
  moreover obtain pk where "eddsaGetPublic k = Inr pk" using eddsaGetPublic_total [OF calculation(2)] ..
  ultimately show ?thesis using u by (simp add: accountKeypairDerive_def decodeCrock_encodeCrock)
qed

definition nothing_asked :: "env \<Rightarrow> backup \<Rightarrow> upload_result \<Rightarrow> bool" where
  "nothing_asked e st ur \<longleftrightarrow> ur_uris ur = [] \<and> cache_ok e st (ur_cache ur)"

lemma upload_policy_total:
  assumes e: "random_ok e" "storing e" "zlib_ok e" and pp: "provider_ready e st (pp_provider_url pp)"
    and st: "policy_payment_requests st = None" and n: "nothing_asked e st ur"
  shows "\<exists>ur' w'. upload_policy st rd pp ur e w = (Inr (Inr ur'), w') \<and> nothing_asked e st ur'"
proof -
  let ?url = "pp_provider_url pp"
  obtain uid c where uid: "getUserIdCaching st ?url (ur_cache ur) e w = (Inr (uid, c), w)" "cache_ok e st c" "is_crock uid"
    using getUserIdCaching_total [OF pp] n unfolding nothing_asked_def by blast
  obtain a p where a: "accountKeypairDerive uid e w = (Inr a, w)" "decodeCrock (acct_priv a) = Inr p" "length p = 32"
    using accountKeypairDerive_total [OF uid(3)] by blast
  obtain z b w1 where z: "compressRecoveryDoc rd e w = (Inr z, w)"
    "encryptRecoveryDocument uid (encodeCrock z) e w = (Inr (encodeCrock b), w1)"
    using document_roundtrip [OF e(1,3) uid(3)] by blast
  have pay: "policy_pay_secret st ?url e w1 = (Inr None, w1)"
    by (simp add: policy_pay_secret_def st truthy_def)
  let ?rq0 = "get_request (''policy/'' @ acct_pub a) ?url"
  have url: "io_url (''policy/'' @ acct_pub a) ?url e w1 = (Inr ?rq0, w1)"
    using pp by (simp add: io_url_def provider_ready_def get_request_def)
  obtain sig where sig: "eddsaSign (sp_build (sp_put (nacl_hash b) (buildSigPS ANASTASIS_POLICY_UPLOAD))) p = Inr sig"
    using eddsaSign_total [OF a(3)] by blast
  obtain resp w2 where f: "io_fetch_ok (policy_request None sig (nacl_hash b) b ?rq0) e w1 = (Inr resp, w2)"
    "rs_status resp = HttpNoContent"
    using storing_fetch [OF e(2), of "policy_request None sig (nacl_hash b) b ?rq0" w1] by (auto simp: policy_request_def)
  have "\<exists>ur'. upload_policy st rd pp ur e w = (Inr (Inr ur'), w2) \<and> ur_uris ur' = ur_uris ur \<and> ur_cache ur' = c"
    using uid(1) a z pay url f sig
    by (simp add: upload_policy_def Let_def policy_answer_def decodeCrock_encodeCrock)
  with n uid(2) show ?thesis by (auto simp: nothing_asked_def)
qed

text \<open>
  The upload ends: every truth and every policy document is stored, nothing is to be paid, and the
  backup is finished.
\<close>

lemma uploadSecret_completes:
  assumes e: "random_ok e" "storing e" "zlib_ok e" and r: "upload_ready e st"
  shows "\<exists>b w'. uploadSecret st e w = (Inr (Backup b), w') \<and> backup_state b = BBackupFinished"
proof -
  obtain rcd w1 where p: "prepareRecoveryData st e w = (Inr (st\<lparr>recovery_data := Some rcd\<rparr>), w1)"
    "\<forall>tm\<in>truths_in (rcd_truth_metadata rcd). truth_ready e st tm"
    using prepareRecoveryData_total [OF e(1) r] by blast
  let ?st = "st\<lparr>recovery_data := Some rcd\<rparr>"
  have same: "truth_ready e ?st = truth_ready e st" "provider_ready e ?st = provider_ready e st"
    by (simp_all add: fun_eq_iff truth_ready_def truth_member_def member_ready_def member_method_def provider_ready_def
        identity_def provider_at_def)
  have "\<exists>due w'. io_loop (upload_truth ?st) (rcd_truth_metadata rcd) \<lparr>pd_uris = [], pd_secrets = [], pd_cache = []\<rparr> e w1
      = (Inr (Inr due), w') \<and> nothing_due e ?st due"
  proof (rule io_loop_total)
    show "\<exists>v w'. upload_truth ?st x s e u = (Inr (Inr v), w') \<and> nothing_due e ?st v"
      if "x \<in> set (rcd_truth_metadata rcd)" "nothing_due e ?st s" for x s u
      using upload_truth_total [OF e(1,2) _ that(2), of "snd x" "fst x" u] p(2) that(1) by (simp add: same)
  qed (simp add: nothing_due_def)
  then obtain due w2 where t: "io_loop (upload_truth ?st) (rcd_truth_metadata rcd) \<lparr>pd_uris = [], pd_secrets = [], pd_cache = []\<rparr>
      e w1 = (Inr (Inr due), w2)" "nothing_due e ?st due" by blast
  obtain pps where pps: "policy_providers st = Some pps" "\<forall>pp\<in>set pps. provider_ready e st (pp_provider_url pp)"
    using r by (auto simp: upload_ready_def)
  have "\<exists>ur w'. io_loop (upload_policy ?st (rcd_recovery_document rcd)) pps
      \<lparr>ur_uris = [], ur_requests = [], ur_success = [], ur_cache = pd_cache due\<rparr> e w2 = (Inr (Inr ur), w') \<and> nothing_asked e ?st ur"
  proof (rule io_loop_total)
    show "\<exists>v w'. upload_policy ?st (rcd_recovery_document rcd) x s e u = (Inr (Inr v), w') \<and> nothing_asked e ?st v"
      if "x \<in> set pps" "nothing_asked e ?st s" for x s u
      using upload_policy_total [OF e _ _ that(2), of x] pps(2) that(1) r by (simp add: same upload_ready_def)
  qed (use t(2) in \<open>simp add: nothing_asked_def nothing_due_def\<close>)
  then obtain ur w3 where u: "io_loop (upload_policy ?st (rcd_recovery_document rcd)) pps
      \<lparr>ur_uris = [], ur_requests = [], ur_success = [], ur_cache = pd_cache due\<rparr> e w2 = (Inr (Inr ur), w3)"
    "nothing_asked e ?st ur" by blast
  have none: "recovery_data st = None" using r by (simp add: upload_ready_def)
  show ?thesis
    using p(1) t u pps(1) none
    by (simp add: uploadSecret_def upload_prepared_def upload_policies_def nothing_due_def nothing_asked_def)
qed

end
