(* ===== verification/Samples.thy ===== *)
theory Samples
  imports BackupCompletes
begin

text \<open>
  Concrete environments and states, at which the properties are instantiated: an environment that
  answers nothing, one whose providers store and return documents, and a backup that is ready to
  be uploaded.
\<close>

section \<open>Environments\<close>

text \<open>
  No server answers, the random bytes are zeros, \<open>argon2id\<close> returns zeros of the requested length,
  and zlib changes nothing.
\<close>

definition sample_env :: env where
  "sample_env = \<lparr>
     e_fetch = (\<lambda>_ _. None), e_url_ok = (\<lambda>_ _. True), e_base_url = Some, e_random = (\<lambda>_ n. replicate n 0),
     e_now = 0, e_argon2id = (\<lambda>o'. replicate (hashLength o') 0), e_zlib = (\<lambda>b. b), e_unzlib = Inr\<rparr>"

definition sample_world :: world where
  "sample_world = \<lparr>w_sent = [], w_drawn = 0\<rparr>"

lemma random_ok_sample: "random_ok sample_env"
  by (simp add: random_ok_def sample_env_def)

text \<open>A provider stores what is posted and returns, for a path, what was last posted there.\<close>

definition stored_body :: "http_request list \<Rightarrow> http_request \<Rightarrow> bytes" where
  "stored_body log rq =
     (case find (\<lambda>p. rq_method p = ''POST'' \<and> rq_path p = rq_path rq \<and> rq_base p = rq_base rq) (rev log) of
        Some p \<Rightarrow> (case rq_body p of BytesBody b \<Rightarrow> b | _ \<Rightarrow> [])
      | None \<Rightarrow> [])"

definition provider_env :: env where
  "provider_env = sample_env\<lparr>e_fetch := (\<lambda>log rq. Some
     (if rq_method rq = ''POST'' then \<lparr>rs_status = 204, rs_headers = [], rs_body = []\<rparr>
      else \<lparr>rs_status = 200, rs_headers = [], rs_body = stored_body log rq\<rparr>))\<rparr>"

lemma provider_env_ok: "random_ok provider_env" "zlib_ok provider_env" "storing provider_env"
  by (simp_all add: random_ok_def zlib_ok_def storing_def exchange_def provider_env_def sample_env_def HttpNoContent_def)

section \<open>A backup ready for its upload\<close>

definition sample_provider :: provider_status where
  "sample_provider = Checked \<lparr>annual_fee = Some ''EUR:1'', business_name = Some ''A'', po_currency = Some ''EUR'',
     liability_limit = Some ''EUR:10'', prov_methods = [\<lparr>ms_type = ''question'', ms_usage_fee = Some ''EUR:1''\<rparr>],
     prov_salt = Some (encodeCrock [1, 2, 3]), storage_limit_in_megabytes = Some 1, truth_upload_fee = Some ''EUR:1''\<rparr>"

definition sample_attributes :: jsval where
  "sample_attributes = JObj [(''full_name'', JStr ''Max Musterman'')]"

definition sample_backup :: backup where
  "sample_backup = empty_backup\<lparr>backup_state := BSecretEditing, identity_attributes := Some sample_attributes,
     authentication_providers := Some [(''https://a/'', sample_provider)],
     authentication_methods := Some [\<lparr>am_type = ''question'', am_instructions = ''q'',
        am_challenge = encodeCrock (stringToBytes ''red''), am_mime_type = None\<rparr>],
     policies := Some [Some \<lparr>pol_methods = [\<lparr>pm_authentication_method = 0, pm_provider = ''https://a/''\<rparr>]\<rparr>],
     policy_providers := Some [\<lparr>pp_provider_url = ''https://a/''\<rparr>],
     core_secret := Some \<lparr>cs_mime = ''text/plain'', cs_value = encodeCrock [7], cs_filename = None\<rparr>\<rparr>"

lemma identity_exists:
  assumes "provider_at st url = Inr prov" "provider_salt prov = Some s" "is_crock s"
    and "identity_attributes st = Some v" "canonicalJson v = Inr c"
  shows "\<exists>uid. identity e st url uid"
  using assms by (auto simp: identity_def userId_for_def userIdentifierDerive_def is_crock_def)

lemma sample_canonical: "\<exists>c. canonicalJson sample_attributes = Inr c"
  using canonicalJson_ok [of sample_attributes] by (auto simp: sample_attributes_def)

lemma provider_ready_sample: "provider_ready provider_env sample_backup ''https://a/''"
proof -
  obtain c where "canonicalJson sample_attributes = Inr c" using sample_canonical ..
  then have "\<exists>uid. identity provider_env sample_backup ''https://a/'' uid"
    by (intro identity_exists [where prov = sample_provider and s = "encodeCrock [1, 2, 3]"])
      (simp_all add: sample_backup_def provider_at_def js_get_Cons sample_provider_def provider_salt_def)
  then show ?thesis by (simp add: provider_ready_def provider_env_def sample_env_def)
qed

lemma upload_ready_sample: "upload_ready provider_env sample_backup"
proof -
  have "member_ready provider_env sample_backup \<lparr>pm_authentication_method = 0, pm_provider = ''https://a/''\<rparr>"
    using provider_ready_sample
    by (simp add: member_ready_def member_method_def method_ready_def sample_backup_def js_index_def)
  then have "\<forall>pol\<in>set [\<lparr>pol_methods = [\<lparr>pm_authentication_method = 0, pm_provider = ''https://a/''\<rparr>]\<rparr>].
      \<forall>m\<in>set (pol_methods pol). member_ready provider_env sample_backup m" by simp
  moreover have "policies sample_backup =
      Some (map Some [\<lparr>pol_methods = [\<lparr>pm_authentication_method = 0, pm_provider = ''https://a/''\<rparr>]\<rparr>])"
    by (simp add: sample_backup_def)
  ultimately show ?thesis
    using provider_ready_sample unfolding upload_ready_def
    by (intro conjI exI [of _ "[\<lparr>pol_methods = [\<lparr>pm_authentication_method = 0, pm_provider = ''https://a/''\<rparr>]\<rparr>]"]
        exI [of _ "[\<lparr>pp_provider_url = ''https://a/''\<rparr>]"])
      (simp_all add: sample_backup_def empty_backup_def)
qed

section \<open>The recovery data of the sample\<close>

definition sample_truth :: truth_metadata where
  "sample_truth = \<lparr>tm_uuid = encodeCrock (replicate 32 0), tm_key_share = encodeCrock (replicate 32 0), tm_policy_index = 0,
     tm_pol_method_index = 0, tm_nonce = encodeCrock (replicate 24 0), tm_truth_key = encodeCrock (replicate 64 0),
     tm_truth_salt = encodeCrock (replicate 16 0)\<rparr>"

lemma sample_new_truth: "\<exists>w'. new_truth 0 0 provider_env w = (Inr sample_truth, w')"
  by (simp add: new_truth_def provider_env_def sample_env_def sample_truth_def)

text \<open>One policy with one method gives one truth, whose share recovers the secret.\<close>

lemma sample_prepared:
  "\<exists>rcd p w'. prepareRecoveryData sample_backup provider_env sample_world = (Inr (sample_backup\<lparr>recovery_data := Some rcd\<rparr>), w')
    \<and> truths_in (rcd_truth_metadata rcd) = {sample_truth} \<and> p \<in> set (rd_policies (rcd_recovery_document rcd))
    \<and> set (dp_uuids p) \<subseteq> {tm_uuid sample_truth}
    \<and> recoverable rcd (core_secret_json (core_secret sample_backup)) \<and> share_of sample_truth"
proof -
  let ?e = provider_env and ?w = sample_world
  obtain rcd w' where rcd: "prepareRecoveryData sample_backup ?e ?w = (Inr (sample_backup\<lparr>recovery_data := Some rcd\<rparr>), w')"
    using prepareRecoveryData_total [OF provider_env_ok(1) upload_ready_sample] by blast
  have cs: "core_secret sample_backup = Some \<lparr>cs_mime = ''text/plain'', cs_value = encodeCrock [7], cs_filename = None\<rparr>"
    "length (the (policies sample_backup)) = 1"
    by (simp_all add: sample_backup_def)
  from prepareRecoveryData_recoverable [OF provider_env_ok(1) rcd cs(1)] cs(2)
  have r: "length (rd_policies (rcd_recovery_document rcd)) = 1" "recoverable rcd (core_secret_json (core_secret sample_backup))"
    by (auto simp: cs(1))
  let ?pol = "\<lparr>pol_methods = [\<lparr>pm_authentication_method = 0, pm_provider = ''https://a/''\<rparr>]\<rparr>"
  obtain w1 where nt: "new_truth 0 0 ?e (?w\<lparr>w_drawn := Suc (w_drawn ?w)\<rparr>) = (Inr sample_truth, w1)"
    using sample_new_truth by blast
  have pol: "policies sample_backup = Some [Some ?pol]" by (simp add: sample_backup_def)
  obtain pr w2 where pr: "prepare_policy (0, Some ?pol) \<lparr>pr_truths = [], pr_keys = [], pr_salts = [], pr_uuids = []\<rparr> ?e ?w = (Inr pr, w2)"
    "rcd_truth_metadata rcd = pr_truths pr"
    using rcd unfolding prepareRecoveryData_def Let_def pol
    by (auto simp: io_bind_Inr_iff io_js_Inr io_return_def dest!: arg_cong [where f = recovery_data])
  have "pr_truths pr = [(truth_reference \<lparr>pm_authentication_method = 0, pm_provider = ''https://a/''\<rparr>, sample_truth)]"
    using pr(1) nt
    by (auto simp: prepare_policy_def io_bind_Inr_iff io_js_Inr io_return_def add_method_def truth_for_def)
  then have tms: "truths_in (rcd_truth_metadata rcd) = {sample_truth}" using pr(2) by simp
  obtain p where p: "p \<in> set (rd_policies (rcd_recovery_document rcd))"
    using r(1) by (cases "rd_policies (rcd_recovery_document rcd)") auto
  then have "set (dp_uuids p) \<subseteq> {tm_uuid sample_truth}"
    using r(2) tms unfolding recoverable_def by (auto dest!: bspec)
  moreover have "share_of sample_truth"
    by (simp add: share_of_def sample_truth_def) (metis length_replicate)
  ultimately show ?thesis using rcd tms p r(2) by blast
qed

end
