(* ===== verification/PolyLimbs.thy ===== *)
theory PolyLimbs
  imports LittleEndian
begin

text \<open>
  The one-time authenticator of nacl-fast.ts against Poly1305: the specification (the polynomial in
  the clamped key over the blocks modulo \<open>2 ^ 130 - 5\<close>, plus the pad), the 13-bit limbs of a block,
  and one block's product with its partial carries, none of which wraps.
\<close>

section \<open>The specification\<close>

definition P1305 :: nat where "P1305 = 2 ^ 130 - 5"

definition clamp :: "nat \<Rightarrow> nat" where
  "clamp n = n AND 0x0ffffffc0ffffffc0ffffffc0fffffff"

fun blocks16 :: "bytes \<Rightarrow> bytes list" where
  "blocks16 m = (if m = [] then [] else take 16 m # blocks16 (drop 16 m))"

declare blocks16.simps [simp del]

definition absorb :: "nat \<Rightarrow> bytes \<Rightarrow> nat \<Rightarrow> nat" where
  "absorb r b acc = (acc + le_val (b @ [1])) * r mod P1305"

definition poly1305_spec :: "bytes \<Rightarrow> bytes \<Rightarrow> bytes" where
  "poly1305_spec m key = le_bytes 16
     (fold (absorb (clamp (le_val (take 16 key)))) (blocks16 m) 0 + le_val (take 16 (drop 16 key)))"

section \<open>Limbs\<close>

definition limb_val :: "nat list \<Rightarrow> nat" where
  "limb_val h = (\<Sum>i<10. h ! i * 2 ^ (13 * i))"

lemma upt10: "[0..<10] = [0, 1, 2, 3, 4, 5, 6, 7, 8, 9 :: nat]"
  by code_simp

lemma bit_byte: "bit (b :: 8 word) n \<Longrightarrow> n < 8"
  by (drule bit_imp_le_length) simp

lemma bit_load16:
  "2 * k + 1 < length m \<Longrightarrow> bit (load16 m (2 * k)) n \<longleftrightarrow> n < 16 \<and> bit (le_val m) (16 * k + n)"
proof -
  assume k: "2 * k + 1 < length m"
  have "(16 * k + n) div 8 = 2 * k + n div 8" "(16 * k + n) mod 8 = n mod 8" by presburger+
  moreover have "n div 8 = 0 \<and> n mod 8 = n" if "n < 8" using that by simp
  moreover have "n div 8 = 1 \<and> n mod 8 = n - 8" if "8 \<le> n" "n < 16" using that by presburger
  ultimately show ?thesis
    using k by (cases "n < 8"; cases "n < 16") (auto simp: load16_def bit_simps bit_le_val u8_def dest: bit_byte)
qed

lemma mask13: "(0x1fff :: 32 word) = mask 13" "(0x1fff :: 16 word) = mask 13"
  by (simp_all add: mask_eq_exp_minus_1)

definition limb :: "nat \<Rightarrow> nat \<Rightarrow> nat" where
  "limb n i = n div 2 ^ (13 * i) mod 2 ^ 13"

lemma limb_bit: "limb n i = take_bit 13 (drop_bit (13 * i) n)"
  by (simp add: limb_def take_bit_eq_mod drop_bit_eq_div)

lemma limb_less: "limb n i < 2 ^ 13"
  by (simp add: limb_def)

lemma unat_limb:
  assumes "\<And>n. bit (w :: 'a::len word) n \<longleftrightarrow> n < 13 \<and> bit T (13 * i + n)"
  shows "unat w = limb T i"
  by (rule bit_eqI) (simp add: limb_bit bit_simps assms)

lemma limb_val_limbs: "limb_val (map (limb n) [0..<10]) = n mod 2 ^ 130"
proof -
  have "limb_val (map (limb n) [0..<10]) = (\<Sum>i<10. n div (2 ^ 13) ^ i mod 2 ^ 13 * (2 ^ 13) ^ i)"
    by (simp add: limb_val_def limb_def power_mult)
  also have "\<dots> = n mod (2 ^ 13) ^ 10" by (rule digits_sum)
  finally show ?thesis by (simp flip: power_mult)
qed

lemma unat_poly_limbs:
  assumes "length m = 16"
  shows "map unat (poly_limbs 0 m) = map (limb (le_val m)) [0..<10]"
proof -
  let ?T = "le_val m"
  have T: "\<not> bit ?T n" if "128 \<le> n" for n
  proof -
    have "16 \<le> n div 8" using that by presburger
    then show ?thesis using assms by (simp add: bit_le_val)
  qed
  have t: "bit (load16 m 0) n \<longleftrightarrow> n < 16 \<and> bit ?T n" "bit (load16 m 2) n \<longleftrightarrow> n < 16 \<and> bit ?T (16 + n)"
    "bit (load16 m 4) n \<longleftrightarrow> n < 16 \<and> bit ?T (32 + n)" "bit (load16 m 6) n \<longleftrightarrow> n < 16 \<and> bit ?T (48 + n)"
    "bit (load16 m 8) n \<longleftrightarrow> n < 16 \<and> bit ?T (64 + n)" "bit (load16 m 10) n \<longleftrightarrow> n < 16 \<and> bit ?T (80 + n)"
    "bit (load16 m 12) n \<longleftrightarrow> n < 16 \<and> bit ?T (96 + n)" "bit (load16 m 14) n \<longleftrightarrow> n < 16 \<and> bit ?T (112 + n)" for n
    using bit_load16 [of 0 m n] bit_load16 [of 1 m n] bit_load16 [of 2 m n] bit_load16 [of 3 m n]
      bit_load16 [of 4 m n] bit_load16 [of 5 m n] bit_load16 [of 6 m n] bit_load16 [of 7 m n] assms by auto
  have two: "bit ((drop_bit a x OR push_bit (16 - a) y) AND mask 13) n \<longleftrightarrow> n < 13 \<and> bit ?T (k + a + n)"
    if "a \<le> 16" "3 \<le> a" "\<And>n. bit x n \<longleftrightarrow> n < 16 \<and> bit ?T (k + n)" "\<And>n. bit y n \<longleftrightarrow> n < 16 \<and> bit ?T (k + 16 + n)"
    for a k n and x y :: "32 word"
  proof (cases "a + n < 16")
    case True
    then have "\<not> 16 - a \<le> n" by simp
    with True show ?thesis using that(1,2) by (simp add: bit_simps that(3,4) add.assoc)
  next
    case False
    then have k: "k + a + n = k + 16 + (n - (16 - a))" using that(1) by simp
    have "n - (16 - a) < 16" if "n < 13" using that \<open>3 \<le> a\<close> by simp
    with False show ?thesis using that(1,2) unfolding k by (auto simp: bit_simps that(3,4))
  qed
  have one: "unat (load16 m 0 AND mask 13) = limb ?T 0"
    by (rule unat_limb) (auto simp: bit_simps t)
  have five: "unat (drop_bit 1 (load16 m 8) AND mask 13) = limb ?T 5"
    by (rule unat_limb) (auto simp: bit_simps t)
  have top: "n < 11" if "bit ?T (117 + n)" for n using T [of "117 + n"] that by (cases "n < 11") auto
  have last: "unat (drop_bit 5 (load16 m 14)) = limb ?T 9"
    by (rule unat_limb) (auto simp: bit_simps t dest: top)
  have mid: "unat ((drop_bit a x OR push_bit (16 - a) y) AND mask 13) = limb ?T i"
    if "a \<le> 16" "3 \<le> a" "13 * i = k + a" "\<And>n. bit x n \<longleftrightarrow> n < 16 \<and> bit ?T (k + n)"
      "\<And>n. bit y n \<longleftrightarrow> n < 16 \<and> bit ?T (k + 16 + n)" for a k i and x y :: "32 word"
    by (rule unat_limb) (simp only: two [OF that(1,2,4,5)] that(3))
  show ?thesis
    using one five last mid [of 13 1 0 "load16 m 0" "load16 m 2"] mid [of 10 2 16 "load16 m 2" "load16 m 4"]
      mid [of 7 3 32 "load16 m 4" "load16 m 6"] mid [of 4 4 48 "load16 m 6" "load16 m 8"]
      mid [of 14 6 64 "load16 m 8" "load16 m 10"] mid [of 11 7 80 "load16 m 10" "load16 m 12"]
      mid [of 8 8 96 "load16 m 12" "load16 m 14"]
    by (simp add: poly_limbs_def mask13 upt10 Let_def t)
qed

lemma length_poly_limbs [simp]: "length (poly_limbs hb m) = 10"
  by (simp add: poly_limbs_def Let_def)

text \<open>A full block has the bit \<open>2 ^ 128\<close> set, the padded last one carries it in its bytes.\<close>

lemma and_push_bit_zero: "\<not> bit (x :: 32 word) k \<Longrightarrow> x AND push_bit k 1 = 0"
  by (rule bit_word_eqI) (auto simp: bit_simps)

lemma unat_add_limb_bit:
  assumes "unat (x :: 32 word) < 2 ^ 11"
  shows "unat (x OR push_bit 11 1) = unat x + 2 ^ 11"
proof -
  have "\<not> bit x 11"
    using not_bit_above [OF assms, of 11] by (simp add: bit_unsigned_iff)
  then have "x AND push_bit 11 1 = 0" by (rule and_push_bit_zero)
  then have "x OR push_bit 11 1 = x + push_bit 11 1" by (rule disjunctive_add_eq_or [symmetric])
  moreover have "unat (x + 2048) = unat x + 2048"
    using assms by (simp add: unat_word_ariths)
  ultimately show ?thesis by simp
qed

lemma unat_poly_limbs_full:
  assumes "length m = 16"
  shows "map unat (poly_limbs (push_bit 11 1) m) = map (limb (le_val (m @ [1]))) [0..<10]"
proof -
  let ?T = "le_val m" and ?U = "le_val (m @ [1])"
  have less: "?T < 2 ^ 128" using le_val_less [of m] assms by (simp flip: power_mult)
  have U: "?U = ?T + 2 ^ 128" using assms by (simp add: le_val_append)
  have same: "limb ?U i = limb ?T i" if "i < 9" for i
  proof -
    have "(2 :: nat) ^ 128 = 2 ^ (13 * i) * (2 ^ 13 * 2 ^ (115 - 13 * i))"
      using that unfolding power_add [symmetric] by simp
    then show ?thesis
      unfolding limb_def U by (simp only: div_mod_above [OF zero_less_power] zero_less_numeral)
  qed
  have l9: "limb ?T 9 = ?T div 2 ^ 117" "?T div 2 ^ 117 < 2 ^ 11"
    using less by (simp_all add: limb_def less_mult_imp_div_less)
  have u9: "limb ?U 9 = limb ?T 9 + 2 ^ 11"
    using l9 less by (simp add: limb_def U)
  have p: "map unat (poly_limbs 0 m) = map (limb ?T) [0..<10]" by (rule unat_poly_limbs [OF assms])
  have hb: "poly_limbs (push_bit 11 1) m = (poly_limbs 0 m)[9 := poly_limbs 0 m ! 9 OR push_bit 11 1]"
    by (simp add: poly_limbs_def Let_def)
  have "unat (poly_limbs 0 m ! 9) = limb ?T 9"
    using arg_cong [OF p, of "\<lambda>l. l ! 9"] by (simp add: upt10)
  then have "map unat (poly_limbs (push_bit 11 1) m) = (map (limb ?T) [0..<10])[9 := limb ?U 9]"
    using l9 unat_add_limb_bit [of "poly_limbs 0 m ! 9"] unfolding hb by (simp add: map_update p u9)
  also have "\<dots> = map (limb ?U) [0..<10]"
    by (rule nth_equalityI) (auto simp: nth_list_update same)
  finally show ?thesis .
qed

section \<open>Rows of the product\<close>

lemma unat_fold_products:
  assumes "unat c + (\<Sum>j\<leftarrow>js. unat (a j) * unat (b j)) < 2 ^ 32"
  shows "unat (fold (\<lambda>j d. d + a j * b j) js c :: 32 word) = unat c + (\<Sum>j\<leftarrow>js. unat (a j) * unat (b j))"
  using assms
proof (induction js arbitrary: c)
  case (Cons j js)
  have "unat c + unat (a j) * unat (b j) < 2 ^ 32" using Cons.prems by simp
  then have "unat (c + a j * b j) = unat c + unat (a j) * unat (b j)"
    by (simp add: unat_word_ariths)
  with Cons show ?case by (simp add: add.assoc)
qed simp

lemma unat_mask13: "unat (d AND 0x1fff :: 32 word) = unat d mod 2 ^ 13"
  unfolding mask13 take_bit_eq_mask [symmetric] unsigned_take_bit_eq by (simp only: take_bit_eq_mod)

lemma unat_shift13: "unat (drop_bit 13 (d :: 32 word)) = unat d div 2 ^ 13"
  by (simp only: unat_drop_bit_eq) (simp only: drop_bit_eq_div)

definition coef :: "nat list \<Rightarrow> nat \<Rightarrow> nat \<Rightarrow> nat" where
  "coef r i j = (if j \<le> i then r ! (i - j) else 5 * r ! (10 + i - j))"

text \<open>The limbs between two blocks: below \<open>2 ^ 13\<close> but the second, which keeps a partial carry.\<close>

definition factor_ok :: "32 word list \<Rightarrow> bool" where
  "factor_ok r \<longleftrightarrow> length r = 10 \<and> (\<forall>j<10. unat (r ! j) < 2 ^ 13)"

definition summed_ok :: "32 word list \<Rightarrow> bool" where
  "summed_ok h \<longleftrightarrow> length h = 10 \<and> (\<forall>j<10. unat (h ! j) \<le> 17100)"

lemma unat_poly_coef:
  assumes "factor_ok r" "i < 10" "j < 10"
  shows "unat (poly_coef r i j) = coef (map unat r) i j" "coef (map unat r) i j \<le> 40955"
proof -
  have b: "unat (r ! k) \<le> 8191" if "k < 10" for k
    using assms(1) that by (auto simp: factor_ok_def)
  have u: "unat (5 * r ! k) = 5 * unat (r ! k)" if "k < 10" for k
    using b [OF that] by (simp add: unat_word_ariths)
  have l: "length r = 10" using assms(1) by (simp add: factor_ok_def)
  have k: "i - j < 10" "\<not> j \<le> i \<Longrightarrow> 10 + i - j < 10" using assms(2,3) by auto
  show "unat (poly_coef r i j) = coef (map unat r) i j"
    using u [of "10 + i - j"] k l by (auto simp: poly_coef_def coef_def)
  show "coef (map unat r) i j \<le> 40955"
    using b [of "i - j"] b [of "10 + i - j"] k l by (auto simp: coef_def)
qed

lemma sum_list_bound: "(\<And>j. j \<in> set js \<Longrightarrow> f j \<le> k) \<Longrightarrow> sum_list (map f js) \<le> length js * (k :: nat)"
proof (induction js)
  case (Cons j js)
  have "f j \<le> k" "sum_list (map f js) \<le> length js * k" using Cons by simp_all
  then show ?case by simp
qed simp

lemma split_carry: "x mod n + n * (y + x div n) = x + n * (y :: nat)"
  by (simp add: algebra_simps)

lemma poly_row_value:
  assumes r: "factor_ok r" and h: "summed_ok h" and i: "i < 10" and c: "unat c \<le> 2 ^ 20"
  shows "unat (fst (poly_row h r i c)) < 2 ^ 13" "unat (snd (poly_row h r i c)) \<le> 2 ^ 20"
    "unat (fst (poly_row h r i c)) + 2 ^ 13 * unat (snd (poly_row h r i c))
      = unat c + (\<Sum>j<10. unat (h ! j) * coef (map unat r) i j)"
proof -
  let ?p = "\<lambda>j. unat (h ! j) * unat (poly_coef r i j)"
  have p: "?p j \<le> 17100 * 40955" if "j < 10" for j
    using unat_poly_coef [OF r i that] h that by (intro mult_le_mono) (auto simp: summed_ok_def)
  have A: "(\<Sum>j\<leftarrow>[0..<5]. ?p j) \<le> 5 * (17100 * 40955)" and B: "(\<Sum>j\<leftarrow>[5..<10]. ?p j) \<le> 5 * (17100 * 40955)"
    using sum_list_bound [of "[0..<5]" ?p "17100 * 40955"] sum_list_bound [of "[5..<10]" ?p "17100 * 40955"] p
    by (simp_all only: set_upt atLeastLessThan_iff length_upt) simp_all
  let ?d1 = "fold (\<lambda>j d. d + h ! j * poly_coef r i j) [0..<5] c"
  have d1: "unat ?d1 = unat c + (\<Sum>j\<leftarrow>[0..<5]. ?p j)"
    using A c by (intro unat_fold_products) simp
  let ?d2 = "fold (\<lambda>j d. d + h ! j * poly_coef r i j) [5..<10] (?d1 AND 0x1fff)"
  have d2: "unat ?d2 = unat ?d1 mod 2 ^ 13 + (\<Sum>j\<leftarrow>[5..<10]. ?p j)"
    using B unat_mask13 [of ?d1] mod_less_divisor [of "2 ^ 13" "unat ?d1"] by (subst unat_fold_products) simp_all
  have row: "poly_row h r i c = (?d2 AND 0x1fff, drop_bit 13 ?d1 + drop_bit 13 ?d2)"
    by (simp add: poly_row_def Let_def)
  have b1: "unat ?d1 \<le> 3502710000" "unat ?d2 \<le> 3501700000"
    using d1 d2 A B c mod_less_divisor [of "2 ^ 13" "unat ?d1"] by simp_all
  then have q: "unat ?d1 div 2 ^ 13 \<le> 427576" "unat ?d2 div 2 ^ 13 \<le> 427454"
    using div_le_mono [OF b1(1), of "2 ^ 13"] div_le_mono [OF b1(2), of "2 ^ 13"] by simp_all
  have c': "unat (snd (poly_row h r i c)) = unat ?d1 div 2 ^ 13 + unat ?d2 div 2 ^ 13"
    unfolding row snd_conv using q by (subst unat_word_ariths) (simp add: unat_shift13)
  have f: "unat (fst (poly_row h r i c)) = unat ?d2 mod 2 ^ 13"
    unfolding row fst_conv unat_mask13 ..
  show "unat (fst (poly_row h r i c)) < 2 ^ 13"
    unfolding f by simp
  show "unat (snd (poly_row h r i c)) \<le> 2 ^ 20" unfolding c' using q by simp
  have "unat (fst (poly_row h r i c)) + 2 ^ 13 * unat (snd (poly_row h r i c)) = unat ?d2 + 2 ^ 13 * (unat ?d1 div 2 ^ 13)"
    unfolding c' f by (rule split_carry)
  also have "\<dots> = unat c + (\<Sum>j\<leftarrow>[0..<5]. ?p j) + (\<Sum>j\<leftarrow>[5..<10]. ?p j)"
    unfolding d2 d1 by simp
  also have "\<dots> = unat c + (\<Sum>j\<leftarrow>[0..<10]. ?p j)"
    using upt_add_eq_append [of 0 5 5] by (simp add: add.assoc)
  also have "(\<Sum>j\<leftarrow>[0..<10]. ?p j) = (\<Sum>j<10. unat (h ! j) * coef (map unat r) i j)"
    using unat_poly_coef(1) [OF r i] by (simp add: interv_sum_list_conv_sum_set_nat lessThan_atLeast0)
  finally show "unat (fst (poly_row h r i c)) + 2 ^ 13 * unat (snd (poly_row h r i c))
      = unat c + (\<Sum>j<10. unat (h ! j) * coef (map unat r) i j)" by simp
qed

fun hval :: "nat list \<Rightarrow> nat" where
  "hval [] = 0"
| "hval (x # xs) = x + 2 ^ 13 * hval xs"

lemma hval_sum: "hval xs = (\<Sum>i<length xs. xs ! i * 2 ^ (13 * i))"
proof (induction xs)
  case (Cons x xs)
  have "2 ^ 13 * hval xs = (\<Sum>i<length xs. xs ! i * 2 ^ (13 * Suc i))"
    by (simp only: Cons.IH sum_distrib_left) (simp add: power_add ac_simps)
  then show ?case by (simp only: hval.simps length_Cons sum.lessThan_Suc_shift) simp
qed simp

lemma limb_val_hval: "length h = 10 \<Longrightarrow> limb_val h = hval h"
  by (simp add: limb_val_def hval_sum)

lemma poly_rows_value:
  assumes r: "factor_ok r" and h: "summed_ok h"
    and "\<forall>i\<in>set is. i < 10" "unat c \<le> 2 ^ 20" "poly_rows h r is c = (ds, c')"
  shows "length ds = length is \<and> (\<forall>d\<in>set ds. unat d < 2 ^ 13) \<and> unat c' \<le> 2 ^ 20
    \<and> hval (map unat ds) + 2 ^ (13 * length is) * unat c'
        = unat c + hval (map (\<lambda>i. \<Sum>j<10. unat (h ! j) * coef (map unat r) i j) is)"
  using assms(3-)
proof (induction "is" arbitrary: c ds)
  case (Cons i "is")
  obtain d c1 where row: "poly_row h r i c = (d, c1)" by (cases "poly_row h r i c")
  obtain es where es: "poly_rows h r is c1 = (es, c')" "ds = d # es"
    using Cons.prems(3) row by (auto split: prod.splits)
  have i: "i < 10" using Cons.prems(1) by simp
  note v = poly_row_value [OF r h i Cons.prems(2), unfolded row fst_conv snd_conv]
  have IH: "length es = length is \<and> (\<forall>d\<in>set es. unat d < 2 ^ 13) \<and> unat c' \<le> 2 ^ 20
    \<and> hval (map unat es) + 2 ^ (13 * length is) * unat c'
        = unat c1 + hval (map (\<lambda>i. \<Sum>j<10. unat (h ! j) * coef (map unat r) i j) is)"
    using Cons.prems(1) by (intro Cons.IH v(2) es(1)) simp
  let ?S = "\<Sum>j<10. unat (h ! j) * coef (map unat r) i j"
  have "hval (map unat ds) + 2 ^ (13 * length (i # is)) * unat c'
      = unat d + 2 ^ 13 * (hval (map unat es) + 2 ^ (13 * length is) * unat c')"
    by (simp add: es(2) power_add algebra_simps)
  also have "\<dots> = unat d + 2 ^ 13 * unat c1 + 2 ^ 13 * hval (map (\<lambda>i. \<Sum>j<10. unat (h ! j) * coef (map unat r) i j) is)"
    using IH by (simp add: algebra_simps)
  also have "\<dots> = unat c + hval (map (\<lambda>i. \<Sum>j<10. unat (h ! j) * coef (map unat r) i j) (i # is))"
    using v(3) by simp
  finally show ?case using IH v(1) es(2) by simp
qed simp

text \<open>Multiplying by \<open>2 ^ (13 * j)\<close> rotates the limbs, those past the end come back five-fold.\<close>

lemma coef_rotates:
  assumes "length R = 10" "j < 10"
  shows "\<exists>q. 2 ^ (13 * j) * hval R = hval (map (\<lambda>i. coef R i j) [0..<10]) + q * P1305"
proof -
  obtain r0 r1 r2 r3 r4 r5 r6 r7 r8 r9 where R: "R = [r0, r1, r2, r3, r4, r5, r6, r7, r8, r9]"
    using assms(1) by (auto simp: numeral_eq_Suc length_Suc_conv)
  let ?q = "hval (drop (10 - j) R)"
  have "j \<in> {0, 1, 2, 3, 4, 5, 6, 7, 8, 9}" using assms(2) by auto
  then have "2 ^ (13 * j) * hval R = hval (map (\<lambda>i. coef R i j) [0..<10]) + ?q * P1305"
    unfolding R upt10 P1305_def
    by (elim insertE) (simp_all add: coef_def algebra_simps)
  then show ?thesis ..
qed

lemma hval_map_upt: "hval (map f [0..<n]) = (\<Sum>i<n. f i * 2 ^ (13 * i))"
  by (simp add: hval_sum)

lemma mod_add_mult: "(x + q * m) mod m = x mod (m :: nat)"
  by simp

lemma product_rows:
  assumes "length H = 10" "length R = 10"
  shows "hval (map (\<lambda>i. \<Sum>j<10. H ! j * coef R i j) [0..<10]) mod P1305 = hval H * hval R mod P1305"
proof -
  have "\<forall>j. \<exists>q. j < 10 \<longrightarrow> 2 ^ (13 * j) * hval R = hval (map (\<lambda>i. coef R i j) [0..<10]) + q * P1305"
    using coef_rotates [OF assms(2)] by auto
  then obtain q where q: "\<And>j. j < 10 \<Longrightarrow> 2 ^ (13 * j) * hval R = hval (map (\<lambda>i. coef R i j) [0..<10]) + q j * P1305"
    by metis
  have "hval H * hval R = (\<Sum>j<10. H ! j * (2 ^ (13 * j) * hval R))"
    by (simp only: hval_sum [of H] assms(1) sum_distrib_right mult.assoc)
  also have "\<dots> = (\<Sum>j<10. H ! j * hval (map (\<lambda>i. coef R i j) [0..<10]) + H ! j * q j * P1305)"
    by (rule sum.cong) (simp_all only: lessThan_iff q distrib_left mult.assoc)
  also have "\<dots> = (\<Sum>j<10. H ! j * hval (map (\<lambda>i. coef R i j) [0..<10])) + (\<Sum>j<10. H ! j * q j) * P1305"
    by (simp only: sum.distrib sum_distrib_right)
  also have "(\<Sum>j<10. H ! j * hval (map (\<lambda>i. coef R i j) [0..<10]))
      = (\<Sum>j<10. \<Sum>i<10. H ! j * coef R i j * 2 ^ (13 * i))"
    by (simp only: hval_map_upt sum_distrib_left mult.assoc)
  also have "\<dots> = (\<Sum>i<10. \<Sum>j<10. H ! j * coef R i j * 2 ^ (13 * i))" by (rule sum.swap)
  also have "\<dots> = hval (map (\<lambda>i. \<Sum>j<10. H ! j * coef R i j) [0..<10])"
    by (simp only: hval_map_upt sum_distrib_right)
  finally show ?thesis by (simp only: mod_add_mult)
qed

section \<open>One block\<close>

definition acc_ok :: "32 word list \<Rightarrow> bool" where
  "acc_ok h \<longleftrightarrow> length h = 10 \<and> (\<forall>j<10. unat (h ! j) < 2 ^ 13 + (if j = 1 then 700 else 0))"

abbreviation uval :: "32 word list \<Rightarrow> nat" where
  "uval h \<equiv> hval (map unat h)"

lemma hval_map2: "length a = length b \<Longrightarrow> hval (map2 (+) a b) = hval a + hval b"
  by (induction a b rule: list_induct2) (simp_all add: algebra_simps)

lemma add_limbs:
  assumes h: "acc_ok h" and l: "map unat l = map (limb N) [0..<10]" and N: "N < 2 ^ 130"
  shows "summed_ok (map2 (+) h l)" "uval (map2 (+) h l) = uval h + N"
proof -
  have len: "length h = 10" "length l = 10"
    using h arg_cong [OF l, of length] by (simp_all add: acc_ok_def)
  have u: "unat (l ! j) = limb N j" if "j < 10" for j
    using arg_cong [OF l, of "\<lambda>xs. xs ! j"] that len by simp
  have s: "unat (h ! j + l ! j) = unat (h ! j) + limb N j" "unat (h ! j) + limb N j \<le> 17091" if "j < 10" for j
  proof -
    have "unat (h ! j) < 2 ^ 13 + 700" "limb N j < 2 ^ 13"
      using h that limb_less by (auto simp: acc_ok_def split: if_splits)
    then show "unat (h ! j + l ! j) = unat (h ! j) + limb N j" "unat (h ! j) + limb N j \<le> 17091"
      using u [OF that] by (simp_all add: unat_word_ariths)
  qed
  then show "summed_ok (map2 (+) h l)" using len by (fastforce simp: summed_ok_def)
  have "map unat (map2 (+) h l) = map2 (+) (map unat h) (map (limb N) [0..<10])"
    by (rule nth_equalityI) (simp_all add: len s)
  moreover have "hval (map (limb N) [0..<10]) = N"
    using limb_val_limbs [of N] N by (simp add: limb_val_hval)
  ultimately show "uval (map2 (+) h l) = uval h + N"
    using len by (simp add: hval_map2)
qed

lemma pow130: "2 ^ 130 = P1305 + 5"
  by (simp add: P1305_def)

lemma acc_okI:
  assumes "length es = 8" "unat d0 < 2 ^ 13" "unat d1 < 2 ^ 13 + 700" "\<forall>e\<in>set es. unat e < 2 ^ 13"
  shows "acc_ok (d0 # d1 # es)"
  unfolding acc_ok_def
proof (intro conjI allI impI)
  fix j :: nat assume "j < 10"
  moreover have "unat (es ! k) < 2 ^ 13" if "k < 8" for k
    using assms(1,4) that by (simp only: nth_mem)
  ultimately show "unat ((d0 # d1 # es) ! j) < 2 ^ 13 + (if j = 1 then 700 else 0)"
    using assms(2,3) by (cases j; cases "j - 1") (auto simp: nth_Cons split: nat.splits)
qed (simp add: assms(1))

lemma fold_back:
  assumes len: "length ds = 10" and d: "\<forall>d\<in>set ds. unat d < 2 ^ 13" and c: "unat c \<le> 2 ^ 20"
  defines "x \<equiv> push_bit 2 c + c + ds ! 0"
  shows "acc_ok (ds[0 := x AND 0x1fff, 1 := ds[0 := x AND 0x1fff] ! 1 + drop_bit 13 x])"
    "uval (ds[0 := x AND 0x1fff, 1 := ds[0 := x AND 0x1fff] ! 1 + drop_bit 13 x]) = uval ds + 5 * unat c"
proof -
  obtain d0 d1 es where ds: "ds = d0 # d1 # es" "length es = 8"
    using len by (auto simp: numeral_eq_Suc length_Suc_conv)
  have b: "unat d0 < 2 ^ 13" "unat d1 < 2 ^ 13" "\<forall>e\<in>set es. unat e < 2 ^ 13" using d ds by auto
  have "unat (push_bit 2 c) = 4 * unat c"
    using c by (simp add: push_bit_eq_mult unat_word_ariths)
  then have x: "unat x = 5 * unat c + unat d0"
    using c b(1) by (simp add: x_def ds unat_word_ariths)
  then have q: "unat x div 2 ^ 13 \<le> 641"
    using c b(1) div_le_mono [of "unat x" 5251070 "2 ^ 13"] by simp
  have d1: "unat (d1 + drop_bit 13 x) = unat d1 + unat x div 2 ^ 13"
    using q b(2) by (simp add: unat_word_ariths unat_shift13)
  have l: "ds[0 := x AND 0x1fff, 1 := ds[0 := x AND 0x1fff] ! 1 + drop_bit 13 x] = (x AND 0x1fff) # (d1 + drop_bit 13 x) # es"
    by (simp add: ds)
  have m: "unat (x AND 0x1fff) < 2 ^ 13" by (simp only: unat_mask13 mod_less_divisor zero_less_power zero_less_numeral)
  have "acc_ok ((x AND 0x1fff) # (d1 + drop_bit 13 x) # es)"
    by (rule acc_okI [OF ds(2) m _ b(3)]) (use d1 q b(2) in simp)
  then show "acc_ok (ds[0 := x AND 0x1fff, 1 := ds[0 := x AND 0x1fff] ! 1 + drop_bit 13 x])"
    unfolding l .
  show "uval (ds[0 := x AND 0x1fff, 1 := ds[0 := x AND 0x1fff] ! 1 + drop_bit 13 x]) = uval ds + 5 * unat c"
    unfolding l using d1 x by (simp add: ds unat_mask13 [simplified])
qed

lemma poly_step_value:
  assumes h: "acc_ok h" and r: "factor_ok r" and l: "map unat (poly_limbs hb m) = map (limb N) [0..<10]" and N: "N < 2 ^ 130"
  shows "acc_ok (poly_step hb r m h)"
    "uval (poly_step hb r m h) mod P1305 = (uval h + N) * uval r mod P1305"
proof -
  let ?h = "map2 (+) h (poly_limbs hb m)"
  note a = add_limbs [OF h l N]
  obtain ds c where rows: "poly_rows ?h r [0..<10] 0 = (ds, c)" by (cases "poly_rows ?h r [0..<10] 0")
  let ?S = "\<lambda>i. \<Sum>j<10. unat (?h ! j) * coef (map unat r) i j"
  have v: "length ds = 10" "\<forall>d\<in>set ds. unat d < 2 ^ 13" "unat c \<le> 2 ^ 20"
    "uval ds + 2 ^ 130 * unat c = hval (map ?S [0..<10])"
    using poly_rows_value [OF r a(1) _ _ rows] by auto
  have step: "poly_step hb r m h = (let x = push_bit 2 c + c + ds ! 0 in
      ds[0 := x AND 0x1fff, 1 := ds[0 := x AND 0x1fff] ! 1 + drop_bit 13 x])"
    by (simp only: poly_step_def Let_def rows prod.case)
  note fb = fold_back [OF v(1-3)]
  show "acc_ok (poly_step hb r m h)" unfolding step Let_def by (rule fb(1))
  have len: "length ?h = 10" "length r = 10" "length h = 10"
    using a(1) r h by (simp_all add: summed_ok_def factor_ok_def acc_ok_def)
  have "uval (poly_step hb r m h) mod P1305 = (uval ds + 5 * unat c) mod P1305"
    unfolding step Let_def fb(2) ..
  also have "\<dots> = (uval ds + 5 * unat c + unat c * P1305) mod P1305" by (simp only: mod_add_mult)
  also have "uval ds + 5 * unat c + unat c * P1305 = uval ds + 2 ^ 130 * unat c"
    by (simp only: pow130 distrib_right mult.commute [of "unat c"])
  also have "\<dots> = hval (map (\<lambda>i. \<Sum>j<10. map unat ?h ! j * coef (map unat r) i j) [0..<10])"
    unfolding v(4) using len by (intro arg_cong [where f = hval] map_cong refl sum.cong) simp_all
  also have "\<dots> mod P1305 = uval ?h * uval r mod P1305"
    by (rule product_rows) (simp_all add: len)
  finally show "uval (poly_step hb r m h) mod P1305 = (uval h + N) * uval r mod P1305"
    unfolding a(2) .
qed

end
