(* ===== verification/Poly1305.thy ===== *)
theory Poly1305
  imports PolyLimbs
begin

text \<open>
  All blocks of a message, the clamped key, the padded last block, the carries and the conditional
  subtraction of \<open>finish\<close>: \<open>crypto_onetimeauth\<close> is the Poly1305 of the message, for every key of at
  least 32 bytes (\<open>crypto_onetimeauth_spec\<close>).
\<close>

section \<open>All blocks\<close>

lemma absorb_mod: "absorb r b (x mod P1305) = absorb r b x"
  unfolding absorb_def by (metis mod_add_left_eq mod_mult_left_eq)

lemma fold_absorb_mod: "fold (absorb r) bs (x mod P1305) mod P1305 = fold (absorb r) bs x mod P1305"
  by (cases bs) (simp_all add: absorb_mod)

lemma le_val_block: "length b \<le> 16 \<Longrightarrow> le_val (b @ [1]) < 2 ^ 130"
proof -
  assume "length b \<le> 16"
  then have "(256 :: nat) ^ length (b @ [1 :: 8 word]) \<le> 256 ^ 17" by (intro power_increasing) simp_all
  then have "(256 :: nat) ^ length (b @ [1 :: 8 word]) \<le> 2 ^ 136" by simp
  moreover have "le_val (b @ [1]) = le_val b + 256 ^ length b" by (simp add: le_val_append)
  moreover have "(256 :: nat) ^ length b \<le> 256 ^ 16" using \<open>length b \<le> 16\<close> by (intro power_increasing) simp_all
  ultimately show ?thesis using le_val_less [of b] by simp
qed

lemma poly_loop_value:
  assumes "factor_ok r" "acc_ok h" "16 dvd length m"
  shows "acc_ok (poly_loop (push_bit 11 1) r m h)
    \<and> uval (poly_loop (push_bit 11 1) r m h) mod P1305 = fold (absorb (uval r)) (blocks16 m) (uval h) mod P1305"
  using assms(2,3)
proof (induction "length m" arbitrary: m h rule: less_induct)
  case less
  show ?case
  proof (cases "16 \<le> length m")
    case False
    with less.prems(2) have "m = []" by (auto dest: dvd_imp_le)
    with less.prems(1) show ?thesis by (simp add: poly_loop.simps blocks16.simps)
  next
    case True
    let ?b = "take 16 m" and ?h = "poly_step (push_bit 11 1) r (take 16 m) h"
    have b: "length ?b = 16" "m \<noteq> []" using True by auto
    note st = poly_step_value [OF less.prems(1) assms(1) unat_poly_limbs_full [OF b(1)] le_val_block]
    have h: "acc_ok ?h" "uval ?h mod P1305 = absorb (uval r) ?b (uval h)"
      unfolding absorb_def using st b(1) by simp_all
    have IH: "acc_ok (poly_loop (push_bit 11 1) r (drop 16 m) ?h)
      \<and> uval (poly_loop (push_bit 11 1) r (drop 16 m) ?h) mod P1305
        = fold (absorb (uval r)) (blocks16 (drop 16 m)) (uval ?h) mod P1305"
      using True less.prems(2) by (intro less.hyps h(1)) (simp_all add: dvd_diff_nat)
    have "fold (absorb (uval r)) (blocks16 (drop 16 m)) (uval ?h) mod P1305
        = fold (absorb (uval r)) (blocks16 (drop 16 m)) (absorb (uval r) ?b (uval h)) mod P1305"
      unfolding h(2) [symmetric] fold_absorb_mod ..
    with IH True b(2) show ?thesis by (simp add: poly_loop.simps [of _ r m] blocks16.simps [of m])
  qed
qed

section \<open>The key\<close>

lemma limb_and: "limb (a AND b) i = limb a i AND limb b i"
  by (rule bit_eqI) (auto simp: limb_bit bit_simps)

lemma clamp_limbs: "map (limb 0x0ffffffc0ffffffc0ffffffc0fffffff) [0..<10]
    = [0x1fff, 0x1fff, 0x1f03, 0x1fff, 0x00ff, 0x1ffe, 0x1fff, 0x1f81, 0x1fff, 0x007f]"
  by (simp add: limb_def upt10)

lemma load16_take: "2 * i + 1 < k \<Longrightarrow> load16 (take k b) (2 * i) = load16 b (2 * i)"
  by (simp add: load16_def u8_def)

lemma and_and: "x AND 0x1fff AND 0x1f03 = x AND 0x1f03" "x AND 0x1fff AND 0x00ff = x AND 0x00ff"
  "x AND 0x1fff AND 0x1ffe = x AND 0x1ffe" "x AND 0x1fff AND 0x1f81 = x AND 0x1f81" for x :: "32 word"
  by (simp_all add: and.assoc)

lemma p_r_limbs:
  "p_r (poly1305_new key) = map ucast (map2 (AND) (poly_limbs 0 (take 16 key))
    [0x1fff, 0x1fff, 0x1f03, 0x1fff, 0x00ff, 0x1ffe, 0x1fff, 0x1f81, 0x1fff, 0x007f])"
proof -
  have "load16 (take 16 key) i = load16 key i" if "i \<in> {0, 2, 4, 6, 8, 10, 12, 14}" for i
    using that by (auto simp: load16_def u8_def)
  then show ?thesis
    by (simp add: poly1305_new_def poly_limbs_def Let_def and.assoc)
qed

lemma unat_ucast16: "unat (x :: 32 word) < 2 ^ 16 \<Longrightarrow> unat (ucast x :: 16 word) = unat x"
  by (simp add: unsigned_ucast_eq take_bit_nat_eq_self)

lemma unat_ucast32: "unat (ucast (x :: 16 word) :: 32 word) = unat x"
  by (simp add: unsigned_ucast_eq take_bit_nat_eq_self unsigned_less [of x, THEN less_trans])

lemma p_r_value:
  assumes "16 \<le> length key"
  shows "map unat (p_r (poly1305_new key)) = map (limb (clamp (le_val (take 16 key)))) [0..<10]"
proof -
  let ?l = "poly_limbs 0 (take 16 key)"
  let ?m = "[0x1fff, 0x1fff, 0x1f03, 0x1fff, 0x00ff, 0x1ffe, 0x1fff, 0x1f81, 0x1fff, 0x007f] :: 32 word list"
  have l: "map unat ?l = map (limb (le_val (take 16 key))) [0..<10]"
    by (rule unat_poly_limbs) (use assms in simp)
  have m: "map unat ?m = map (limb 0x0ffffffc0ffffffc0ffffffc0fffffff) [0..<10]"
    unfolding clamp_limbs by simp
  have nth: "unat (?l ! j) = limb (le_val (take 16 key)) j"
    "unat (?m ! j) = limb 0x0ffffffc0ffffffc0ffffffc0fffffff j" if "j < 10" for j
    using arg_cong [OF l, of "\<lambda>xs. xs ! j"] arg_cong [OF m, of "\<lambda>xs. xs ! j"] that
    by (simp_all only: length_map length_poly_limbs nth_map list.size length_upt nth_upt) simp_all
  have v: "unat (?l ! j AND ?m ! j) = limb (clamp (le_val (take 16 key))) j" if "j < 10" for j
    unfolding unsigned_and_eq nth [OF that] clamp_def limb_and ..
  show ?thesis
    unfolding p_r_limbs
  proof (rule nth_equalityI)
    fix j assume "j < length (map unat (map ucast (map2 (AND) ?l ?m) :: 16 word list))"
    then have j: "j < 10" by simp
    have "unat (?l ! j AND ?m ! j) < 2 ^ 16"
      unfolding v [OF j] using limb_less [of "clamp (le_val (take 16 key))" j] by simp
    then show "map unat (map ucast (map2 (AND) ?l ?m) :: 16 word list) ! j
        = map (limb (clamp (le_val (take 16 key)))) [0..<10] ! j"
      using j v [OF j] by (simp add: unat_ucast16 del: unsigned_and_eq)
  qed simp
qed

lemma hval_limbs: "n < 2 ^ 130 \<Longrightarrow> hval (map (limb n) [0..<10]) = n"
  using limb_val_limbs [of n] by (simp add: limb_val_hval)

lemma clamp_less: "clamp n < 2 ^ 130"
proof -
  have m: "k < 130" if "bit (0x0ffffffc0ffffffc0ffffffc0fffffff :: nat) k" for k
    using that not_bit_above [where n = "0x0ffffffc0ffffffc0ffffffc0fffffff" and k = 130 and j = k]
    by (cases "k < 130") simp_all
  have "take_bit 130 (clamp n) = clamp n"
    by (rule bit_eqI) (auto simp: clamp_def bit_take_bit_iff bit_and_iff dest: m)
  then show ?thesis by (metis take_bit_nat_less_exp)
qed


section \<open>The accumulator after the message\<close>

lemma ucast_up_down: "ucast (ucast (x :: 16 word) :: 32 word) = x"
  by (rule bit_word_eqI) (simp add: bit_simps)

lemma ucast_down_up: "unat (x :: 32 word) < 2 ^ 16 \<Longrightarrow> ucast (ucast x :: 16 word) = x"
  by (simp only: word_unat_eq_iff unat_ucast32 unat_ucast16)

lemma acc_small: "acc_ok h \<Longrightarrow> x \<in> set h \<Longrightarrow> unat x < 2 ^ 16"
  by (fastforce simp: acc_ok_def in_set_conv_nth split: if_splits)

lemma acc_ucast: "acc_ok h \<Longrightarrow> map ucast (map ucast h :: 16 word list) = h"
  using ucast_down_up acc_small by (simp add: map_idI)

lemma blocks16_append: "16 dvd length a \<Longrightarrow> blocks16 (a @ b) = blocks16 a @ blocks16 b"
proof (induction "length a" arbitrary: a rule: less_induct)
  case less
  show ?case
  proof (cases "a = []")
    case True
    then show ?thesis by (simp add: blocks16.simps [of "[]"])
  next
    case False
    with less.prems have "16 \<le> length a" by (auto dest: dvd_imp_le)
    with False less show ?thesis
      by (simp add: blocks16.simps [of a] blocks16.simps [of "a @ b"] dvd_diff_nat)
  qed
qed

lemma blocks16_short: "length b < 16 \<Longrightarrow> blocks16 b = (if b = [] then [] else [b])"
  by (simp add: blocks16.simps [of b] blocks16.simps [of "[]"])

definition poly_acc :: "poly1305 \<Rightarrow> nat \<Rightarrow> bool" where
  "poly_acc s v \<longleftrightarrow> acc_ok (map ucast (p_h s)) \<and> uval (map ucast (p_h s)) mod P1305 = v mod P1305"

lemma p_h_blocks: "acc_ok (poly_loop hb (map ucast (p_r s)) m (map ucast (p_h s))) \<Longrightarrow>
    hb = (if fin s \<noteq> 0 then 0 else push_bit 11 1) \<Longrightarrow>
    map ucast (p_h (poly_blocks m s)) = poly_loop hb (map ucast (p_r s)) m (map ucast (p_h s))"
  by (simp add: poly_blocks_def acc_ucast [simplified])

lemma poly_acc_blocks:
  assumes "poly_acc s v" "factor_ok (map ucast (p_r s))" "fin s = 0" "16 dvd length m"
  shows "poly_acc (poly_blocks m s) (fold (absorb (uval (map ucast (p_r s)))) (blocks16 m) v)"
proof -
  let ?r = "map ucast (p_r s) :: 32 word list" and ?h = "map ucast (p_h s) :: 32 word list"
  have h: "acc_ok ?h" "uval ?h mod P1305 = v mod P1305" using assms(1) by (simp_all add: poly_acc_def)
  note l = poly_loop_value [OF assms(2) h(1) assms(4)]
  have p: "map ucast (p_h (poly_blocks m s)) = poly_loop (push_bit 11 1) ?r m ?h"
    by (rule p_h_blocks) (use l assms(3) in simp_all)
  have "fold (absorb (uval ?r)) (blocks16 m) (uval ?h) mod P1305 = fold (absorb (uval ?r)) (blocks16 m) v mod P1305"
    by (metis fold_absorb_mod h(2))
  with l show ?thesis unfolding poly_acc_def p by simp
qed

lemma poly_loop_one: "length m = 16 \<Longrightarrow> poly_loop hb r m h = poly_step hb r m h"
  by (simp add: poly_loop.simps [of hb r m] poly_loop.simps [of hb r "[]"])

lemma poly_acc_last:
  assumes "poly_acc s v" "factor_ok (map ucast (p_r s))" "fin s \<noteq> 0" "length b < 16"
  shows "poly_acc (poly_blocks (b @ [1] @ replicate (15 - length b) 0) s) (absorb (uval (map ucast (p_r s))) b v)"
proof -
  let ?r = "map ucast (p_r s) :: 32 word list" and ?h = "map ucast (p_h s) :: 32 word list"
  let ?m = "b @ [1] @ replicate (15 - length b) 0"
  have h: "acc_ok ?h" "uval ?h mod P1305 = v mod P1305" using assms(1) by (simp_all add: poly_acc_def)
  have m: "length ?m = 16" "le_val ?m = le_val (b @ [1])" using assms(4) by (simp_all add: le_val_append)
  have loop: "poly_loop 0 ?r ?m ?h = poly_step 0 ?r ?m ?h"
    by (rule poly_loop_one) (rule m(1))
  have "le_val (b @ [1]) < 2 ^ 130" by (rule le_val_block) (use assms(4) in simp)
  note st = poly_step_value [OF h(1) assms(2) unat_poly_limbs [OF m(1), unfolded m(2)] this]
  have p: "map ucast (p_h (poly_blocks ?m s)) = poly_loop 0 ?r ?m ?h"
    by (rule p_h_blocks) (use st loop assms(3) in simp_all)
  have "(uval ?h + le_val (b @ [1])) * uval ?r mod P1305 = absorb (uval ?r) b (uval ?h mod P1305)"
    by (simp add: absorb_mod) (simp add: absorb_def)
  also have "\<dots> = absorb (uval ?r) b v" unfolding h(2) absorb_mod ..
  finally show ?thesis using st unfolding poly_acc_def p loop by (simp add: absorb_def)
qed

lemma poly1305_new_fields [simp]:
  "leftover (poly1305_new key) = 0" "fin (poly1305_new key) = 0" "p_h (poly1305_new key) = replicate 10 0"
  "buffer (poly1305_new key) = replicate 16 0"
  by (simp_all add: poly1305_new_def Let_def)

lemma poly_acc_new: "poly_acc (poly1305_new key) 0"
  by (simp add: poly_acc_def acc_ok_def hval_map_upt map_replicate_trivial hval_sum)

lemma blocks_keep [simp]:
  "p_r (poly_blocks m s) = p_r s" "fin (poly_blocks m s) = fin s" "buffer (poly_blocks m s) = buffer s"
  "leftover (poly_blocks m s) = leftover s"
  by (simp_all add: poly_blocks_def)

lemma put_keep [simp]: "p_r (poly_put m s) = p_r s" "p_h (poly_put m s) = p_h s" "fin (poly_put m s) = fin s"
  by (simp_all add: poly_put_def)

lemma poly_blocks_none: "poly_blocks [] s = s"
  by (simp add: poly_blocks_def poly_loop.simps [of _ _ "[]"] ucast_up_down comp_def)

lemma poly_key:
  assumes "16 \<le> length key"
  shows "factor_ok (map ucast (p_r (poly1305_new key)))"
    "uval (map ucast (p_r (poly1305_new key))) = clamp (le_val (take 16 key))"
proof -
  let ?r = "map ucast (p_r (poly1305_new key)) :: 32 word list"
  have r: "map unat ?r = map (limb (clamp (le_val (take 16 key)))) [0..<10]"
    using p_r_value [OF assms] by (simp add: unat_ucast32 comp_def)
  have l: "length ?r = 10" using arg_cong [OF r, of length] by simp
  have "unat (?r ! j) < 2 ^ 13" if "j < 10" for j
    using arg_cong [OF r, of "\<lambda>xs. xs ! j"] that l limb_less by simp
  with l show "factor_ok ?r" unfolding factor_ok_def by blast
  show "uval ?r = clamp (le_val (take 16 key))" unfolding r by (rule hval_limbs) (rule clamp_less)
qed

lemma poly_absorbed:
  assumes "16 \<le> length key"
  shows "poly_acc (poly_pad_last (poly_update m (poly1305_new key)))
    (fold (absorb (clamp (le_val (take 16 key)))) (blocks16 m) 0)"
proof -
  let ?s = "poly1305_new key" and ?w = "length m - length m mod 16"
  let ?a = "absorb (clamp (le_val (take 16 key)))"
  let ?f = "take ?w m" and ?t = "drop ?w m"
  have w: "(if 16 \<le> length m then ?w else 0) = ?w" by (simp add: not_le)
  have up: "poly_update m ?s = (if ?t \<noteq> [] then poly_put ?t (poly_blocks ?f ?s) else poly_blocks ?f ?s)"
    by (cases "16 \<le> length m") (simp_all add: poly_update_def poly_rest_def Let_def poly_blocks_none)
  have dv: "16 dvd length ?f" by (simp add: dvd_minus_mod)
  have t: "length ?t < 16" by simp
  have bl: "blocks16 m = blocks16 ?f @ (if ?t = [] then [] else [?t])"
    using blocks16_append [OF dv, of ?t] blocks16_short [OF t] by simp
  have f: "poly_acc (poly_blocks ?f ?s) (fold ?a (blocks16 ?f) 0)"
    using poly_acc_blocks [OF poly_acc_new poly_key(1) [OF assms] _ dv] unfolding poly_key(2) [OF assms]
    by simp
  show ?thesis
  proof (cases "?t = []")
    case True
    with f show ?thesis unfolding up bl by (simp add: poly_pad_last_def)
  next
    case False
    let ?p = "poly_put ?t (poly_blocks ?f ?s)"
    have p: "take (leftover ?p) (buffer ?p) = ?t" "leftover ?p = length ?t"
      by (simp_all add: poly_put_def del: length_drop)
    let ?q = "?p\<lparr>buffer := ?t @ [1] @ replicate (15 - length ?t) 0, fin := 1\<rparr>"
    have pad: "poly_pad_last ?p = poly_blocks (?t @ [1] @ replicate (15 - length ?t) 0) ?q"
      unfolding poly_pad_last_def p(1) unfolding p(2) using False by simp
    have "poly_acc ?q (fold ?a (blocks16 ?f) 0)" using f by (simp add: poly_acc_def)
    then have "poly_acc (poly_blocks (?t @ [1] @ replicate (15 - length ?t) 0) ?q)
        (absorb (uval (map ucast (p_r ?q))) ?t (fold ?a (blocks16 ?f) 0))"
      by (rule poly_acc_last) (use t poly_key(1) [OF assms] in simp_all)
    moreover have "uval (map ucast (p_r ?q)) = clamp (le_val (take 16 key))"
      using poly_key(2) [OF assms] by simp
    ultimately show ?thesis
      unfolding up bl using False pad by (simp del: length_drop append.simps)
  qed
qed

section \<open>The carries of the end\<close>

abbreviation wval :: "16 word list \<Rightarrow> nat" where
  "wval h \<equiv> hval (map unat h)"

lemma hval_update: "i < length xs \<Longrightarrow> hval (xs[i := y]) + 2 ^ (13 * i) * xs ! i = hval xs + 2 ^ (13 * i) * y"
proof (induction xs arbitrary: i)
  case (Cons x xs)
  show ?case
  proof (cases i)
    case (Suc k)
    with Cons have IH: "hval (xs[k := y]) + 2 ^ (13 * k) * xs ! k = hval xs + 2 ^ (13 * k) * y" by simp
    have "hval ((x # xs)[i := y]) + 2 ^ (13 * i) * (x # xs) ! i
        = x + 2 ^ 13 * (hval (xs[k := y]) + 2 ^ (13 * k) * xs ! k)"
      by (simp add: Suc power_add algebra_simps)
    also have "\<dots> = hval (x # xs) + 2 ^ (13 * i) * y"
      unfolding IH by (simp add: Suc power_add algebra_simps)
    finally show ?thesis .
  qed simp
qed simp

lemma hval_less: "\<forall>x\<in>set xs. x < 2 ^ 13 \<Longrightarrow> hval xs < 2 ^ (13 * length xs)"
proof (induction xs)
  case (Cons x xs)
  then have "hval xs + 1 \<le> 2 ^ (13 * length xs)" "x < 2 ^ 13" by simp_all
  then have "2 ^ 13 * (hval xs + 1) \<le> 2 ^ 13 * 2 ^ (13 * length xs)" "x < 2 ^ 13" by simp_all
  then show ?case by (simp add: power_add)
qed simp

lemma unat16_mask13: "unat (d AND 0x1fff :: 16 word) = unat d mod 2 ^ 13"
  unfolding mask13 take_bit_eq_mask [symmetric] unsigned_take_bit_eq by (simp only: take_bit_eq_mod)

lemma unat16_shift13: "unat (drop_bit 13 (d :: 16 word)) = unat d div 2 ^ 13"
  by (simp only: unat_drop_bit_eq) (simp only: drop_bit_eq_div)

lemma carry_at_value:
  assumes "i < length h" "unat (h ! i) + unat c < 2 ^ 16" "carry_at i (h, c) = (h', c')"
  shows "unat c' = (unat (h ! i) + unat c) div 2 ^ 13" "h' = h[i := h' ! i]" "unat (h' ! i) < 2 ^ 13"
    "wval h' + 2 ^ (13 * Suc i) * unat c' = wval h + 2 ^ (13 * i) * unat c"
proof -
  let ?x = "h ! i + c"
  have x: "unat ?x = unat (h ! i) + unat c" using assms(2) by (simp add: unat_word_ariths)
  have h': "h' = h[i := ?x AND 0x1fff]" "c' = drop_bit 13 ?x"
    using assms(3) by (simp_all add: carry_at_def Let_def)
  have d: "unat (?x AND 0x1fff) = unat ?x mod 2 ^ 13" by (rule unat16_mask13)
  show c': "unat c' = (unat (h ! i) + unat c) div 2 ^ 13"
    unfolding h'(2) unat16_shift13 x ..
  show "h' = h[i := h' ! i]" "unat (h' ! i) < 2 ^ 13"
    using assms(1) mod_less_divisor [of "2 ^ 13" "unat ?x"] by (simp_all add: h' d del: mod_less_divisor)
  have "wval h' + 2 ^ (13 * i) * unat (h ! i) = wval h + 2 ^ (13 * i) * (unat ?x mod 2 ^ 13)"
    using hval_update [of i "map unat h" "unat ?x mod 2 ^ 13"] assms(1)
    unfolding h'(1) map_update d by simp
  moreover have "unat ?x mod 2 ^ 13 + 2 ^ 13 * unat c' = unat (h ! i) + unat c"
    unfolding c' x by (rule mod_mult_div_eq)
  then have "2 ^ (13 * i) * (unat ?x mod 2 ^ 13 + 2 ^ 13 * unat c') = 2 ^ (13 * i) * (unat (h ! i) + unat c)"
    by (rule arg_cong)
  ultimately show "wval h' + 2 ^ (13 * Suc i) * unat c' = wval h + 2 ^ (13 * i) * unat c"
    by (simp add: power_add algebra_simps)
qed

lemma carries_value:
  assumes "length h = 10" "\<forall>k<10. unat (h ! k) \<le> 8900" "unat c \<le> 5" "i \<le> j" "j \<le> 10"
    "fold carry_at [i..<j] (h, c) = (h', c')"
  shows "length h' = 10 \<and> (\<forall>k<10. if i \<le> k \<and> k < j then unat (h' ! k) < 2 ^ 13 else h' ! k = h ! k)
    \<and> unat c' \<le> (if i = j then 5 else 1) \<and> wval h' + 2 ^ (13 * j) * unat c' = wval h + 2 ^ (13 * i) * unat c"
  using assms(4-6)
proof (induction j arbitrary: h' c' rule: dec_induct)
  case base
  with assms(1,3) show ?case by simp
next
  case (step j)
  obtain h1 c1 where f: "fold carry_at [i..<j] (h, c) = (h1, c1)" by (cases "fold carry_at [i..<j] (h, c)")
  have IH: "length h1 = 10" "\<forall>k<10. if i \<le> k \<and> k < j then unat (h1 ! k) < 2 ^ 13 else h1 ! k = h ! k"
    "unat c1 \<le> 5" "wval h1 + 2 ^ (13 * j) * unat c1 = wval h + 2 ^ (13 * i) * unat c"
    using step.IH [OF _ f] step.prems(1) by (auto split: if_splits)
  have at: "carry_at j (h1, c1) = (h', c')" using step.prems(2) step.hyps(1) f by simp
  have j: "j < 10" using step.prems(1) by simp
  have "unat (h1 ! j) \<le> 8900" using IH(2) j assms(2) by (auto split: if_splits)
  then have s: "unat (h1 ! j) + unat c1 \<le> 8905" using IH(3) by simp
  note v = carry_at_value [OF _ _ at]
  have c': "unat c' \<le> 1"
    using v(1) s j IH(1) div_le_mono [OF s, of "2 ^ 13"] by simp
  have h': "h' = h1[j := h' ! j]" "unat (h' ! j) < 2 ^ 13"
    "wval h' + 2 ^ (13 * Suc j) * unat c' = wval h1 + 2 ^ (13 * j) * unat c1"
    using v s j IH(1) by simp_all
  have len: "length h' = 10" using arg_cong [OF h'(1), of length] IH(1) by simp
  have "h' ! k = h1 ! k" if "k \<noteq> j" for k
    using arg_cong [OF h'(1), of "\<lambda>l. l ! k"] that by simp
  then have "if i \<le> k \<and> k < Suc j then unat (h' ! k) < 2 ^ 13 else h' ! k = h ! k" if "k < 10" for k
    using spec [OF IH(2), of k] h'(2) step.hyps(1) that by (cases "k = j") (auto simp: less_Suc_eq)
  then have "\<forall>k<10. if i \<le> k \<and> k < Suc j then unat (h' ! k) < 2 ^ 13 else h' ! k = h ! k" by blast
  with len c' h'(3) IH(4) step.hyps(1) show ?case by simp
qed

definition reduced :: "16 word list \<Rightarrow> bool" where
  "reduced h \<longleftrightarrow> length h = 10 \<and> (\<forall>k<10. unat (h ! k) < 2 ^ 13)"

lemma reduced_less: "reduced h \<Longrightarrow> wval h < 2 ^ 130"
proof -
  assume "reduced h"
  then have "length h = 10" "\<forall>x\<in>set h. unat x < 2 ^ 13"
    unfolding reduced_def by (metis in_set_conv_nth)+
  then show ?thesis using hval_less [of "map unat h"] by simp
qed

lemma two_more: "length l = 10 \<Longrightarrow> \<exists>a b cs. l = a # b # cs \<and> length cs = 8"
  by (cases l; cases "tl l") auto

lemma map2_one_side: "length a = length b \<Longrightarrow> map2 (\<lambda>x y. x) a b = a" "length a = length b \<Longrightarrow> map2 (\<lambda>x y. y) a b = b"
  by (induction a b rule: list_induct2) simp_all

lemma acc_value: "acc_ok h \<Longrightarrow> uval h < 2 ^ 130 + 2 ^ 13 * 700"
proof -
  assume a: "acc_ok h"
  then obtain h0 h1 hs where h: "h = h0 # h1 # hs" "length hs = 8"
    using two_more [of h] by (auto simp: acc_ok_def)
  have b: "unat h0 < 2 ^ 13" "unat h1 < 2 ^ 13 + 700"
    using a by (auto simp: acc_ok_def h dest: spec [where x = 0] spec [where x = 1])
  have "unat (hs ! k) < 2 ^ 13" if "k < 8" for k
    using a that unfolding acc_ok_def h by (auto dest!: spec [where x = "Suc (Suc k)"])
  then have "\<forall>x\<in>set hs. unat x < 2 ^ 13" using h(2) by (metis in_set_conv_nth)
  then have "hval (map unat hs) < 2 ^ 104"
    using hval_less [of "map unat hs"] h(2) by simp
  then show ?thesis using b unfolding h by simp
qed

lemma poly_carry_value:
  assumes a: "acc_ok (map ucast h)"
  shows "reduced (poly_carry h) \<and> wval (poly_carry h) mod P1305 = uval (map ucast h) mod P1305"
proof -
  let ?V = "uval (map ucast h)"
  have V: "?V = wval h" by (simp add: unat_ucast32 comp_def)
  have len: "length h = 10" using a by (simp add: acc_ok_def)
  have b: "unat (h ! k) < 2 ^ 13 + (if k = 1 then 700 else 0)" if "k < 10" for k
    using a that len unfolding acc_ok_def by (auto simp: unat_ucast32)
  then have b': "\<forall>k<10. unat (h ! k) \<le> 8900" by (fastforce split: if_splits)
  obtain h1 c1 where f1: "fold carry_at [1..<10] (h, 0) = (h1, c1)" by (cases "fold carry_at [1..<10] (h, 0)")
  have v1: "length h1 = 10" "\<forall>k<10. if 1 \<le> k then unat (h1 ! k) < 2 ^ 13 else h1 ! k = h ! k"
    "unat c1 \<le> 1" "wval h1 + 2 ^ 130 * unat c1 = wval h"
    using carries_value [OF len b' _ _ _ f1] by (auto split: if_splits)
  have "unat (h1 ! k) < 2 ^ 13" if "k < 10" for k
    using spec [OF v1(2), of k] b [of k] that by (cases k) simp_all
  then have r1: "\<And>k. k < 10 \<Longrightarrow> unat (h1 ! k) < 2 ^ 13" .
  obtain h2 c2 where f2: "carry_at 0 (h1, c1 * 5) = (h2, c2)" by (cases "carry_at 0 (h1, c1 * 5)")
  have c15: "unat (c1 * 5) = 5 * unat c1" using v1(3) by (simp add: unat_word_ariths)
  have s2: "unat (h1 ! 0) + unat (c1 * 5) < 2 ^ 13 + 5" using r1 [of 0] c15 v1(3) by simp
  note v2 = carry_at_value [OF _ _ f2]
  have h2: "unat c2 = (unat (h1 ! 0) + unat (c1 * 5)) div 2 ^ 13" "h2 = h1[0 := h2 ! 0]" "unat (h2 ! 0) < 2 ^ 13"
    "wval h2 + 2 ^ 13 * unat c2 = wval h1 + 5 * unat c1"
    using v2 s2 v1(1) c15 by simp_all
  have c2: "unat c2 \<le> 1" "unat c1 = 0 \<Longrightarrow> unat c2 = 0"
    using h2(1) s2 r1 [of 0] c15 by simp_all
  have h2k: "length h2 = 10" "\<And>k. k < 10 \<Longrightarrow> unat (h2 ! k) < 2 ^ 13" "h2 ! 1 = h1 ! 1"
  proof -
    show "length h2 = 10" using arg_cong [OF h2(2), of length] v1(1) by simp
    have same: "k \<noteq> 0 \<Longrightarrow> h2 ! k = h1 ! k" for k using arg_cong [OF h2(2), of "\<lambda>l. l ! k"] by simp
    then show "h2 ! 1 = h1 ! 1" by simp
    show "unat (h2 ! k) < 2 ^ 13" if "k < 10" for k
      using same [of k] r1 [OF that] h2(3) by (cases k) simp_all
  qed
  have one: "unat (h1 ! 1) < 700" if "unat c1 \<noteq> 0"
  proof -
    have "wval h1 < 2 ^ 13 * 700"
      using acc_value [OF a] v1(3,4) that unfolding V by (cases "unat c1") simp_all
    moreover have "2 ^ 13 * unat (h1 ! 1) \<le> wval h1" using two_more [OF v1(1)] by auto
    ultimately show ?thesis by simp
  qed
  have s3: "unat (h2 ! 1) + unat c2 < 2 ^ 13"
    using one c2 r1 [of 1] unfolding h2k(3) by (cases "unat c1 = 0") simp_all
  obtain h3 c3 where f3: "carry_at 1 (h2, c2) = (h3, c3)" by (cases "carry_at 1 (h2, c2)")
  note v3 = carry_at_value [OF _ _ f3]
  have h3: "unat c3 = 0" "h3 = h2[1 := h3 ! 1]" "unat (h3 ! 1) < 2 ^ 13" "wval h3 = wval h2 + 2 ^ 13 * unat c2"
    using v3 s3 h2k(1) by simp_all
  have "c3 = 0" using h3(1) by (simp add: unat_eq_0)
  then have out: "poly_carry h = h3"
    by (simp only: poly_carry_def Let_def f1 f2 f3 prod.case) simp
  have same: "k \<noteq> 1 \<Longrightarrow> h3 ! k = h2 ! k" for k using arg_cong [OF h3(2), of "\<lambda>l. l ! k"] by simp
  have "unat (h3 ! k) < 2 ^ 13" if "k < 10" for k
    using same [of k] h2k(2) [OF that] h3(3) by (cases "k = 1") simp_all
  moreover have "length h3 = 10" using arg_cong [OF h3(2), of length] h2k(1) by simp
  ultimately have "reduced h3" by (simp add: reduced_def)
  moreover have "wval h3 = wval h1 + 5 * unat c1" using h3(4) h2(4) by simp
  moreover have "wval h = wval h1 + 5 * unat c1 + unat c1 * P1305"
    using v1(4) by (simp add: P1305_def)
  ultimately show ?thesis unfolding out V by simp
qed

section \<open>The last subtraction\<close>

lemma poly_reduce_value:
  assumes "reduced h"
  shows "\<exists>g. reduced g \<and> wval g = wval h mod P1305 \<and>
    poly_reduce h = g[9 := poly_reduce h ! 9] \<and> push_bit 5 (poly_reduce h ! 9) = push_bit 5 (g ! 9)"
proof -
  have len: "length h = 10" and b: "\<And>k. k < 10 \<Longrightarrow> unat (h ! k) < 2 ^ 13"
    using assms by (simp_all add: reduced_def)
  obtain g c where f: "fold carry_at [0..<10] (h, 5) = (g, c)" by (cases "fold carry_at [0..<10] (h, 5)")
  have "\<forall>k<10. unat (h ! k) \<le> 8900" using b by fastforce
  note v = carries_value [OF len this _ _ _ f]
  have g: "length g = 10" "\<And>k. k < 10 \<Longrightarrow> unat (g ! k) < 2 ^ 13" "unat c \<le> 1" "wval g + 2 ^ 130 * unat c = wval h + 5"
    using v by auto
  then have rg: "reduced g" by (simp add: reduced_def)
  have red: "poly_reduce h = map2 (\<lambda>x y. (x AND NOT ((c XOR 1) - 1)) OR (y AND ((c XOR 1) - 1))) h (g[9 := g ! 9 - push_bit 13 1])"
    by (simp only: poly_reduce_def Let_def f prod.case)
  have "c = 0 \<or> c = 1" using g(3) by (cases "unat c") (auto simp: word_unat_eq_iff)
  then show ?thesis
  proof
    assume c: "c = 0"
    have "poly_reduce h = map2 (\<lambda>x y. x) h (g[9 := g ! 9 - push_bit 13 1])" unfolding red c by simp
    then have "poly_reduce h = h" using len g(1) by (simp add: map2_one_side)
    moreover have "wval h < P1305" using g(4) reduced_less [OF rg] c by (simp add: P1305_def)
    ultimately show ?thesis using assms by (intro exI [of _ h]) simp
  next
    assume c: "c = 1"
    have "poly_reduce h = map2 (\<lambda>x y. y) h (g[9 := g ! 9 - push_bit 13 1])" unfolding red c by simp
    then have p: "poly_reduce h = g[9 := g ! 9 - push_bit 13 1]" using len g(1) by (simp add: map2_one_side)
    have "push_bit 5 (g ! 9 - push_bit 13 1) = push_bit 5 (g ! 9) - push_bit 18 1"
      by (simp add: push_bit_eq_mult algebra_simps)
    moreover have "push_bit 18 1 = (0 :: 16 word)" by (rule bit_word_eqI) (unfold bit_push_bit_iff, auto)
    ultimately have "push_bit 5 (g ! 9 - push_bit 13 1) = push_bit 5 (g ! 9)" by (simp only: diff_zero)
    moreover have "wval h = wval g + 1 * P1305" using g(4) c by (simp add: P1305_def)
    moreover have "wval g < P1305" using g(4) reduced_less [OF assms] c by (simp add: P1305_def)
    ultimately show ?thesis using rg p g(1) by (intro exI [of _ g]) simp
  qed
qed


section \<open>Regrouping and the pad\<close>

fun val16 :: "nat list \<Rightarrow> nat" where
  "val16 [] = 0"
| "val16 (x # xs) = x + 2 ^ 16 * val16 xs"

lemma val16_digits: "val16 (map (\<lambda>i. n div 2 ^ (16 * i) mod 2 ^ 16) [0..<k]) = n mod 2 ^ (16 * k)"
proof (induction k arbitrary: n)
  case (Suc k)
  have "val16 (map (\<lambda>i. n div 2 ^ (16 * i) mod 2 ^ 16) [0..<Suc k])
      = n mod 2 ^ 16 + 2 ^ 16 * val16 (map (\<lambda>i. n div 2 ^ 16 div 2 ^ (16 * i) mod 2 ^ 16) [0..<k])"
    by (simp add: upt_conv_Cons map_Suc_upt [symmetric] comp_def power_add div_mult2_eq del: upt_Suc)
  also have "\<dots> = n mod (2 ^ 16 * 2 ^ (16 * k))"
    unfolding Suc.IH mod_mult2_eq by simp
  finally show ?case by (simp add: power_add)
qed simp

lemma limb_hval: "i < length xs \<Longrightarrow> \<forall>x\<in>set xs. x < 2 ^ 13 \<Longrightarrow> limb (hval xs) i = xs ! i"
proof (induction xs arbitrary: i)
  case (Cons x xs)
  show ?case
  proof (cases i)
    case 0
    with Cons.prems(2) show ?thesis by (simp add: limb_def)
  next
    case (Suc j)
    have "(x + 2 ^ 13 * hval xs) div (2 ^ 13 * 2 ^ (13 * j)) = hval xs div 2 ^ (13 * j)"
      using Cons.prems(2) unfolding div_mult2_eq by simp
    with Suc Cons show ?thesis by (simp add: limb_def power_add)
  qed
qed simp

lemma bit_reduced:
  assumes "reduced h" "k < 10"
  shows "bit (h ! k) n \<longleftrightarrow> n < 13 \<and> bit (wval h) (13 * k + n)"
proof -
  have "\<forall>x\<in>set (map unat h). x < 2 ^ 13" "length h = 10"
    using assms(1) by (auto simp: reduced_def in_set_conv_nth)
  then have "unat (h ! k) = limb (wval h) k" using limb_hval [of k "map unat h"] assms(2) by simp
  then have "bit (unat (h ! k)) n \<longleftrightarrow> n < 13 \<and> bit (wval h) (13 * k + n)"
    by (simp add: limb_bit bit_simps)
  then show ?thesis by (auto simp: bit_unsigned_iff dest: bit_imp_le_length)
qed

lemma unat_digit16:
  assumes "\<And>n. bit (w :: 16 word) n \<longleftrightarrow> n < 16 \<and> bit T (16 * i + n)"
  shows "unat w = T div 2 ^ (16 * i) mod 2 ^ 16"
proof -
  have "unat w = take_bit 16 (drop_bit (16 * i) T)"
    by (rule bit_eqI) (auto simp: bit_simps assms)
  then show ?thesis by (simp only: take_bit_eq_mod drop_bit_eq_div)
qed

lemma unat_poly_pack:
  assumes "reduced h"
  shows "map unat (poly_pack h) = map (\<lambda>i. wval h div 2 ^ (16 * i) mod 2 ^ 16) [0..<8]"
proof -
  let ?T = "wval h"
  have two: "unat (drop_bit a (h ! k) OR push_bit b (h ! l)) = ?T div 2 ^ (16 * i) mod 2 ^ 16"
    if "a \<le> 10" "k < 9" "16 * i = 13 * k + a" "l = k + 1" "b = 13 - a" for a b k i l
  proof (rule unat_digit16)
    fix n
    have x: "bit (h ! k) n \<longleftrightarrow> n < 13 \<and> bit ?T (13 * k + n)"
      "bit (h ! l) n \<longleftrightarrow> n < 13 \<and> bit ?T (13 * k + 13 + n)" for n
      using bit_reduced [OF assms, of k n] bit_reduced [OF assms, of l n] that(2,4) by (simp_all add: ac_simps)
    show "bit (drop_bit a (h ! k) OR push_bit b (h ! l)) n \<longleftrightarrow> n < 16 \<and> bit ?T (16 * i + n)"
    proof (cases "a + n < 13")
      case True
      then have "\<not> 13 - a \<le> n" by simp
      with True show ?thesis by (simp add: that(3,5) bit_simps x add.assoc)
    next
      case False
      then have k: "13 * k + a + n = 13 * k + 13 + (n - (13 - a))" using that(1) by simp
      have "n - (13 - a) < 13" if "n < 16" using that \<open>a \<le> 10\<close> by simp
      with False show ?thesis using that(1) unfolding that(3,5) k by (auto simp: bit_simps x)
    qed
  qed
  have five: "unat (drop_bit 12 (h ! 4) OR push_bit 1 (h ! 5) OR push_bit 14 (h ! 6)) = ?T div 2 ^ (16 * 4) mod 2 ^ 16"
  proof (rule unat_digit16)
    fix n
    show "bit (drop_bit 12 (h ! 4) OR push_bit 1 (h ! 5) OR push_bit 14 (h ! 6)) n \<longleftrightarrow> n < 16 \<and> bit ?T (16 * 4 + n)"
      unfolding bit_or_iff bit_drop_bit_eq bit_push_bit_iff comp_def
      by (cases "n = 0"; cases "n < 14"; cases "n < 16") (auto simp: bit_reduced [OF assms])
  qed
  have e: "[0..<8] = [0, 1, 2, 3, 4, 5, 6, 7 :: nat]" by code_simp
  show ?thesis
    unfolding poly_pack_def e list.map
  proof (intro arg_cong2 [where f = Cons])
    show "unat (h ! 0 OR push_bit 13 (h ! 1)) = ?T div 2 ^ (16 * 0) mod 2 ^ 16" using two [of 0 0 0 1 13] by simp
    show "unat (drop_bit 3 (h ! 1) OR push_bit 10 (h ! 2)) = ?T div 2 ^ (16 * 1) mod 2 ^ 16" by (rule two) simp_all
    show "unat (drop_bit 6 (h ! 2) OR push_bit 7 (h ! 3)) = ?T div 2 ^ (16 * 2) mod 2 ^ 16" by (rule two) simp_all
    show "unat (drop_bit 9 (h ! 3) OR push_bit 4 (h ! 4)) = ?T div 2 ^ (16 * 3) mod 2 ^ 16" by (rule two) simp_all
    show "unat (drop_bit 12 (h ! 4) OR push_bit 1 (h ! 5) OR push_bit 14 (h ! 6)) = ?T div 2 ^ (16 * 4) mod 2 ^ 16" by (rule five)
    show "unat (drop_bit 2 (h ! 6) OR push_bit 11 (h ! 7)) = ?T div 2 ^ (16 * 5) mod 2 ^ 16" by (rule two) simp_all
    show "unat (drop_bit 5 (h ! 7) OR push_bit 8 (h ! 8)) = ?T div 2 ^ (16 * 6) mod 2 ^ 16" by (rule two) simp_all
    show "unat (drop_bit 8 (h ! 8) OR push_bit 5 (h ! 9)) = ?T div 2 ^ (16 * 7) mod 2 ^ 16" by (rule two) simp_all
  qed (rule refl)
qed

lemma val16_poly_pack: "reduced h \<Longrightarrow> val16 (map unat (poly_pack h)) = wval h mod 2 ^ 128"
  by (simp only: unat_poly_pack val16_digits) simp

lemma poly_pack_last: "length h = 10 \<Longrightarrow> push_bit 5 x = push_bit 5 (h ! 9) \<Longrightarrow> poly_pack (h[9 := x]) = poly_pack h"
  by (simp add: poly_pack_def)

lemma poly_add_pad_value:
  assumes "length h = length p" "unat c \<le> 1"
  shows "val16 (map unat (poly_add_pad c h p)) = (val16 (map unat h) + val16 (map unat p) + unat c) mod 2 ^ (16 * length h)"
  using assms
proof (induction h p arbitrary: c rule: list_induct2)
  case (Cons x xs y ys)
  let ?f = "ucast x + ucast y + c"
  have b: "unat x < 2 ^ 16" "unat y < 2 ^ 16" using unsigned_less [of x] unsigned_less [of y] by simp_all
  have u: "unat (ucast x :: 32 word) = unat x" "unat (ucast y :: 32 word) = unat y" by (rule unat_ucast32)+
  have f: "unat ?f = unat x + unat y + unat c" using b u Cons.prems by (simp add: unat_word_ariths)
  have d: "unat (drop_bit 16 ?f) = unat ?f div 2 ^ 16" by (simp only: unat_drop_bit_eq) (simp only: drop_bit_eq_div)
  have m: "unat (ucast ?f :: 16 word) = unat ?f mod 2 ^ 16" by (simp add: unsigned_ucast_eq take_bit_eq_mod)
  have "unat (drop_bit 16 ?f) \<le> 1" unfolding d f using b Cons.prems by simp
  note IH = Cons.IH [OF this, unfolded d]
  let ?S = "val16 (map unat xs) + val16 (map unat ys)"
  have "val16 (map unat (poly_add_pad c (x # xs) (y # ys)))
      = unat ?f mod 2 ^ 16 + 2 ^ 16 * ((?S + unat ?f div 2 ^ 16) mod 2 ^ (16 * length xs))"
    by (simp only: poly_add_pad.simps Let_def list.map val16.simps m IH)
  also have "?S + unat ?f div 2 ^ 16 = (unat ?f + 2 ^ 16 * ?S) div 2 ^ 16" by simp
  also have "unat ?f mod 2 ^ 16 = (unat ?f + 2 ^ 16 * ?S) mod 2 ^ 16" by (simp only: mod_mult_self2)
  also have "(unat ?f + 2 ^ 16 * ?S) mod 2 ^ 16 + 2 ^ 16 * ((unat ?f + 2 ^ 16 * ?S) div 2 ^ 16 mod 2 ^ (16 * length xs))
      = (unat ?f + 2 ^ 16 * ?S) mod (2 ^ 16 * 2 ^ (16 * length xs))"
    unfolding mod_mult2_eq by (rule add.commute)
  also have "2 ^ 16 * 2 ^ (16 * length xs) = (2 :: nat) ^ (16 * length (x # xs))" by (simp add: power_add)
  also have "unat ?f + 2 ^ 16 * ?S = val16 (map unat (x # xs)) + val16 (map unat (y # ys)) + unat c"
    unfolding f by (simp add: algebra_simps)
  finally show ?case .
qed simp

lemma le_val_words: "le_val (concat (map (\<lambda>w. [ucast w, ucast (drop_bit 8 w)]) h)) = val16 (map unat (h :: 16 word list))"
proof (induction h)
  case (Cons w h)
  have "unat w < 2 ^ 16" using unsigned_less [of w] by simp
  then have "unat w div 256 < 256" by (simp add: less_mult_imp_div_less)
  then have "unat (ucast (drop_bit 8 w) :: 8 word) = unat w div 256"
    unfolding unsigned_ucast_eq unat_drop_bit_eq unfolding drop_bit_eq_div take_bit_eq_mod by simp
  moreover have "unat (ucast w :: 8 word) = unat w mod 256" by (simp add: unsigned_ucast_eq take_bit_eq_mod)
  ultimately show ?case using Cons mod_mult_div_eq [of "unat w" 256] by (simp add: algebra_simps)
qed simp

lemma pad_value:
  assumes "32 \<le> length key"
  shows "val16 (map unat (p_pad (poly1305_new key))) = le_val (take 16 (drop 16 key))"
proof -
  let ?b = "take 16 (drop 16 key)"
  have b: "length ?b = 16" using assms by simp
  have "unat (ucast (load16 key (16 + 2 * i)) :: 16 word) = le_val ?b div 2 ^ (16 * i) mod 2 ^ 16" if "i < 8" for i
  proof (rule unat_digit16)
    fix n
    have "load16 key (16 + 2 * i) = load16 ?b (2 * i)" using that assms by (simp add: load16_def u8_def)
    then show "bit (ucast (load16 key (16 + 2 * i)) :: 16 word) n \<longleftrightarrow> n < 16 \<and> bit (le_val ?b) (16 * i + n)"
      using bit_load16 [of i ?b n] b that by (auto simp: bit_simps)
  qed
  then have "map unat (p_pad (poly1305_new key)) = map (\<lambda>i. le_val ?b div 2 ^ (16 * i) mod 2 ^ 16) [0..<8]"
    by (auto simp: poly1305_new_def Let_def)
  then have "val16 (map unat (p_pad (poly1305_new key))) = le_val ?b mod 2 ^ (16 * 8)"
    by (simp only: val16_digits)
  then show ?thesis using le_val_less [of ?b] b by simp
qed

lemma fold_absorb_less: "fold (absorb r) bs 0 < P1305"
proof (induction bs rule: rev_induct)
  case (snoc b bs)
  then show ?case by (simp add: absorb_def P1305_def)
qed (simp add: P1305_def)

lemma crypto_onetimeauth_spec:
  assumes "32 \<le> length key"
  shows "crypto_onetimeauth m key = poly1305_spec m key"
proof -
  let ?s = "poly_pad_last (poly_update m (poly1305_new key))"
  let ?v = "fold (absorb (clamp (le_val (take 16 key)))) (blocks16 m) 0"
  let ?p = "p_pad (poly1305_new key)"
  have a: "acc_ok (map ucast (p_h ?s))" "uval (map ucast (p_h ?s)) mod P1305 = ?v"
    using poly_absorbed [of key m] assms fold_absorb_less by (simp_all add: poly_acc_def)
  have c: "reduced (poly_carry (p_h ?s))" "wval (poly_carry (p_h ?s)) mod P1305 = ?v"
    using poly_carry_value [OF a(1)] a(2) by simp_all
  obtain g where g: "reduced g" "wval g = ?v"
    "poly_reduce (poly_carry (p_h ?s)) = g[9 := poly_reduce (poly_carry (p_h ?s)) ! 9]"
    "push_bit 5 (poly_reduce (poly_carry (p_h ?s)) ! 9) = push_bit 5 (g ! 9)"
    using poly_reduce_value [OF c(1)] c(2) by auto
  have pack: "poly_pack (poly_reduce (poly_carry (p_h ?s))) = poly_pack g"
    by (subst g(3)) (rule poly_pack_last [OF _ g(4)], use g(1) in \<open>simp add: reduced_def\<close>)
  let ?w = "poly_add_pad 0 (poly_pack g) ?p"
  have len: "length (poly_pack g) = 8" "length ?p = 8" by (simp_all add: poly_pack_def poly1305_new_def Let_def)
  have "val16 (map unat ?w) = (?v mod 2 ^ 128 + le_val (take 16 (drop 16 key))) mod 2 ^ 128"
    using poly_add_pad_value [of "poly_pack g" ?p 0] len val16_poly_pack [OF g(1)] g(2) pad_value [OF assms] by simp
  then have "le_val (crypto_onetimeauth m key) = (?v + le_val (take 16 (drop 16 key))) mod 256 ^ 16"
    by (simp add: crypto_onetimeauth_def poly_finish_def Let_def pack le_val_words mod_add_left_eq)
  then show ?thesis
    unfolding poly1305_spec_def by (rule le_bytes_unique [rotated]) simp
qed

end
