(* ===== verification/Ed25519Spec.thy ===== *)
theory Ed25519Spec
  imports Ed25519
begin

text \<open>
  Ed25519 (RFC 8032) and X25519 (RFC 7748) over the integers modulo \<open>2 ^ 255 - 19\<close>, with the constants
  of the documents, and the proof that the limb arithmetic of nacl-fast.ts computes them.
\<close>

section \<open>The specification\<close>

type_synonym rpoint = "int \<times> int \<times> int \<times> int"

definition ed_d :: int where
  "ed_d = 37095705934669439343138083508754565189542113879843219016388785533085940283555"

definition sqrt_m1 :: int where
  "sqrt_m1 = 19681161376707505956807079304988542015446066515923890162744021073123829784752"

definition ed_base :: rpoint where
  "ed_base =
     (let x = 15112221349535400772501151409588531511454012693041857206046113283949847762202;
          y = 46316835694926478169428394003475163141307993866256225615783033603165251855960
      in (x, y, 1, x * y mod P25519))"

fun r_add :: "rpoint \<Rightarrow> rpoint \<Rightarrow> rpoint" where
  "r_add (x1, y1, z1, t1) (x2, y2, z2, t2) =
     (let a = (y1 - x1) * (y2 - x2); b = (y1 + x1) * (y2 + x2); c = 2 * t1 * t2 * ed_d; d = 2 * z1 * z2;
          e = b - a; f = d - c; g = d + c; h = b + a
      in (e * f mod P25519, g * h mod P25519, f * g mod P25519, e * h mod P25519))"

definition r_step :: "bool \<Rightarrow> rpoint \<times> rpoint \<Rightarrow> rpoint \<times> rpoint" where
  "r_step b = (\<lambda>(p, q). if b then (r_add p q, r_add q q) else (r_add p p, r_add p q))"

definition r_mul :: "nat \<Rightarrow> rpoint \<Rightarrow> rpoint" where
  "r_mul n q = fst (fold (\<lambda>i. r_step (bit n i)) (rev [0..<256]) ((0, 1, 1, 0), q))"

fun r_pack :: "rpoint \<Rightarrow> bytes" where
  "r_pack (x, y, z, t) =
     (let zi = z ^ (2 ^ 255 - 21); x = x * zi mod P25519; y = y * zi mod P25519
      in le_bytes 32 (nat (y + 2 ^ 255 * (x mod 2))))"

definition clamp_num :: "nat \<Rightarrow> nat" where
  "clamp_num n = (n AND (2 ^ 254 - 8)) OR 2 ^ 254"

definition order :: nat where
  "order = 2 ^ 252 + 27742317777372353535851937790883648493"

section \<open>Limbs and residues\<close>

definition fres :: "gf \<Rightarrow> int" where
  "fres a = fval a mod P25519"

lemma fres_range: "0 \<le> fres a" "fres a < P25519"
  by (simp_all add: fres_def P25519_def)

lemma gf_sums:
  assumes "gf_le c a" "gf_le d b" "c + d \<le> 262144"
  shows "gf_ok (A25519 a b)" "gf_ok (Z25519 a b)" "gf_le (c + d) (A25519 a b)" "gf_le (c + d) (Z25519 a b)"
  using A25519_value [OF assms(1,2)] gf_le_mono [OF _ assms(3)] by simp_all

lemma fres_A: "gf_le c a \<Longrightarrow> gf_le d b \<Longrightarrow> fres (A25519 a b) = (fres a + fres b) mod P25519"
  by (simp add: fres_def A25519_value mod_add_eq)

lemma fres_Z: "gf_le c a \<Longrightarrow> gf_le d b \<Longrightarrow> fres (Z25519 a b) = (fres a - fres b) mod P25519"
  by (simp add: fres_def A25519_value mod_diff_eq)

lemma fres_M: "gf_ok a \<Longrightarrow> gf_ok b \<Longrightarrow> fres (M25519 a b) = fres a * fres b mod P25519"
  by (simp add: fres_def M25519_mod mod_mult_eq)

lemma fres_S: "gf_ok a \<Longrightarrow> fres (S25519 a) = fres a ^ 2 mod P25519"
  by (simp add: fres_def S25519_value power_mod)

lemma fres_inv: "gf_ok a \<Longrightarrow> fres (inv25519 a) = fres a ^ (2 ^ 255 - 21) mod P25519"
  by (simp only: fres_def inv25519_value power_mod)

lemma fres_pow: "gf_ok a \<Longrightarrow> fres (pow2523 a) = fres a ^ (2 ^ 252 - 3) mod P25519"
  by (simp only: fres_def pow2523_value power_mod)

lemma pack25519_fres: "gf_ok a \<Longrightarrow> pack25519 a = le_bytes 32 (nat (fres a))"
  by (simp add: fres_def pack25519_value)

lemma le_val_le_bytes: "le_val (le_bytes k n) = n mod 256 ^ k"
proof (induction k arbitrary: n)
  case (Suc k)
  have "le_bytes (Suc k) n = word_of_nat n # le_bytes k (n div 256)"
    unfolding le_bytes_def upt_conv_Cons [OF zero_less_Suc] map_Suc_upt [symmetric] list.map map_map comp_def
    by (simp add: div_mult2_eq)
  then have "le_val (le_bytes (Suc k) n) = n mod 256 + 256 * (n div 256 mod 256 ^ k)"
    using Suc.IH by (simp add: unat_of_nat)
  also have "\<dots> = n mod (256 * 256 ^ k)" unfolding mod_mult2_eq by simp
  finally show ?case by simp
qed (simp add: le_bytes_def)

lemma length_le_bytes [simp]: "length (le_bytes k n) = k"
  by (simp add: le_bytes_def)

lemma P25519_less: "P25519 < 256 ^ 32"
  by (simp add: P25519_def)

lemma le_bytes_residue: "int (le_val (le_bytes 32 (nat (fres a)))) = fres a"
  using fres_range [of a] P25519_less by (simp add: le_val_le_bytes)

lemma neq25519_iff: "gf_ok a \<Longrightarrow> gf_ok b \<Longrightarrow> neq25519 a b \<noteq> 0 \<longleftrightarrow> fres a \<noteq> fres b"
proof -
  assume ok: "gf_ok a" "gf_ok b"
  have "neq25519 a b = 0 \<longleftrightarrow> pack25519 a = pack25519 b"
    unfolding neq25519_def crypto_verify_32_def vn_zero_iff
    by (rule u8_eq_iff) (use ok in \<open>simp_all add: pack25519_value\<close>)
  also have "\<dots> \<longleftrightarrow> fres a = fres b"
    unfolding pack25519_fres [OF ok(1)] pack25519_fres [OF ok(2)] using le_bytes_residue by metis
  finally show ?thesis by blast
qed

lemma par25519_value: "gf_ok a \<Longrightarrow> par25519 a = word_of_int (fres a mod 2)"
proof -
  assume ok: "gf_ok a"
  have "u8 (pack25519 a) 0 = word_of_nat (nat (fres a))"
    unfolding pack25519_fres [OF ok] by (simp add: u8_def le_bytes_def)
  also have "\<dots> = word_of_int (fres a)" using fres_range(1) [of a] by (simp add: of_nat_nat)
  finally have "par25519 a = word_of_int (fres a) AND 1" by (simp add: par25519_def)
  also have "\<dots> = word_of_int (fres a mod 2)"
  proof -
    have "odd (word_of_int k :: 8 word) \<longleftrightarrow> odd k" for k
      using bit_word_of_int_iff [where k = k and n = 0 and ?'a = 8] by (simp add: bit_0)
    then show ?thesis by (simp add: and_one_eq mod_2_eq_odd)
  qed
  finally show ?thesis .
qed


section \<open>Constants\<close>

lemma gf_full: "length init = 16 \<Longrightarrow> gf init = init"
  unfolding gf_def by (rule nth_equalityI) simp_all

lemma gf_short: "gf0 = replicate 16 0" "gf1 = 1 # replicate 15 0" "gf_121665 = 0xdb41 # 1 # replicate 14 0"
  by (simp_all add: gf0_def gf1_def gf_121665_def gf_def upt_rec numeral_eq_Suc)

lemma constants_red: "gf_red gf0" "gf_red gf1" "gf_red gf_D" "gf_red gf_D2" "gf_red gf_X" "gf_red gf_Y" "gf_red gf_I"
  "gf_red gf_121665"
  by (simp_all add: gf_red_def gf_short gf_D_def gf_D2_def gf_X_def gf_Y_def gf_I_def gf_full)

lemma fval_zeros [simp]: "fval (replicate n 0) = 0"
  by (induction n) simp_all

lemma fval_D: "fval gf_D = ed_d"
  unfolding gf_D_def ed_d_def by (subst gf_full) simp_all

lemma fval_D2: "fval gf_D2 = 2 * ed_d mod P25519"
  unfolding gf_D2_def ed_d_def P25519_def by (subst gf_full) simp_all

lemma fval_I: "fval gf_I = sqrt_m1"
  unfolding gf_I_def sqrt_m1_def by (subst gf_full) simp_all

lemma replicate15: "replicate 15 x = [x, x, x, x, x, x, x, x, x, x, x, x, x, x, x]"
  by (simp add: numeral_eq_Suc)

lemma fval_XY: "(fval gf_X, fval gf_Y, 1, fval gf_X * fval gf_Y mod P25519) = ed_base"
proof -
  have "fval gf_X = 15112221349535400772501151409588531511454012693041857206046113283949847762202"
    unfolding gf_X_def by (subst gf_full) simp_all
  moreover have "fval gf_Y = 46316835694926478169428394003475163141307993866256225615783033603165251855960"
    unfolding gf_Y_def by (subst gf_full) (simp_all add: replicate15)
  ultimately show ?thesis by (simp add: ed_base_def)
qed

lemma fres_constants: "fres gf0 = 0" "fres gf1 = 1" "fres gf_D = ed_d" "fres gf_D2 = 2 * ed_d mod P25519"
  "fres gf_I = sqrt_m1" "fres gf_121665 = 121665"
  by (simp_all add: fres_def fval_D fval_D2 fval_I gf_short) (simp_all add: P25519_def ed_d_def sqrt_m1_def)

text \<open>The constants are what the documents define them to be.\<close>

lemma P25519_num: "P25519 = 57896044618658097711785492504343953926634992332820282019728792003956564819949"
  by (simp add: P25519_def)

lemma ed_d_meaning: "121666 * ed_d mod P25519 = (- 121665) mod P25519"
  unfolding ed_d_def P25519_num by simp

lemma sqrt_m1_meaning: "sqrt_m1 ^ 2 mod P25519 = (- 1) mod P25519"
  unfolding sqrt_m1_def P25519_num power2_eq_square by simp


text \<open>Numbers modulo the prime: the inner \<open>mod\<close> of a sum, a product or a power goes.\<close>

named_theorems residue

declare mod_add_eq [residue] mod_diff_eq [residue] mod_mult_eq [residue] power_mod [residue]

lemma mod_left_right [residue]:
  "(a mod m + b) mod m = (a + b) mod m" "(a + b mod m) mod m = (a + b) mod m"
  "(a mod m - b) mod m = (a - b) mod m" "(a - b mod m) mod m = (a - b) mod m"
  "a mod m * b mod m = a * b mod m" "a * (b mod m) mod m = a * b mod m" for a b m :: int
  by (simp_all add: mod_add_left_eq mod_add_right_eq mod_diff_left_eq mod_diff_right_eq mod_mult_left_eq mod_mult_right_eq)

lemma curve_check:
  assumes "x * x mod m = a" "y * y mod m = b" "a * b mod m = c" "d * c mod m = e" "(b - a - 1 - e) mod m = (0 :: int)"
  shows "(y * y - x * x - 1 - d * (x * x * (y * y))) mod m = 0"
proof -
  have c: "x * x * (y * y) mod m = c" using assms(1-3) by (metis mod_mult_eq)
  have "d * (x * x * (y * y)) mod m = e" using assms(4) c by (metis mod_mult_right_eq)
  then show ?thesis using assms(1,2,5) by (metis mod_diff_left_eq mod_diff_right_eq)
qed

lemma base_meaning:
  "case ed_base of (x, y, z, t) \<Rightarrow> 5 * y mod P25519 = 4 \<and> x mod 2 = 0 \<and> (y * y - x * x - 1 - ed_d * (x * x * (y * y))) mod P25519 = 0"
proof -
  let ?x = "15112221349535400772501151409588531511454012693041857206046113283949847762202 :: int"
  let ?y = "46316835694926478169428394003475163141307993866256225615783033603165251855960 :: int"
  have "5 * ?y mod P25519 = 4" unfolding P25519_num by simp
  moreover have "?x mod 2 = 0" by simp
  moreover have "(?y * ?y - ?x * ?x - 1 - ed_d * (?x * ?x * (?y * ?y))) mod P25519 = 0"
  proof (rule curve_check)
    show "?x * ?x mod P25519 = 26187595835145689230469591415084376402084551887632582719101735842039498021991"
      "?y * ?y mod P25519 = 37053468555941182535542715202780130513046395093004980492626426882532201484768"
      unfolding P25519_num by simp_all
    show "26187595835145689230469591415084376402084551887632582719101735842039498021991 * 37053468555941182535542715202780130513046395093004980492626426882532201484768 mod P25519 = 30655112042971184558329056706696549839726511367961720624960021019854854290862"
      unfolding P25519_num by simp
    show "ed_d * 30655112042971184558329056706696549839726511367961720624960021019854854290862 mod P25519 = 10865872720795493305073123787695754110961843205372397773524691040492703462776"
      unfolding P25519_num ed_d_def by simp
    show "(37053468555941182535542715202780130513046395093004980492626426882532201484768 - 26187595835145689230469591415084376402084551887632582719101735842039498021991 - 1 - 10865872720795493305073123787695754110961843205372397773524691040492703462776) mod P25519 = 0"
      unfolding P25519_num by simp
  qed
  ultimately show ?thesis unfolding ed_base_def Let_def prod.case by blast
qed

section \<open>Points\<close>

abbreviation gf_small :: "gf \<Rightarrow> bool" where
  "gf_small \<equiv> gf_le 65573"

lemma gf_small_ok [simp]: "gf_small a \<Longrightarrow> gf_ok a"
  by (erule gf_le_mono) simp

lemma M25519_small [simp]: "gf_ok a \<Longrightarrow> gf_ok b \<Longrightarrow> gf_small (M25519 a b)"
  by (rule gf_red_le [OF M25519_red])

lemma constants_small [simp]: "gf_small gf0" "gf_small gf1" "gf_small gf_D" "gf_small gf_D2" "gf_small gf_X" "gf_small gf_Y"
  "gf_small gf_I" "gf_small gf_121665"
  using constants_red by (simp_all add: gf_red_le)

fun pt_red :: "point \<Rightarrow> bool" where
  "pt_red (p0, p1, p2, p3) \<longleftrightarrow> gf_small p0 \<and> gf_small p1 \<and> gf_small p2 \<and> gf_small p3"

fun pt_res :: "point \<Rightarrow> rpoint" where
  "pt_res (p0, p1, p2, p3) = (fres p0, fres p1, fres p2, fres p3)"

lemma ed_add_value:
  assumes "pt_red p" "pt_red q"
  shows "pt_res (ed_add p q) = r_add (pt_res p) (pt_res q)" "pt_red (ed_add p q)"
proof -
  obtain p0 p1 p2 p3 where p: "p = (p0, p1, p2, p3)" by (cases p) auto
  obtain q0 q1 q2 q3 where q: "q = (q0, q1, q2, q3)" by (cases q) auto
  have pr: "gf_small p0" "gf_small p1" "gf_small p2" "gf_small p3" and qr: "gf_small q0" "gf_small q1" "gf_small q2" "gf_small q3"
    using assms by (simp_all add: p q)
  define a where "a = M25519 (Z25519 p1 p0) (Z25519 q1 q0)"
  define b where "b = M25519 (A25519 p0 p1) (A25519 q0 q1)"
  define c where "c = M25519 (M25519 p3 q3) gf_D2"
  define d where "d = A25519 (M25519 p2 q2) (M25519 p2 q2)"
  have sum: "gf_ok (A25519 x y)" "gf_ok (Z25519 x y)" "fres (A25519 x y) = (fres x + fres y) mod P25519"
    "fres (Z25519 x y) = (fres x - fres y) mod P25519" "gf_le 131146 (A25519 x y)" "gf_le 131146 (Z25519 x y)"
    if "gf_small x" "gf_small y" for x y
    using gf_sums [OF that] fres_A [OF that] fres_Z [OF that] by simp_all
  have ok: "gf_small a" "gf_small b" "gf_small c" "gf_small (M25519 p2 q2)" "gf_small (M25519 p3 q3)"
    using pr qr sum by (simp_all add: a_def b_def c_def)
  have ra: "fres a = (fres p1 - fres p0) * (fres q1 - fres q0) mod P25519"
    using pr qr by (simp add: a_def fres_M sum residue)
  have rb: "fres b = (fres p0 + fres p1) * (fres q0 + fres q1) mod P25519"
    using pr qr by (simp add: b_def fres_M sum residue)
  have rc: "fres c = fres p3 * fres q3 * (2 * ed_d) mod P25519"
    using pr qr ok by (simp add: c_def fres_M fres_constants residue)
  have rd: "fres d = (fres p2 * fres q2 + fres p2 * fres q2) mod P25519" and dl: "gf_le 131146 d"
    using pr qr ok sum by (simp_all add: d_def fres_M residue)
  have dc: "gf_ok (Z25519 d c)" "gf_ok (A25519 d c)" "fres (Z25519 d c) = (fres d - fres c) mod P25519"
    "fres (A25519 d c) = (fres d + fres c) mod P25519"
    using gf_sums [OF dl ok(3)] fres_A [OF dl ok(3)] fres_Z [OF dl ok(3)]
    by simp_all
  note ba = sum [OF ok(2,1)]
  have add: "ed_add p q = (M25519 (Z25519 b a) (Z25519 d c), M25519 (A25519 b a) (A25519 d c),
      M25519 (A25519 d c) (Z25519 d c), M25519 (Z25519 b a) (A25519 b a))"
    by (simp add: p q Let_def a_def b_def c_def d_def)
  show "pt_red (ed_add p q)" unfolding add using ba dc by simp
  define A where "A = (fres p1 - fres p0) * (fres q1 - fres q0)"
  define B where "B = (fres p1 + fres p0) * (fres q1 + fres q0)"
  define C where "C = 2 * fres p3 * fres q3 * ed_d"
  define D where "D = 2 * fres p2 * fres q2"
  have r: "fres a = A mod P25519" "fres b = B mod P25519" "fres c = C mod P25519" "fres d = D mod P25519"
    unfolding ra rb rc rd A_def B_def C_def D_def by (simp_all add: algebra_simps)
  have "pt_res (ed_add p q) = ((B - A) * (D - C) mod P25519, (B + A) * (D + C) mod P25519,
      (D + C) * (D - C) mod P25519, (B - A) * (B + A) mod P25519)"
    unfolding add using ba dc by (simp add: fres_M r residue)
  also have "\<dots> = r_add (pt_res p) (pt_res q)"
    by (simp add: p q Let_def A_def B_def C_def D_def mult.commute)
  finally show "pt_res (ed_add p q) = r_add (pt_res p) (pt_res q)" .
qed

section \<open>Scalar multiplication\<close>

lemma gf_small_range: "gf_small a \<Longrightarrow> x \<in> set a \<Longrightarrow> - 2147483648 \<le> x \<and> x < 2147483648"
  by (fastforce simp: gf_le_def)

lemma sel25519_red:
  assumes "gf_small p" "gf_small q"
  shows "sel25519 p q (if b then 1 else 0) = (if b then (q, p) else (p, q))"
  using sel25519_value [of p q] assms gf_small_range by (auto simp: gf_le_def)

lemma ed_cswap_value: "pt_red p \<Longrightarrow> pt_red q \<Longrightarrow> ed_cswap p q (if b then 1 else 0) = (if b then (q, p) else (p, q))"
  by (cases p; cases q) (simp add: sel25519_red)

lemma scalar_bit_value: "i < 8 * length s \<Longrightarrow> scalar_bit s i = (if bit (le_val s) i then 1 else 0)"
proof -
  assume "i < 8 * length s"
  then have i: "i div 8 < length s" by (simp add: less_mult_imp_div_less mult.commute)
  have "drop_bit (i mod 8) (u8 s (i div 8)) AND 1 = of_bool (bit (u8 s (i div 8)) (i mod 8))"
    by (rule bit_word_eqI) (auto simp: bit_simps)
  then show ?thesis using i by (simp add: scalar_bit_def bit_le_val u8_def)
qed

lemma scalarmult_step_value:
  assumes "pt_red p" "pt_red q" "i < 8 * length s" "scalarmult_step s i (p, q) = (p', q')"
  shows "pt_red p' \<and> pt_red q' \<and> (pt_res p', pt_res q') = r_step (bit (le_val s) i) (pt_res p, pt_res q)"
proof -
  have comm: "r_add x y = r_add y x" for x y
    by (cases x; cases y) (simp add: Let_def ac_simps)
  note add = ed_add_value [OF assms(1,2)] ed_add_value [OF assms(2,1)] ed_add_value [OF assms(1,1)] ed_add_value [OF assms(2,2)]
  define b where "b = bit (le_val s) i"
  have sb: "scalar_bit s i = (if b then 1 else 0)" unfolding b_def by (rule scalar_bit_value [OF assms(3)])
  have cs: "ed_cswap x y 1 = (y, x)" "ed_cswap x y 0 = (x, y)" if "pt_red x" "pt_red y" for x y
    using ed_cswap_value [OF that, of True] ed_cswap_value [OF that, of False] by simp_all
  have "scalarmult_step s i (p, q) = (if b then (ed_add p q, ed_add q q) else (ed_add p p, ed_add q p))"
    unfolding scalarmult_step_def prod.case Let_def sb
    using add assms(1,2) cs by (cases b) (simp_all only: if_True if_False prod.case)
  then have "(p', q') = (if b then (ed_add p q, ed_add q q) else (ed_add p p, ed_add q p))"
    using assms(4) by simp
  then show ?thesis
    unfolding b_def [symmetric] using add comm [of "pt_res q" "pt_res p"]
    by (cases b) (simp_all only: r_step_def prod.case prod.inject if_True if_False simp_thms)
qed

lemma scalarmult_steps:
  assumes "pt_red p" "pt_red q" "\<forall>i\<in>set is. i < 8 * length s" "fold (scalarmult_step s) is (p, q) = (p', q')"
  shows "pt_red p' \<and> pt_red q' \<and> (pt_res p', pt_res q') = fold (\<lambda>i. r_step (bit (le_val s) i)) is (pt_res p, pt_res q)"
  using assms
proof (induction "is" arbitrary: p q)
  case (Cons i "is")
  obtain p1 q1 where s: "scalarmult_step s i (p, q) = (p1, q1)" by (cases "scalarmult_step s i (p, q)") auto
  have v: "pt_red p1 \<and> pt_red q1 \<and> (pt_res p1, pt_res q1) = r_step (bit (le_val s) i) (pt_res p, pt_res q)"
    using Cons.prems by (intro scalarmult_step_value [OF _ _ _ s]) simp_all
  have "pt_red p' \<and> pt_red q' \<and> (pt_res p', pt_res q') = fold (\<lambda>i. r_step (bit (le_val s) i)) is (pt_res p1, pt_res q1)"
    using v Cons.prems(3,4) s by (intro Cons.IH) simp_all
  with v show ?case by simp
qed simp

lemma scalar_bit_take: "i < 256 \<Longrightarrow> scalar_bit (take 32 s) i = scalar_bit s i"
proof -
  assume "i < 256"
  then have "i div 8 < 32" by simp
  then show ?thesis by (simp add: scalar_bit_def u8_take)
qed

lemma ed_scalarmult_value:
  assumes "pt_red q" "32 \<le> length s"
  shows "pt_res (ed_scalarmult q s) = r_mul (le_val (take 32 s)) (pt_res q)" "pt_red (ed_scalarmult q s)"
proof -
  let ?o = "(gf0, gf1, gf1, gf0)"
  have o: "pt_red ?o" "pt_res ?o = (0, 1, 1, 0)" by (simp_all add: fres_constants)
  have "fold (scalarmult_step s) (rev [0..<256]) (?o, q) = fold (scalarmult_step (take 32 s)) (rev [0..<256]) (?o, q)"
    by (rule fold_cong) (simp_all add: scalarmult_step_def scalar_bit_take)
  moreover obtain p' q' where f: "fold (scalarmult_step (take 32 s)) (rev [0..<256]) (?o, q) = (p', q')"
    by (cases "fold (scalarmult_step (take 32 s)) (rev [0..<256]) (?o, q)") auto
  moreover have "pt_red p' \<and> pt_red q' \<and> (pt_res p', pt_res q')
      = fold (\<lambda>i. r_step (bit (le_val (take 32 s)) i)) (rev [0..<256]) (pt_res ?o, pt_res q)"
    by (rule scalarmult_steps [OF o(1) assms(1) _ f]) (use assms(2) in simp)
  ultimately show "pt_res (ed_scalarmult q s) = r_mul (le_val (take 32 s)) (pt_res q)" "pt_red (ed_scalarmult q s)"
    unfolding ed_scalarmult_def r_mul_def o(2) by (metis fst_conv)+
qed

lemma base_point: "pt_red (gf_X, gf_Y, gf1, M25519 gf_X gf_Y)" "pt_res (gf_X, gf_Y, gf1, M25519 gf_X gf_Y) = ed_base"
proof -
  show "pt_red (gf_X, gf_Y, gf1, M25519 gf_X gf_Y)" by simp
  have "fres gf_X = fval gf_X" "fres gf_Y = fval gf_Y"
    using fval_XY unfolding ed_base_def Let_def by (simp_all add: fres_def P25519_num)
  then show "pt_res (gf_X, gf_Y, gf1, M25519 gf_X gf_Y) = ed_base"
    using fval_XY by (simp add: fres_M fres_constants)
qed

lemma ed_scalarbase_value:
  "32 \<le> length s \<Longrightarrow> pt_res (ed_scalarbase s) = r_mul (le_val (take 32 s)) ed_base \<and> pt_red (ed_scalarbase s)"
  using ed_scalarmult_value [OF base_point(1)] by (simp only: ed_scalarbase_def base_point(2)) 

section \<open>Packing points\<close>

lemma le_val_update:
  "i < length b \<Longrightarrow> le_val (b[i := x]) + 256 ^ i * unat (b ! i) = le_val b + 256 ^ i * unat x"
proof (induction b arbitrary: i)
  case (Cons y b)
  show ?case
  proof (cases i)
    case (Suc j)
    with Cons have "le_val (b[j := x]) + 256 ^ j * unat (b ! j) = le_val b + 256 ^ j * unat x" by simp
    then have "256 * (le_val (b[j := x]) + 256 ^ j * unat (b ! j)) = 256 * (le_val b + 256 ^ j * unat x)" by simp
    with Suc show ?thesis by (simp add: algebra_simps)
  qed simp
qed simp

lemma unat_set_top: "unat (w :: 8 word) < 128 \<Longrightarrow> b = 0 \<or> b = 1 \<Longrightarrow> unat (w XOR push_bit 7 b) = unat w + 128 * unat b"
proof -
  assume w: "unat w < 128" and b: "b = 0 \<or> b = 1"
  have "\<not> bit w 7" using not_bit_above [of "unat w" 7 7] w by (simp add: bit_unsigned_iff)
  then have "\<not> bit (w AND push_bit 7 1) n" for n
    using bit_imp_le_length [of w n] unfolding bit_and_iff bit_push_bit_iff bit_1_iff
    by (cases "n = 7") auto
  then have "w AND push_bit 7 1 = 0" by (intro bit_word_eqI) simp
  then have "w XOR push_bit 7 1 = w + push_bit 7 1"
    by (metis add.right_neutral disjunctive_add_eq_or disjunctive_add_eq_xor)
  moreover have "unat (w + 128) = unat w + 128" using w by (simp add: unat_word_ariths)
  ultimately show ?thesis using b by auto
qed

lemma ed_pack_value: "pt_red p \<Longrightarrow> ed_pack p = r_pack (pt_res p) \<and> length (ed_pack p) = 32"
proof -
  assume red: "pt_red p"
  obtain p0 p1 p2 p3 where p: "p = (p0, p1, p2, p3)" by (cases p) auto
  define tx where "tx = M25519 p0 (inv25519 p2)"
  define ty where "ty = M25519 p1 (inv25519 p2)"
  have i: "gf_small (inv25519 p2)" using red inv25519_value(2) by (simp add: p gf_red_le)
  have ok: "gf_ok tx" "gf_ok ty"
    using red i by (simp_all add: p tx_def ty_def)
  have x: "fres tx = fres p0 * fres p2 ^ (2 ^ 255 - 21) mod P25519" "fres ty = fres p1 * fres p2 ^ (2 ^ 255 - 21) mod P25519"
    using red i by (simp_all only: p tx_def ty_def pt_red.simps fres_M gf_small_ok fres_inv residue)
  let ?r = "pack25519 ty" and ?b = "word_of_int (fres tx mod 2) :: 8 word"
  have r: "?r = le_bytes 32 (nat (fres ty))" "length ?r = 32" using ok(2) by (simp_all add: pack25519_fres)
  have rv: "le_val ?r = nat (fres ty)" using le_bytes_residue [of ty] unfolding r(1) by (metis nat_int)
  have "le_val ?r < 2 ^ 255" unfolding rv using fres_range [of ty] by (simp add: P25519_def)
  then have t: "unat (?r ! 31) < 128"
    using le_val_digit [of 31 ?r] r(2) by (simp add: less_mult_imp_div_less)
  have bb: "?b = 0 \<or> ?b = 1" "unat ?b = nat (fres tx mod 2)"
    by (cases "fres tx mod 2 = 0"; simp add: not_mod_2_eq_0_eq_1)+
  have e: "ed_pack p = ?r[31 := u8 ?r 31 XOR push_bit 7 ?b]"
    by (simp add: p Let_def tx_def [symmetric] ty_def [symmetric] par25519_value [OF ok(1)])
  have "le_val (ed_pack p) = le_val ?r + 256 ^ 31 * (128 * unat ?b)"
    using le_val_update [of 31 ?r "?r ! 31 XOR push_bit 7 ?b"] unat_set_top [OF t bb(1)] r(2)
    unfolding e by (simp add: u8_def algebra_simps)
  then have v: "le_val (ed_pack p) = nat (fres ty) + 2 ^ 255 * nat (fres tx mod 2)" by (simp add: rv bb(2))
  have "0 \<le> fres tx mod 2" by simp
  then have "le_val (ed_pack p) = nat (fres ty + 2 ^ 255 * (fres tx mod 2))"
    using fres_range(1) [of ty] unfolding v by (simp add: nat_add_distrib nat_mult_distrib)
  moreover have "length (ed_pack p) = 32" using e r(2) by simp
  moreover have "le_val (ed_pack p) < 256 ^ 32" using le_val_less [of "ed_pack p"] calculation(2) by simp
  ultimately have "ed_pack p = le_bytes 32 (nat (fres ty + 2 ^ 255 * (fres tx mod 2)))"
    by (intro le_bytes_unique) simp_all
  then show ?thesis using \<open>length (ed_pack p) = 32\<close> by (simp add: p Let_def x)
qed

end
