(* ===== verification/Ed25519Sign.thy ===== *)
theory Ed25519Sign
  imports Ed25519Spec
begin

text \<open>
  Scalars as numbers (clamping, the scalar of a signature) and \<open>crypto_sign\<close>: the signature of RFC 8032.
\<close>

section \<open>Scalars\<close>

lemma length_clamp_scalar [simp]: "length (clamp_scalar d) = length d"
  by (simp add: clamp_scalar_def Let_def)

lemma clamp_scalar_parts:
  assumes "32 \<le> length d"
  shows "take 32 (clamp_scalar d) = clamp_scalar (take 32 d)" "drop 32 (clamp_scalar d) = drop 32 d"
  using assms by (simp_all add: clamp_scalar_def Let_def take_update_swap u8_def)

lemma byte_masks: "248 = push_bit 3 (mask 5 :: 8 word)" "127 = (mask 7 :: 8 word)" "64 = push_bit 6 (1 :: 8 word)"
  by (simp_all add: mask_eq_exp_minus_1 push_bit_eq_mult)

lemma bit_clamp_num: "bit (clamp_num n) k \<longleftrightarrow> k = 254 \<or> (3 \<le> k \<and> k < 254 \<and> bit n k)"
proof -
  have m: "(2 ^ 254 - 8 :: nat) = push_bit 3 (mask 251)"
    by (simp add: mask_eq_exp_minus_1 push_bit_eq_mult)
  show ?thesis
    unfolding clamp_num_def m bit_or_iff bit_and_iff bit_push_bit_iff bit_mask_iff bit_exp_iff
    by (auto simp: possible_bit_def)
qed

lemma clamp_scalar_nth:
  assumes "length b = 32" "i < 32"
  shows "bit (clamp_scalar b ! i) j \<longleftrightarrow> j < 8 \<and>
    (if i = 0 then 3 \<le> j \<and> bit (b ! 0) j else if i = 31 then j = 6 \<or> (j < 7 \<and> bit (b ! 31) j) else bit (b ! i) j)"
proof -
  have n: "clamp_scalar b ! i = (if i = 0 then b ! 0 AND 248 else if i = 31 then (b ! 31 AND 127) OR 64 else b ! i)"
    using assms by (simp add: clamp_scalar_def Let_def u8_def nth_list_update)
  have "bit (w AND 248) j \<longleftrightarrow> j < 8 \<and> 3 \<le> j \<and> bit w j" for w :: "8 word"
    unfolding byte_masks bit_and_iff bit_push_bit_iff bit_mask_iff using bit_imp_le_length [of w j]
    by auto
  moreover have "bit ((w AND 127) OR 64) j \<longleftrightarrow> j < 8 \<and> (j = 6 \<or> j < 7 \<and> bit w j)" for w :: "8 word"
    unfolding byte_masks bit_or_iff bit_and_iff bit_push_bit_iff bit_mask_iff bit_1_iff
    using bit_imp_le_length [of w j] by auto
  ultimately show ?thesis using bit_imp_le_length [of "b ! i" j] by (auto simp: n)
qed

lemma le_val_clamp: "length b = 32 \<Longrightarrow> le_val (clamp_scalar b) = clamp_num (le_val b)"
proof (rule bit_eqI)
  fix k assume b: "length b = 32"
  show "bit (le_val (clamp_scalar b)) k \<longleftrightarrow> bit (clamp_num (le_val b)) k"
  proof (cases "k < 256")
    case False
    then have "\<not> k div 8 < 32" by linarith
    with False b show ?thesis by (simp add: bit_le_val bit_clamp_num)
  next
    case True
    then have k: "k div 8 < 32" "k mod 8 < 8" "k = 8 * (k div 8) + k mod 8" by simp_all
    have z: "k div 8 = 0 \<longleftrightarrow> k < 8" "k < 8 \<Longrightarrow> k mod 8 = k" by auto
    have t: "k div 8 = 31 \<Longrightarrow> k = 248 + k mod 8" using k(3) by simp
    show ?thesis
      unfolding bit_le_val bit_clamp_num length_clamp_scalar b clamp_scalar_nth [OF b k(1)]
      using k t z by (cases "k div 8 = 0"; cases "k div 8 = 31") auto
  qed
qed

section \<open>The scalar of a signature\<close>

lemma sign_row_nth:
  fixes f :: "nat \<Rightarrow> int"
  assumes "length x = 64" "i < 32"
  shows "length (fold (\<lambda>j x. x[i + j := x ! (i + j) + f j]) [0..<n] x) = 64"
    "n \<le> 32 \<Longrightarrow> k < 64 \<Longrightarrow> fold (\<lambda>j x. x[i + j := x ! (i + j) + f j]) [0..<n] x ! k
      = x ! k + (if i \<le> k \<and> k < i + n then f (k - i) else 0)"
proof (induction n)
  case (Suc n)
  { case 1 show ?case using Suc.IH(1) by simp }
  { case 2
    have l: "length (fold (\<lambda>j x. x[i + j := x ! (i + j) + f j]) [0..<n] x) = 64" by (rule Suc.IH(1))
    from 2 Suc.IH(2) show ?case
      using l assms(2) by (cases "k = i + n") (auto simp: nth_list_update) }
qed (use assms in simp_all)

lemma bval_sum: "bval xs = (\<Sum>i<length xs. xs ! i * 256 ^ i)"
proof (induction xs)
  case (Cons x xs)
  have "256 * bval xs = (\<Sum>i<length xs. xs ! i * 256 ^ Suc i)"
    by (simp only: Cons.IH sum_distrib_left) (simp add: ac_simps)
  then show ?case by (simp only: bval.simps length_Cons sum.lessThan_Suc_shift) simp
qed simp

lemma sum_u8: "(\<Sum>j<32. uint (u8 d j) * 256 ^ j) = int (le_val (take 32 d))" if "32 \<le> length d"
proof -
  have "int (le_val (take 32 d)) = (\<Sum>j<32. map uint (take 32 d) ! j * 256 ^ j)"
    unfolding bval_uint [symmetric] bval_sum using that by simp
  also have "\<dots> = (\<Sum>j<32. uint (u8 d j) * 256 ^ j)"
    by (rule sum.cong) (use that in \<open>simp_all add: u8_def\<close>)
  finally show ?thesis by simp
qed

lemma sign_row_value:
  assumes "length x = 64" "i < 32" "32 \<le> length d"
  shows "length (sign_row h d i x) = 64"
    "bval (sign_row h d i x) = bval x + 256 ^ i * (uint (u8 h i) * int (le_val (take 32 d)))"
    "\<And>k. k < 64 \<Longrightarrow> 0 \<le> sign_row h d i x ! k - x ! k \<and> sign_row h d i x ! k - x ! k \<le> 65025"
proof -
  let ?f = "\<lambda>j. uint (u8 h i) * uint (u8 d j)"
  have nth: "sign_row h d i x ! k = x ! k + (if i \<le> k \<and> k < i + 32 then ?f (k - i) else 0)" if "k < 64" for k
    unfolding sign_row_def using sign_row_nth(2) [OF assms(1,2), of 32 k ?f] that by simp
  show l: "length (sign_row h d i x) = 64"
    unfolding sign_row_def by (rule sign_row_nth(1) [OF assms(1,2)])
  have b: "0 \<le> uint w \<and> uint w \<le> 255" for w :: "8 word" using uint_bounded [of w] by simp
  have "0 \<le> ?f j \<and> ?f j \<le> 255 * 255" for j using b by (intro conjI mult_nonneg_nonneg mult_mono) simp_all
  then show "0 \<le> sign_row h d i x ! k - x ! k \<and> sign_row h d i x ! k - x ! k \<le> 65025" if "k < 64" for k
    unfolding nth [OF that] by simp
  have "bval (sign_row h d i x) = (\<Sum>k<64. x ! k * 256 ^ k + (if i \<le> k \<and> k < i + 32 then ?f (k - i) * 256 ^ k else 0))"
    unfolding bval_sum l by (rule sum.cong) (simp_all add: nth algebra_simps)
  also have "\<dots> = bval x + (\<Sum>k<64. if i \<le> k \<and> k < i + 32 then ?f (k - i) * 256 ^ k else 0)"
    by (simp add: sum.distrib bval_sum assms(1))
  also have "(\<Sum>k<64. if i \<le> k \<and> k < i + 32 then ?f (k - i) * 256 ^ k else 0) = (\<Sum>k\<in>{i..<i + 32}. ?f (k - i) * 256 ^ k)"
    using assms(2) by (intro sum.mono_neutral_cong_right) auto
  also have "\<dots> = (\<Sum>j<32. ?f j * 256 ^ (j + i))"
    using sum.shift_bounds_nat_ivl [of "\<lambda>k. ?f (k - i) * 256 ^ k" 0 i 32] by (simp add: lessThan_atLeast0 add.commute)
  also have "\<dots> = 256 ^ i * (uint (u8 h i) * (\<Sum>j<32. uint (u8 d j) * 256 ^ j))"
    by (simp add: sum_distrib_left power_add ac_simps)
  finally show "bval (sign_row h d i x) = bval x + 256 ^ i * (uint (u8 h i) * int (le_val (take 32 d)))"
    unfolding sum_u8 [OF assms(3)] .
qed

lemma sign_rows_value:
  fixes h :: bytes
  assumes "length x = 64" "32 \<le> length d" "n \<le> 32" "\<forall>k<64. 0 \<le> x ! k \<and> x ! k \<le> 255"
  defines "y \<equiv> fold (sign_row h d) [0..<n] x"
  shows "length y = 64 \<and> bval y = bval x + (\<Sum>i<n. uint (u8 h i) * 256 ^ i) * int (le_val (take 32 d))
    \<and> (\<forall>k<64. 0 \<le> y ! k \<and> y ! k \<le> 255 + int n * 65025)"
  using assms(3) unfolding y_def
proof (induction n)
  case (Suc n)
  let ?z = "fold (sign_row h d) [0..<n] x"
  have IH: "length ?z = 64" "bval ?z = bval x + (\<Sum>i<n. uint (u8 h i) * 256 ^ i) * int (le_val (take 32 d))"
    "\<forall>k<64. 0 \<le> ?z ! k \<and> ?z ! k \<le> 255 + int n * 65025" using Suc by simp_all
  note r = sign_row_value [OF IH(1) _ assms(2), where i = n and h = h]
  have "0 \<le> sign_row h d n ?z ! k \<and> sign_row h d n ?z ! k \<le> 255 + int (Suc n) * 65025" if "k < 64" for k
    using r(3) [OF _ that] IH(3) that Suc.prems by fastforce
  then show ?case using r(1,2) IH(2) Suc.prems by (simp add: algebra_simps)
qed (use assms in simp)

section \<open>Signatures\<close>

definition ed_sign_spec :: "bytes \<Rightarrow> bytes \<Rightarrow> bytes" where
  "ed_sign_spec m sk =
     (let h = sha512_spec (take 32 sk); a = clamp_num (le_val (take 32 h)); prefix = drop 32 h;
          r = le_val (sha512_spec (prefix @ m)) mod order;
          R = r_pack (r_mul r ed_base);
          k = le_val (sha512_spec (R @ drop 32 sk @ m)) mod order
      in R @ le_bytes 32 ((r + k * a) mod order))"

definition ed_public_spec :: "bytes \<Rightarrow> bytes" where
  "ed_public_spec seed = r_pack (r_mul (clamp_num (le_val (take 32 (sha512_spec seed)))) ed_base)"

lemma order_eq: "nat N25519 = order" "int order = N25519" "0 < order" "order < 256 ^ 32"
  by (simp_all add: N25519_def order_def)

lemma length_crypto_hash [simp]: "length (crypto_hash m) = 64"
  by (simp add: crypto_hash_eq)

lemma reduce_hash:
  "reduce25519 (crypto_hash m) = le_bytes 32 (le_val (sha512_spec m) mod order) @ replicate 32 0"
  by (simp add: reduce25519_value order_eq(1)) (simp add: crypto_hash_eq)

lemma le_val_reduced: "le_val (take 32 (le_bytes 32 (n mod order) @ replicate 32 0)) = n mod order"
proof -
  have "n mod order < 256 ^ 32"
    using mod_less_divisor [OF order_eq(3), of n] order_eq(4) by linarith
  then show ?thesis by (simp add: le_val_le_bytes)
qed

lemma scalarbase_pack:
  "32 \<le> length s \<Longrightarrow> ed_pack (ed_scalarbase s) = r_pack (r_mul (le_val (take 32 s)) ed_base) \<and> length (ed_pack (ed_scalarbase s)) = 32"
  using ed_scalarbase_value [of s] ed_pack_value by metis

lemma length_r_pack [simp]: "length (r_pack p) = 32"
  by (cases p) (simp add: Let_def)

lemma scalar_of_signature:
  assumes "32 \<le> length r" "32 \<le> length h" "32 \<le> length d"
  defines "x \<equiv> fold (sign_row h d) [0..<32] (map (\<lambda>i. if i < 32 then uint (u8 r i) else 0) [0..<64])"
  shows "modL x = le_bytes 32 ((le_val (take 32 r) + le_val (take 32 h) * le_val (take 32 d)) mod order)"
proof -
  let ?x = "map (\<lambda>i. if i < 32 then uint (u8 r i) else 0) [0..<64] :: int list"
  have b: "0 \<le> uint w \<and> uint w \<le> 255" for w :: "8 word" using uint_bounded [of w] by simp
  have "?x = map uint (take 32 r) @ replicate 32 0"
    by (rule nth_equalityI) (use assms(1) in \<open>simp_all add: nth_append u8_def\<close>)
  then have xv: "bval ?x = int (le_val (take 32 r))" by (simp add: bval_append bval_uint)
  have "\<forall>k<64. 0 \<le> ?x ! k \<and> ?x ! k \<le> 255" using b by simp
  from sign_rows_value [OF _ assms(3) order_refl this, of h]
  have x: "length x = 64" "bval x = bval ?x + (\<Sum>i<32. uint (u8 h i) * 256 ^ i) * int (le_val (take 32 d))"
    "\<forall>k<64. 0 \<le> x ! k \<and> x ! k \<le> 255 + int 32 * 65025"
    unfolding x_def by simp_all
  have "row_start x" using x(1,3) by (auto simp: row_start_def)
  then have "modL x = le_bytes 32 (nat (bval x mod N25519))" by (rule modL_value)
  also have "bval x = int (le_val (take 32 r) + le_val (take 32 h) * le_val (take 32 d))"
    unfolding x(2) xv sum_u8 [OF assms(2)] by simp
  also have "nat (int (le_val (take 32 r) + le_val (take 32 h) * le_val (take 32 d)) mod N25519)
      = (le_val (take 32 r) + le_val (take 32 h) * le_val (take 32 d)) mod order"
    unfolding order_eq(2) [symmetric] zmod_int [symmetric] by (rule nat_int)
  finally show ?thesis .
qed

lemma crypto_sign_value: "crypto_sign m sk = ed_sign_spec m sk @ m"
proof -
  let ?d = "clamp_scalar (crypto_hash (take 32 sk))"
  have d: "take 32 ?d = clamp_scalar (take 32 (sha512_spec (take 32 sk)))" "drop 32 ?d = drop 32 (sha512_spec (take 32 sk))"
    using clamp_scalar_parts [of "crypto_hash (take 32 sk)"] by (simp_all add: crypto_hash_eq)
  have a: "le_val (take 32 ?d) = clamp_num (le_val (take 32 (sha512_spec (take 32 sk))))"
    unfolding d(1) by (rule le_val_clamp) simp
  define r where "r = reduce25519 (crypto_hash (drop 32 ?d @ m))"
  define R where "R = ed_pack (ed_scalarbase r)"
  define h where "h = reduce25519 (crypto_hash (R @ drop 32 sk @ m))"
  have r: "le_val (take 32 r) = le_val (sha512_spec (drop 32 (sha512_spec (take 32 sk)) @ m)) mod order" "32 \<le> length r"
    unfolding r_def reduce_hash d(2) by (simp_all add: le_val_reduced del: take_append)
  have R: "R = r_pack (r_mul (le_val (take 32 r)) ed_base)" using scalarbase_pack [OF r(2)] by (simp add: R_def)
  have h: "le_val (take 32 h) = le_val (sha512_spec (R @ drop 32 sk @ m)) mod order" "32 \<le> length h"
    unfolding h_def reduce_hash by (simp_all add: le_val_reduced del: take_append)
  have "crypto_sign m sk = R @ le_bytes 32 ((le_val (take 32 r) + le_val (take 32 h) * le_val (take 32 ?d)) mod order) @ m"
    unfolding crypto_sign_def Let_def r_def [symmetric] R_def [symmetric] h_def [symmetric]
    by (subst scalar_of_signature) (use r(2) h(2) in simp_all)
  also have "\<dots> = ed_sign_spec m sk @ m"
    unfolding a h(1) unfolding R r(1) by (simp add: ed_sign_spec_def Let_def)
  finally show ?thesis .
qed

lemma length_ed_sign_spec [simp]: "length (ed_sign_spec m sk) = 64"
  by (simp add: ed_sign_spec_def Let_def)

lemma sign_detached_value: "length sk = 64 \<Longrightarrow> sign_detached m sk = Inr (ed_sign_spec m sk)"
  by (simp add: sign_detached_def nacl_sign_def crypto_sign_value)

lemma keypair_value: "crypto_sign_keypair seed = (ed_public_spec seed, seed @ ed_public_spec seed)"
proof -
  let ?d = "clamp_scalar (crypto_hash seed)"
  have "le_val (take 32 ?d) = clamp_num (le_val (take 32 (sha512_spec seed)))"
    using clamp_scalar_parts [of "crypto_hash seed"] by (simp add: crypto_hash_eq le_val_clamp)
  then have "ed_pack (ed_scalarbase ?d) = ed_public_spec seed"
    using scalarbase_pack [of ?d] by (simp add: ed_public_spec_def)
  then show ?thesis by (simp add: crypto_sign_keypair_def Let_def)
qed

lemma length_ed_public_spec [simp]: "length (ed_public_spec seed) = 32"
  by (simp add: ed_public_spec_def)

end
