(* ===== verification/Ed25519Verify.thy ===== *)
theory Ed25519Verify
  imports Ed25519Sign
begin

text \<open>
  Public keys as points (\<open>unpackneg\<close>), the verification of signatures, and the curve equation: addition
  keeps it, so all points the code computes are on the curve.
\<close>

section \<open>Decompression\<close>

text \<open>The negated point of a public key, as \<open>unpackneg\<close> computes it.\<close>

definition r_unpackneg :: "bytes \<Rightarrow> rpoint option" where
  "r_unpackneg p =
     (let y = int (le_val p) mod 2 ^ 255 mod P25519;
          u = (y ^ 2 - 1) mod P25519; v = (1 + ed_d * y ^ 2) mod P25519;
          x = u * v ^ 3 * (u * v ^ 7) ^ (2 ^ 252 - 3) mod P25519;
          x = (if v * x ^ 2 mod P25519 = u then x else x * sqrt_m1 mod P25519)
      in if v * x ^ 2 mod P25519 \<noteq> u then None
         else let x = (if (x mod 2 = 1) = (2 ^ 255 \<le> le_val p) then (- x) mod P25519 else x)
              in Some (x, y, 1, x * y mod P25519))"

lemma le_val_top: "length p = 32 \<Longrightarrow> drop_bit 7 (u8 p 31) = (if 2 ^ 255 \<le> le_val p then 1 else 0)"
proof -
  assume l: "length p = 32"
  have "bit (drop_bit 7 (u8 p 31)) k \<longleftrightarrow> k = 0 \<and> bit (u8 p 31) 7" for k
    using bit_imp_le_length [of "u8 p 31" "7 + k"] by (cases k) (auto simp: bit_simps)
  then have d: "drop_bit 7 (u8 p 31) = (if bit (u8 p 31) 7 then 1 else 0)"
    by (intro bit_word_eqI) (auto simp: bit_simps)
  have "bit (u8 p 31) 7 \<longleftrightarrow> bit (le_val p) 255" using l by (simp add: bit_le_val u8_def)
  also have "\<dots> \<longleftrightarrow> 2 ^ 255 \<le> le_val p"
  proof -
    have "le_val p < 2 ^ 256" using le_val_less [of p] l by simp
    then have "le_val p div 2 ^ 255 = (if 2 ^ 255 \<le> le_val p then 1 else 0)"
      by (simp add: div_nat_eqI)
    then show ?thesis by (simp add: bit_iff_odd)
  qed
  finally show ?thesis using d by simp
qed

lemma neg_value: "gf_small a \<Longrightarrow> gf_small (Z25519 gf0 a) \<and> fres (Z25519 gf0 a) = (- fres a) mod P25519"
proof -
  assume a: "gf_small a"
  have "gf_le 0 gf0" by (simp add: gf_le_def gf_short)
  then show ?thesis using A25519_value(4) [of 0 gf0 65573 a] fres_Z [of 0 gf0 65573 a] a by (simp add: fres_constants)
qed

lemma par25519_one: "gf_ok a \<Longrightarrow> par25519 a = (if fres a mod 2 = 1 then 1 else 0)"
  by (cases "fres a mod 2 = 1") (simp_all add: par25519_value not_mod_2_eq_1_eq_0)

lemma S25519_small: "gf_ok a \<Longrightarrow> gf_small (S25519 a)"
  by (rule gf_red_le [OF S25519_value(2)])

lemma unpackneg_value:
  assumes "length p = 32"
  shows "map_option pt_res (unpackneg p) = r_unpackneg p" "\<And>q. unpackneg p = Some q \<Longrightarrow> pt_red q"
proof -
  define r1 where "r1 = unpack25519 p"
  define num where "num = Z25519 (S25519 r1) gf1"
  define den where "den = A25519 gf1 (M25519 (S25519 r1) gf_D)"
  define den6 where "den6 = M25519 (S25519 (S25519 den)) (S25519 den)"
  define t where "t = pow2523 (M25519 (M25519 den6 num) den)"
  define x0 where "x0 = M25519 (M25519 (M25519 (M25519 t num) den) den) den"
  define x1 where "x1 = (if neq25519 (M25519 (S25519 x0) den) num \<noteq> 0 then M25519 x0 gf_I else x0)"
  define x2 where "x2 = (if par25519 x1 = drop_bit 7 (u8 p 31) then Z25519 gf0 x1 else x1)"
  define y where "y = int (le_val p) mod 2 ^ 255 mod P25519"
  define u where "u = (y ^ 2 - 1) mod P25519"
  define v where "v = (1 + ed_d * y ^ 2) mod P25519"
  have r1: "gf_small r1" "fres r1 = y"
    using unpack25519_value [OF assms] digits_red by (simp_all add: r1_def gf_red_le fres_def y_def)
  have s: "gf_small (S25519 r1)" "fres (S25519 r1) = y ^ 2 mod P25519"
    using r1 by (simp_all add: S25519_small fres_S)
  have num: "gf_le 131146 num" "gf_ok num" "fres num = u"
    using gf_sums [OF s(1) constants_small(2)] fres_Z [OF s(1) constants_small(2)]
    by (simp_all add: num_def s(2) fres_constants u_def residue)
  have m: "gf_small (M25519 (S25519 r1) gf_D)" "fres (M25519 (S25519 r1) gf_D) = ed_d * y ^ 2 mod P25519"
    using s by (simp_all add: fres_M fres_constants residue mult.commute)
  have den: "gf_ok den" "fres den = v"
    using gf_sums [OF constants_small(2) m(1)] fres_A [OF constants_small(2) m(1)]
    by (simp_all add: den_def m(2) fres_constants v_def residue)
  have den6: "gf_small den6" "fres den6 = v ^ 6 mod P25519"
    using den by (simp_all add: den6_def S25519_small fres_M fres_S residue flip: power_mult power_add)
  have tt: "fres (M25519 (M25519 den6 num) den) = u * v ^ 7 mod P25519"
  proof -
    have "fres (M25519 (M25519 den6 num) den) = v ^ 6 * u * v mod P25519"
      using den6 num den by (simp add: fres_M residue)
    also have "v ^ 6 * u * v = u * v ^ 7" by (simp add: power_Suc [symmetric] ac_simps eval_nat_numeral)
    finally show ?thesis .
  qed
  have t: "gf_small t" "fres t = (u * v ^ 7) ^ (2 ^ 252 - 3) mod P25519"
    using den6 num den pow2523_value(2) by (simp_all add: t_def fres_pow tt gf_red_le) (simp only: power_mod)
  have x0: "gf_small x0" "fres x0 = u * v ^ 3 * (u * v ^ 7) ^ (2 ^ 252 - 3) mod P25519"
  proof -
    show "gf_small x0" using t num den by (simp add: x0_def)
    have "fres x0 = fres t * u * v * v * v mod P25519" using t(1) num den by (simp add: x0_def fres_M residue)
    also have "\<dots> = u * v ^ 3 * fres t mod P25519" by (simp add: power3_eq_cube ac_simps)
    finally show "fres x0 = u * v ^ 3 * (u * v ^ 7) ^ (2 ^ 252 - 3) mod P25519" unfolding t(2) by (simp only: residue)
  qed
  have chk: "neq25519 (M25519 (S25519 x) den) num \<noteq> 0 \<longleftrightarrow> v * fres x ^ 2 mod P25519 \<noteq> u" if "gf_small x" for x
    using that den num by (simp add: neq25519_iff S25519_small fres_M fres_S residue mult.commute)
  define X1 where "X1 = (if v * fres x0 ^ 2 mod P25519 = u then fres x0 else fres x0 * sqrt_m1 mod P25519)"
  have x1: "gf_small x1" "fres x1 = X1"
    using x0(1) chk [OF x0(1)] by (auto simp: x1_def X1_def fres_M fres_constants)
  have x2: "gf_small x2" "fres x2 = (if (X1 mod 2 = 1) = (2 ^ 255 \<le> le_val p) then (- X1) mod P25519 else X1)"
    using x1 neg_value [OF x1(1)] by (auto simp: x2_def par25519_one le_val_top [OF assms])
  have un: "unpackneg p = (if neq25519 (M25519 (S25519 x1) den) num \<noteq> 0 then None else Some (x2, r1, gf1, M25519 x2 r1))"
    unfolding unpackneg_def Let_def r1_def [symmetric] num_def [symmetric] den_def [symmetric] den6_def [symmetric]
      t_def [symmetric] x0_def [symmetric] x1_def [symmetric] x2_def [symmetric] ..
  show "\<And>q. unpackneg p = Some q \<Longrightarrow> pt_red q"
    using x2(1) r1(1) by (auto simp: un split: if_splits)
  show "map_option pt_res (unpackneg p) = r_unpackneg p"
    unfolding un r_unpackneg_def Let_def y_def [symmetric] u_def [symmetric] v_def [symmetric] x0(2) [symmetric] X1_def [symmetric]
    using chk [OF x1(1)] x1(2) x2 r1 by (simp add: fres_constants fres_M)
qed

section \<open>Verification\<close>

definition ed_verify_spec :: "bytes \<Rightarrow> bytes \<Rightarrow> bytes \<Rightarrow> bool" where
  "ed_verify_spec m sig pk =
     (case r_unpackneg pk of
        None \<Rightarrow> False
      | Some q \<Rightarrow>
          let k = le_val (sha512_spec (take 32 sig @ pk @ m)) mod order
          in r_pack (r_add (r_mul k q) (r_mul (le_val (drop 32 sig)) ed_base)) = take 32 sig)"

lemma crypto_verify_32_iff: "32 \<le> length x \<Longrightarrow> length y = 32 \<Longrightarrow> crypto_verify_32 x y = 0 \<longleftrightarrow> take 32 x = y"
proof -
  assume l: "32 \<le> length x" "length y = 32"
  have "crypto_verify_32 x y = 0 \<longleftrightarrow> (\<forall>i<32. u8 (take 32 x) i = u8 y i)"
    unfolding crypto_verify_32_def vn_zero_iff by (simp add: u8_take)
  also have "\<dots> \<longleftrightarrow> take 32 x = y" by (rule u8_eq_iff) (use l in simp_all)
  finally show ?thesis .
qed

lemma crypto_sign_open_value:
  assumes "length sig = 64" "length pk = 32"
  shows "crypto_sign_open (sig @ m) pk = (if ed_verify_spec m sig pk then Some m else None)"
proof (cases "unpackneg pk")
  case None
  then have "r_unpackneg pk = None" using unpackneg_value(1) [OF assms(2)] by simp
  with None show ?thesis by (simp add: crypto_sign_open_def ed_verify_spec_def)
next
  case (Some q)
  then have q: "r_unpackneg pk = Some (pt_res q)" "pt_red q"
    using unpackneg_value [OF assms(2)] by simp_all
  define h where "h = reduce25519 (crypto_hash (take 32 sig @ pk @ m))"
  have h: "le_val (take 32 h) = le_val (sha512_spec (take 32 sig @ pk @ m)) mod order" "32 \<le> length h"
    unfolding h_def reduce_hash by (simp_all add: le_val_reduced del: take_append)
  note hq = ed_scalarmult_value [OF q(2) h(2)]
  have sb: "pt_res (ed_scalarbase (drop 32 (sig @ m))) = r_mul (le_val (drop 32 sig)) ed_base"
      "pt_red (ed_scalarbase (drop 32 (sig @ m)))"
    using ed_scalarbase_value [of "drop 32 (sig @ m)"] assms(1) by simp_all
  note p = ed_pack_value [OF ed_add_value(2) [OF hq(2) sb(2)], unfolded ed_add_value(1) [OF hq(2) sb(2)] hq(1) sb(1) h(1)]
  define t where "t = ed_pack (ed_add (ed_scalarmult q h) (ed_scalarbase (drop 32 (sig @ m))))"
  have t: "length t = 32" "t = r_pack (r_add (r_mul (le_val (sha512_spec (take 32 sig @ pk @ m)) mod order) (pt_res q))
      (r_mul (le_val (drop 32 sig)) ed_base))"
    unfolding t_def using p by (metis, blast)
  have "ed_verify_spec m sig pk \<longleftrightarrow> take 32 sig = t"
    unfolding ed_verify_spec_def q(1) option.case Let_def t(2) by (rule eq_commute)
  moreover have "crypto_verify_32 (sig @ m) t = 0 \<longleftrightarrow> take 32 sig = t"
    using crypto_verify_32_iff [OF _ t(1), of "sig @ m"] assms(1) by simp
  moreover have "crypto_sign_open (sig @ m) pk = (if crypto_verify_32 (sig @ m) t \<noteq> 0 then None else Some m)"
    using assms(1) by (simp add: crypto_sign_open_def Some Let_def h_def t_def)
  ultimately show ?thesis by simp
qed

lemma sign_detached_verify_value:
  "length sig = 64 \<Longrightarrow> length pk = 32 \<Longrightarrow> sign_detached_verify m sig pk = Inr (ed_verify_spec m sig pk)"
  by (simp add: sign_detached_verify_def crypto_sign_open_value)

section \<open>The curve\<close>

fun on_curve :: "rpoint \<Rightarrow> bool" where
  "on_curve (x, y, z, t) \<longleftrightarrow> (y * y - x * x) mod P25519 = (z * z + ed_d * (t * t)) mod P25519 \<and> x * y mod P25519 = z * t mod P25519"

lemma mod_congs:
  "a mod m = a' mod m \<Longrightarrow> b mod m = b' mod m \<Longrightarrow> (a + b) mod m = (a' + b') mod (m :: int)"
  "a mod m = a' mod m \<Longrightarrow> b mod m = b' mod m \<Longrightarrow> (a - b) mod m = (a' - b') mod (m :: int)"
  "a mod m = a' mod m \<Longrightarrow> b mod m = b' mod m \<Longrightarrow> a * b mod m = a' * b' mod (m :: int)"
  by (rule mod_add_cong mod_diff_cong mod_mult_cong; assumption)+

lemma addition_identity:
  fixes m d :: int
  assumes k1: "(y1 * y1 - x1 * x1) mod m = (z1 * z1 + d * (t1 * t1)) mod m" and p1: "x1 * y1 mod m = z1 * t1 mod m"
    and k2: "(y2 * y2 - x2 * x2) mod m = (z2 * z2 + d * (t2 * t2)) mod m" and p2: "x2 * y2 mod m = z2 * t2 mod m"
  defines "a \<equiv> z1 * z2" and "b \<equiv> d * (t1 * t2)" and "e \<equiv> x1 * y2 + x2 * y1" and "h \<equiv> y1 * y2 + x1 * x2"
  shows "((a + b) * h * ((a + b) * h) - e * (a - b) * (e * (a - b))) mod m
    = ((a - b) * (a + b) * ((a - b) * (a + b)) + d * (e * h * (e * h))) mod m"
proof -
  define s1 where "s1 = y1 * y1 + x1 * x1"
  define s2 where "s2 = y2 * y2 + x2 * x2"
  define u1 where "u1 = z1 * z1 + d * (t1 * t1)"
  define u2 where "u2 = z2 * z2 + d * (t2 * t2)"
  define q where "q = z1 * t1 * s2 + z2 * t2 * s1"
  define n1 where "n1 = u1 * u1 + 4 * (z1 * t1 * (z1 * t1))"
  define n2 where "n2 = u2 * u2 + 4 * (z2 * t2 * (z2 * t2))"
  have "h * h - e * e = (y1 * y1 - x1 * x1) * (y2 * y2 - x2 * x2)" by (simp add: h_def e_def algebra_simps)
  then have D: "(h * h - e * e) mod m = u1 * u2 mod m" unfolding u1_def u2_def by (simp only: mod_congs(3) [OF k1 k2])
  have "h * h + e * e = s1 * s2 + 4 * (x1 * y1 * (x2 * y2))" by (simp add: h_def e_def s1_def s2_def algebra_simps)
  then have S: "(h * h + e * e) mod m = (s1 * s2 + 4 * (z1 * t1 * (z2 * t2))) mod m"
    by (simp only:) (intro mod_congs refl p1 p2)
  have "e * h = x1 * y1 * s2 + x2 * y2 * s1" by (simp add: h_def e_def s1_def s2_def algebra_simps)
  then have Q: "e * h mod m = q mod m" unfolding q_def by (simp only:) (intro mod_congs refl p1 p2)
  have "s1 * s1 = (y1 * y1 - x1 * x1) * (y1 * y1 - x1 * x1) + 4 * (x1 * y1 * (x1 * y1))" by (simp add: s1_def algebra_simps)
  then have N1: "s1 * s1 mod m = n1 mod m" unfolding n1_def u1_def by (simp only:) (intro mod_congs refl k1 p1)
  have "s2 * s2 = (y2 * y2 - x2 * x2) * (y2 * y2 - x2 * x2) + 4 * (x2 * y2 * (x2 * y2))" by (simp add: s2_def algebra_simps)
  then have N2: "s2 * s2 mod m = n2 mod m" unfolding n2_def u2_def by (simp only:) (intro mod_congs refl k2 p2)
  define w where "w = z1 * t1 * (z2 * t2)"
  have "q * q = z1 * t1 * (z1 * t1) * (s2 * s2) + z2 * t2 * (z2 * t2) * (s1 * s1) + 2 * w * (s1 * s2)"
    by (simp add: q_def w_def algebra_simps)
  then have Q2: "q * q mod m = (z1 * t1 * (z1 * t1) * n2 + z2 * t2 * (z2 * t2) * n1 + 2 * w * (s1 * s2)) mod m"
    by (simp only:) (intro mod_congs refl N1 N2)
  have "(a + b) * h * ((a + b) * h) - e * (a - b) * (e * (a - b))
      = (a * a + b * b) * (h * h - e * e) + 2 * (a * b) * (h * h + e * e)"
    by (simp add: algebra_simps)
  then have "((a + b) * h * ((a + b) * h) - e * (a - b) * (e * (a - b))) mod m
      = ((a * a + b * b) * (u1 * u2) + 2 * (a * b) * (s1 * s2 + 4 * w)) mod m"
    unfolding w_def by (simp only:) (intro mod_congs refl D S)
  also have "(a * a + b * b) * (u1 * u2) + 2 * (a * b) * (s1 * s2 + 4 * w)
      = (a - b) * (a + b) * ((a - b) * (a + b))
        + d * (z1 * t1 * (z1 * t1) * n2 + z2 * t2 * (z2 * t2) * n1 + 2 * w * (s1 * s2))"
    unfolding a_def b_def w_def n1_def n2_def u1_def u2_def by (simp add: algebra_simps)
  also have "\<dots> mod m = ((a - b) * (a + b) * ((a - b) * (a + b)) + d * (q * q)) mod m"
    by (intro mod_congs refl Q2 [symmetric])
  also have "\<dots> = ((a - b) * (a + b) * ((a - b) * (a + b)) + d * (e * h * (e * h))) mod m"
    by (intro mod_congs refl Q [symmetric])
  finally show ?thesis .
qed


lemma r_add_on_curve: "on_curve p \<Longrightarrow> on_curve q \<Longrightarrow> on_curve (r_add p q)"
proof -
  assume pq: "on_curve p" "on_curve q"
  obtain x1 y1 z1 t1 where p: "p = (x1, y1, z1, t1)" by (cases p) auto
  obtain x2 y2 z2 t2 where q: "q = (x2, y2, z2, t2)" by (cases q) auto
  define a where "a = z1 * z2"
  define b where "b = ed_d * (t1 * t2)"
  define e where "e = x1 * y2 + x2 * y1"
  define h where "h = y1 * y2 + x1 * x2"
  have id: "((a + b) * h * ((a + b) * h) - e * (a - b) * (e * (a - b))) mod P25519
      = ((a - b) * (a + b) * ((a - b) * (a + b)) + ed_d * (e * h * (e * h))) mod P25519"
    unfolding a_def b_def e_def h_def by (rule addition_identity) (use pq in \<open>simp_all add: p q\<close>)
  have r: "r_add p q = (4 * (e * (a - b)) mod P25519, 4 * ((a + b) * h) mod P25519,
      4 * ((a - b) * (a + b)) mod P25519, 4 * (e * h) mod P25519)"
    unfolding p q r_add.simps Let_def prod.inject
    by (intro conjI arg_cong2 [where f = "(mod)"] refl) (simp_all add: a_def b_def e_def h_def algebra_simps)
  have "(4 * ((a + b) * h) * (4 * ((a + b) * h)) - 4 * (e * (a - b)) * (4 * (e * (a - b)))) mod P25519
      = 16 * ((a + b) * h * ((a + b) * h) - e * (a - b) * (e * (a - b))) mod P25519"
    by (simp add: algebra_simps)
  also have "\<dots> = 16 * ((a - b) * (a + b) * ((a - b) * (a + b)) + ed_d * (e * h * (e * h))) mod P25519"
    by (intro mod_congs refl id)
  also have "\<dots> = (4 * ((a - b) * (a + b)) * (4 * ((a - b) * (a + b))) + ed_d * (4 * (e * h) * (4 * (e * h)))) mod P25519"
    by (simp add: algebra_simps)
  finally have c: "(4 * ((a + b) * h) * (4 * ((a + b) * h)) - 4 * (e * (a - b)) * (4 * (e * (a - b)))) mod P25519
      = (4 * ((a - b) * (a + b)) * (4 * ((a - b) * (a + b))) + ed_d * (4 * (e * h) * (4 * (e * h)))) mod P25519" .
  have d: "4 * (e * (a - b)) * (4 * ((a + b) * h)) mod P25519 = 4 * ((a - b) * (a + b)) * (4 * (e * h)) mod P25519"
  proof -
    have "4 * (e * (a - b)) * (4 * ((a + b) * h)) = 4 * ((a - b) * (a + b)) * (4 * (e * h))" by (simp only: ac_simps)
    then show ?thesis by (rule arg_cong)
  qed
  have drop: "(y mod m * (y mod m) - x mod m * (x mod m)) mod m = (y * y - x * x) mod m"
    "(z mod m * (z mod m) + g * (t mod m * (t mod m))) mod m = (z * z + g * (t * t)) mod m"
    "x mod m * (y mod m) mod m = x * y mod m" for x y z t g m :: int
    by (intro mod_congs; simp)+
  show ?thesis unfolding r on_curve.simps drop using c d by blast
qed

lemma on_curve_neutral: "on_curve (0, 1, 1, 0)"
  by simp

lemma on_curve_base: "on_curve ed_base"
proof -
  obtain x y where b: "ed_base = (x, y, 1, x * y mod P25519)" by (simp add: ed_base_def Let_def)
  have "(y * y - x * x - 1 - ed_d * (x * x * (y * y))) mod P25519 = 0" using base_meaning by (simp add: b)
  then have "(y * y - x * x) mod P25519 = (1 + ed_d * (x * x * (y * y))) mod P25519"
    by (simp add: mod_eq_dvd_iff dvd_eq_mod_eq_0 algebra_simps)
  also have "\<dots> = (1 * 1 + ed_d * (x * y mod P25519 * (x * y mod P25519))) mod P25519"
  proof -
    have "x * x * (y * y) = x * y * (x * y)" by simp
    also have "\<dots> mod P25519 = x * y mod P25519 * (x * y mod P25519) mod P25519" by (simp only: mod_mult_eq)
    finally show ?thesis unfolding mult_1 by (rule mod_congs(1) [OF refl mod_congs(3) [OF refl]])
  qed
  finally show ?thesis by (simp add: b)
qed

lemma ladder_on_curve:
  "on_curve p \<and> on_curve q \<Longrightarrow> case fold (\<lambda>i. r_step (f i)) is (p, q) of (p', q') \<Rightarrow> on_curve p' \<and> on_curve q'"
proof (induction "is" arbitrary: p q)
  case (Cons i "is")
  have "r_step (f i) (p, q) = (if f i then (r_add p q, r_add q q) else (r_add p p, r_add p q))"
    by (simp add: r_step_def)
  with Cons.prems r_add_on_curve show ?case
    by (cases "f i") (simp_all only: fold_simps(2) o_apply if_True if_False Cons.IH fold.simps)
qed simp

lemma r_mul_on_curve: "on_curve q \<Longrightarrow> on_curve (r_mul n q)"
  using ladder_on_curve [of "(0, 1, 1, 0)" q "bit n" "rev [0..<256]"] on_curve_neutral
  by (auto simp: r_mul_def split: prod.splits simp del: on_curve.simps)

lemma unpackneg_on_curve: "r_unpackneg p = Some q \<Longrightarrow> on_curve q"
proof -
  assume s: "r_unpackneg p = Some q"
  define y where "y = int (le_val p) mod 2 ^ 255 mod P25519"
  define u where "u = (y ^ 2 - 1) mod P25519"
  define v where "v = (1 + ed_d * y ^ 2) mod P25519"
  define x0 where "x0 = u * v ^ 3 * (u * v ^ 7) ^ (2 ^ 252 - 3) mod P25519"
  define x where "x = (if v * x0 ^ 2 mod P25519 = u then x0 else x0 * sqrt_m1 mod P25519)"
  define x' where "x' = (if (x mod 2 = 1) = (2 ^ 255 \<le> le_val p) then (- x) mod P25519 else x)"
  have "(if v * x ^ 2 mod P25519 \<noteq> u then None else Some (x', y, 1, x' * y mod P25519)) = Some q"
    using s unfolding r_unpackneg_def Let_def y_def [symmetric] u_def [symmetric] v_def [symmetric] x0_def [symmetric]
      x_def [symmetric] x'_def [symmetric] .
  then have "v * x ^ 2 mod P25519 = u \<and> q = (x', y, 1, x' * y mod P25519)"
    by (cases "v * x ^ 2 mod P25519 = u") (simp_all only: simp_thms if_True if_False option.distinct option.inject)
  moreover have "x' = x \<or> x' = (- x) mod P25519" unfolding x'_def by (cases "(x mod 2 = 1) = (2 ^ 255 \<le> le_val p)") (simp_all only: if_True if_False simp_thms)
  ultimately have x: "v * x ^ 2 mod P25519 = u" "q = (x', y, 1, x' * y mod P25519)" "x' = x \<or> x' = (- x) mod P25519"
    by blast+
  have sq: "x' * x' mod P25519 = x * x mod P25519"
  proof -
    have "(- x) mod P25519 * ((- x) mod P25519) mod P25519 = (- x) * (- x) mod P25519" by (simp only: mod_mult_eq)
    then show ?thesis using x(3) by auto
  qed
  have v: "v mod P25519 = (1 + ed_d * (y * y)) mod P25519" by (simp add: v_def power2_eq_square)
  have "(1 + ed_d * (y * y)) * (x * x) mod P25519 = v * (x * x) mod P25519" by (rule mod_congs(3) [OF v [symmetric] refl])
  also have "\<dots> = (y * y - 1) mod P25519" using x(1) by (simp add: u_def power2_eq_square)
  finally have e: "(1 + ed_d * (y * y)) * (x * x) mod P25519 = (y * y - 1) mod P25519" .
  have "(y * y - x' * x') mod P25519 = (y * y - x * x) mod P25519" by (rule mod_congs(2) [OF refl sq])
  also have "\<dots> = (y * y - 1 + 1 - x * x) mod P25519" by simp
  also have "\<dots> = ((1 + ed_d * (y * y)) * (x * x) + 1 - x * x) mod P25519"
    by (rule mod_congs(2) [OF mod_congs(1) [OF e [symmetric] refl] refl])
  also have "(1 + ed_d * (y * y)) * (x * x) + 1 - x * x = 1 + ed_d * (x * x * (y * y))" by (simp add: algebra_simps)
  also have "\<dots> mod P25519 = (1 + ed_d * (x' * x' * (y * y))) mod P25519"
    by (rule mod_congs(1) [OF refl mod_congs(3) [OF refl mod_congs(3) [OF sq [symmetric] refl]]])
  also have "x' * x' * (y * y) = x' * y * (x' * y)" by simp
  also have "(1 + ed_d * (x' * y * (x' * y))) mod P25519 = (1 * 1 + ed_d * (x' * y mod P25519 * (x' * y mod P25519))) mod P25519"
    unfolding mult_1 by (rule mod_congs(1) [OF refl mod_congs(3) [OF refl]]) (simp only: mod_mult_eq)
  finally show ?thesis unfolding x(2) on_curve.simps by simp
qed

text \<open>The encoding of the neutral point \<open>(0, 1)\<close> is accepted as a public key.\<close>

lemma unpackneg_neutral: "r_unpackneg (1 # replicate 31 0) = Some (0, 1, 1, 0)"
proof -
  have v: "le_val (1 # replicate 31 0) = 1" by (simp add: numeral_eq_Suc)
  have y: "int 1 mod 2 ^ 255 mod P25519 = 1" by (simp add: P25519_def)
  have x: "0 * a ^ 3 * b mod P25519 = 0" for a b :: int by simp
  have u: "(1 ^ 2 - 1) mod P25519 = 0" by simp
  have t: "(2 ^ 255 \<le> (1 :: nat)) = False" by simp
  show ?thesis
    unfolding r_unpackneg_def Let_def v y u x t by (simp only: power2_eq_square) simp
qed

end
