(* ===== verification/X25519.thy ===== *)
theory X25519
  imports Ed25519Verify
begin

text \<open>
  The Montgomery ladder of \<open>crypto_scalarmult\<close> against the formulas of RFC 7748.
\<close>

section \<open>X25519\<close>

type_synonym rladder = "int \<times> int \<times> int \<times> int"

definition x_swap :: "bool \<Rightarrow> rladder \<Rightarrow> rladder" where
  "x_swap b = (\<lambda>(x2, x3, z2, z3). if b then (x3, x2, z3, z2) else (x2, x3, z2, z3))"

definition x_double_add :: "int \<Rightarrow> rladder \<Rightarrow> rladder" where
  "x_double_add x1 = (\<lambda>(x2, x3, z2, z3).
     let A = x2 + z2; AA = A ^ 2; B = x2 - z2; BB = B ^ 2; E = AA - BB; C = x3 + z3; D = x3 - z3;
         DA = D * A; CB = C * B
     in (AA * BB mod P25519, (DA + CB) ^ 2 mod P25519, E * (AA + 121665 * E) mod P25519,
         x1 * (DA - CB) ^ 2 mod P25519))"

definition x25519_spec :: "bytes \<Rightarrow> bytes \<Rightarrow> bytes" where
  "x25519_spec n p =
     (let k = clamp_num (le_val n); u = int (le_val p) mod 2 ^ 255 mod P25519;
          (x2, x3, z2, z3) = fold (\<lambda>i l. x_swap (bit k i) (x_double_add u (x_swap (bit k i) l))) (rev [0..<255]) (1, u, 0, 1)
      in le_bytes 32 (nat (x2 * z2 ^ (2 ^ 255 - 21) mod P25519)))"

definition ladder_core :: "gf \<Rightarrow> gf \<times> gf \<times> gf \<times> gf \<Rightarrow> gf \<times> gf \<times> gf \<times> gf" where
  "ladder_core x = (\<lambda>(a, b, c, d).
     let e = A25519 a c; a = Z25519 a c; c = A25519 b d; b = Z25519 b d;
         d = S25519 e; f = S25519 a; a = M25519 c a; c = M25519 b e;
         e = A25519 a c; a = Z25519 a c; b = S25519 a; c = Z25519 d f;
         a = M25519 c gf_121665; a = A25519 a d; c = M25519 c a; a = M25519 d f;
         d = M25519 b x; b = S25519 e
     in (a, b, c, d))"

lemma small_sums:
  assumes "gf_small x" "gf_small y"
  shows "gf_ok (A25519 x y)" "gf_ok (Z25519 x y)" "fres (A25519 x y) = (fres x + fres y) mod P25519"
    "fres (Z25519 x y) = (fres x - fres y) mod P25519"
  using gf_sums [OF assms] fres_A [OF assms] fres_Z [OF assms] by simp_all

lemma ladder_core_value:
  assumes "pt_red (a, b, c, d)" "gf_small x"
  shows "pt_red (ladder_core x (a, b, c, d))" "pt_res (ladder_core x (a, b, c, d)) = x_double_add (fres x) (pt_res (a, b, c, d))"
proof -
  have r: "gf_small a" "gf_small b" "gf_small c" "gf_small d" using assms(1) by simp_all
  define AA where "AA = S25519 (A25519 a c)"
  define BB where "BB = S25519 (Z25519 a c)"
  define CB where "CB = M25519 (A25519 b d) (Z25519 a c)"
  define DA where "DA = M25519 (Z25519 b d) (A25519 a c)"
  define E where "E = Z25519 AA BB"
  define W where "W = A25519 (M25519 E gf_121665) AA"
  note s = small_sums [OF r(1,3)] small_sums [OF r(2,4)]
  have sm: "gf_small AA" "gf_small BB" "gf_small CB" "gf_small DA"
    using s by (simp_all add: AA_def BB_def CB_def DA_def S25519_small)
  let ?A = "fres a + fres c" and ?B = "fres a - fres c" and ?C = "fres b + fres d" and ?D = "fres b - fres d"
  have v: "fres AA = ?A ^ 2 mod P25519" "fres BB = ?B ^ 2 mod P25519" "fres CB = ?C * ?B mod P25519" "fres DA = ?D * ?A mod P25519"
    using s by (simp_all add: AA_def BB_def CB_def DA_def fres_S fres_M residue)
  note t = small_sums [OF sm(1,2)] small_sums [OF sm(3,4)]
  have E: "gf_ok E" "fres E = (?A ^ 2 - ?B ^ 2) mod P25519" using t by (simp_all add: E_def v residue)
  have m: "gf_small (M25519 E gf_121665)" "fres (M25519 E gf_121665) = (?A ^ 2 - ?B ^ 2) * 121665 mod P25519"
    using E by (simp_all add: fres_M fres_constants residue)
  have W: "gf_ok W" "fres W = ((?A ^ 2 - ?B ^ 2) * 121665 + ?A ^ 2) mod P25519"
    using small_sums [OF m(1) sm(1)] by (simp_all add: W_def m(2) v residue)
  have core: "ladder_core x (a, b, c, d) = (M25519 AA BB, S25519 (A25519 CB DA), M25519 E W, M25519 (S25519 (Z25519 CB DA)) x)"
    by (simp add: ladder_core_def Let_def AA_def BB_def CB_def DA_def E_def W_def)
  show "pt_red (ladder_core x (a, b, c, d))"
    using sm t E W assms(2) by (simp add: core S25519_small)
  have 1: "fres (M25519 AA BB) = ?A ^ 2 * ?B ^ 2 mod P25519" using sm by (simp add: fres_M v residue)
  have 2: "fres (S25519 (A25519 CB DA)) = (?D * ?A + ?C * ?B) ^ 2 mod P25519"
    using t by (simp add: fres_S v residue add.commute)
  have 3: "fres (M25519 E W) = (?A ^ 2 - ?B ^ 2) * (?A ^ 2 + 121665 * (?A ^ 2 - ?B ^ 2)) mod P25519"
    using E W by (simp add: fres_M residue) (simp add: ac_simps)
  have 4: "fres (M25519 (S25519 (Z25519 CB DA)) x) = fres x * (?D * ?A - ?C * ?B) ^ 2 mod P25519"
  proof -
    have "fres (M25519 (S25519 (Z25519 CB DA)) x) = (?C * ?B - ?D * ?A) ^ 2 * fres x mod P25519"
      using t assms(2) by (simp add: fres_M fres_S S25519_small v residue)
    also have "(?C * ?B - ?D * ?A) ^ 2 * fres x = fres x * (?D * ?A - ?C * ?B) ^ 2"
      by (subst power2_commute) (rule mult.commute)
    finally show ?thesis .
  qed
  show "pt_res (ladder_core x (a, b, c, d)) = x_double_add (fres x) (pt_res (a, b, c, d))"
    unfolding core pt_res.simps x_double_add_def prod.case Let_def 1 2 3 4 ..
qed


lemma ladder_step_value:
  assumes "pt_red (a, b, c, d)" "gf_small x" "i < 8 * length z"
  shows "pt_red (ladder_step z x i (a, b, c, d))"
    "pt_res (ladder_step z x i (a, b, c, d))
      = (let s = bit (le_val z) i in x_swap s (x_double_add (fres x) (x_swap s (pt_res (a, b, c, d)))))"
proof -
  define s where "s = bit (le_val z) i"
  have r: "scalar_bit z i = (if s then 1 else 0)" unfolding s_def by (rule scalar_bit_value [OF assms(3)])
  have g: "gf_small a" "gf_small b" "gf_small c" "gf_small d" using assms(1) by simp_all
  define l where "l = (if s then (b, a, d, c) else (a, b, c, d))"
  obtain a' b' c' d' where l': "ladder_core x l = (a', b', c', d')" by (cases "ladder_core x l") auto
  have l: "pt_red l" "pt_res l = x_swap s (pt_res (a, b, c, d))" using g by (simp_all add: l_def x_swap_def)
  have core: "pt_red (ladder_core x l)" "pt_res (ladder_core x l) = x_double_add (fres x) (pt_res l)"
    using ladder_core_value [OF _ assms(2)] l(1) by (cases l; simp)+
  then have g': "gf_small a'" "gf_small b'" "gf_small c'" "gf_small d'" by (simp_all add: l')
  have "ladder_step z x i (a, b, c, d)
      = (case l of (a, b, c, d) \<Rightarrow> case ladder_core x (a, b, c, d) of (a, b, c, d) \<Rightarrow>
          (let (a, b) = sel25519 a b (if s then 1 else 0); (c, d) = sel25519 c d (if s then 1 else 0) in (a, b, c, d)))"
    unfolding ladder_step_def prod.case Let_def r sel25519_red [OF g(1,2)] sel25519_red [OF g(3,4)]
    by (cases s) (simp_all only: if_True if_False prod.case l_def ladder_core_def Let_def)
  also have "\<dots> = (let (a, b) = sel25519 a' b' (if s then 1 else 0); (c, d) = sel25519 c' d' (if s then 1 else 0) in (a, b, c, d))"
    using l' by (cases l) simp
  also have "\<dots> = (if s then (b', a', d', c') else (a', b', c', d'))"
    unfolding sel25519_red [OF g'(1,2)] sel25519_red [OF g'(3,4)] by simp
  finally have step: "ladder_step z x i (a, b, c, d) = (if s then (b', a', d', c') else (a', b', c', d'))" .
  show "pt_red (ladder_step z x i (a, b, c, d))" using g' by (simp add: step)
  have "pt_res (ladder_step z x i (a, b, c, d)) = x_swap s (pt_res (ladder_core x l))"
    by (simp add: step l' x_swap_def)
  then show "pt_res (ladder_step z x i (a, b, c, d))
      = (let s = bit (le_val z) i in x_swap s (x_double_add (fres x) (x_swap s (pt_res (a, b, c, d)))))"
    unfolding core(2) l(2) Let_def s_def [symmetric] .
qed

lemma ladder_steps_value:
  assumes "gf_small x" "\<forall>i\<in>set is. i < 8 * length z" "pt_red l"
  shows "pt_red (fold (ladder_step z x) is l)
    \<and> pt_res (fold (ladder_step z x) is l) = fold (\<lambda>i l. x_swap (bit (le_val z) i) (x_double_add (fres x) (x_swap (bit (le_val z) i) l))) is (pt_res l)"
  using assms(2,3)
proof (induction "is" arbitrary: l)
  case (Cons i "is")
  obtain a b c d where l: "l = (a, b, c, d)" by (cases l) auto
  have i: "i < 8 * length z" using Cons.prems(1) by simp
  note s = ladder_step_value [OF Cons.prems(2) [unfolded l] assms(1) i, unfolded Let_def]
  show ?case
    using Cons.IH [OF _ s(1)] Cons.prems(1) s(2) unfolding l by simp
qed simp

lemma clamp_x25519_eq: "length n = 32 \<Longrightarrow> clamp_x25519 n = clamp_scalar n"
  by (rule nth_equalityI) (auto simp: clamp_x25519_def clamp_scalar_def Let_def nth_list_update nth_append u8_def)

lemma crypto_scalarmult_value:
  assumes "length n = 32" "length p = 32"
  shows "crypto_scalarmult n p = x25519_spec n p"
proof -
  let ?x = "unpack25519 p" and ?z = "clamp_x25519 n"
  have x: "gf_small ?x" "fres ?x = int (le_val p) mod 2 ^ 255 mod P25519"
    using unpack25519_value [OF assms(2)] digits_red by (simp_all add: gf_red_le fres_def)
  have z: "length ?z = 32" "le_val ?z = clamp_num (le_val n)"
    using le_val_clamp [OF assms(1)] assms(1) by (simp_all add: clamp_x25519_eq)
  obtain a b c d where f: "fold (ladder_step ?z ?x) (rev [0..<255]) (gf1, ?x, gf0, gf1) = (a, b, c, d)"
    by (cases "fold (ladder_step ?z ?x) (rev [0..<255]) (gf1, ?x, gf0, gf1)") auto
  have i: "\<forall>i\<in>set (rev [0..<255]). i < 8 * length ?z" "pt_red (gf1, ?x, gf0, gf1)" using x z by simp_all
  from ladder_steps_value [OF x(1) i] have l: "gf_small a" "gf_small c"
    "(fres a, fres b, fres c, fres d) = fold (\<lambda>i l. x_swap (bit (clamp_num (le_val n)) i)
      (x_double_add (fres ?x) (x_swap (bit (clamp_num (le_val n)) i) l))) (rev [0..<255]) (1, fres ?x, 0, 1)"
    unfolding f z(2) by (simp_all add: fres_constants)
  have inv: "gf_ok (inv25519 c)" using inv25519_value(2) [OF gf_small_ok [OF l(2)]] by simp
  have "crypto_scalarmult n p = pack25519 (M25519 a (inv25519 c))"
    by (simp add: crypto_scalarmult_def Let_def f)
  also have "\<dots> = le_bytes 32 (nat (fres a * fres c ^ (2 ^ 255 - 21) mod P25519))"
    using l inv by (simp only: pack25519_fres gf_small_ok M25519_small fres_M fres_inv residue)
  also have "\<dots> = x25519_spec n p"
    unfolding x25519_spec_def Let_def x(2) [symmetric] l(3) [symmetric] prod.case ..
  finally show ?thesis .
qed

end
