(* ===== verification/AccountKeys.thy ===== *)
theory AccountKeys
  imports BackupStored X25519
begin

text \<open>
  The keys of talerCrypto.ts against RFC 8032 and RFC 7748, and what they mean for the upload: the
  account of a user at a provider is an Ed25519 key pair derived from the user identifier, and a
  policy document is posted under the public key with a signature of its hash.
\<close>

section \<open>Keys and signatures\<close>

lemma eddsaGetPublic_value: "length k = 32 \<Longrightarrow> eddsaGetPublic k = Inr (ed_public_spec k)"
  by (simp add: eddsaGetPublic_def crypto_sign_keyPair_fromSeed_def keypair_value)

lemma eddsaSign_value: "length k = 32 \<Longrightarrow> eddsaSign m k = Inr (ed_sign_spec m (k @ ed_public_spec k))"
  by (simp add: eddsaSign_def crypto_sign_keyPair_fromSeed_def keypair_value sign_detached_value)

lemma eddsaVerify_value:
  "length sig = 64 \<Longrightarrow> length pk = 32 \<Longrightarrow> eddsaVerify m sig pk = Inr (ed_verify_spec m sig pk)"
  by (simp add: eddsaVerify_def sign_detached_verify_value)

lemma bad_seed_size:
  assumes "length k \<noteq> 32"
  shows "eddsaGetPublic k = Inl (JsError (''bad seed size: '' @ nat_str (length k)))"
    "eddsaSign m k = Inl (JsError (''bad seed size: '' @ nat_str (length k)))"
  using assms by (simp_all add: eddsaGetPublic_def eddsaSign_def crypto_sign_keyPair_fromSeed_def)

lemma ecdheGetPublic_value:
  "length k = 32 \<Longrightarrow> ecdheGetPublic k = Inr (x25519_spec k (9 # replicate 31 0))"
  using crypto_scalarmult_value [of k "(replicate 32 0)[0 := 9]"]
  by (simp add: ecdheGetPublic_def scalarMult_base_def crypto_scalarmult_base_def numeral_eq_Suc)

section \<open>The account\<close>

lemma accountKeypairDerive_value:
  assumes "accountKeypairDerive u e w = (Inr a, w')"
  shows "\<exists>k. length k = 32 \<and> acct_priv a = encodeCrock k \<and> acct_pub a = encodeCrock (ed_public_spec k)"
proof -
  obtain k pub where k: "eddsaGetPublic k = Inr pub" "a = \<lparr>acct_priv = encodeCrock k, acct_pub = encodeCrock pub\<rparr>"
    using assms by (auto simp: accountKeypairDerive_def io_bind_Inr_iff io_js_def io_return_def)
  moreover have l: "length k = 32" using k(1) bad_seed_size(1) [of k] by fastforce
  ultimately show ?thesis using eddsaGetPublic_value [OF l] by auto
qed

definition signed_by :: "bytes \<Rightarrow> http_request \<Rightarrow> bool" where
  "signed_by k rq \<longleftrightarrow> length k = 32 \<and> (\<exists>body. rq_path rq = ''policy/'' @ encodeCrock (ed_public_spec k) \<and> rq_body rq = BytesBody body
     \<and> (''Anastasis-Policy-Signature'',
         encodeCrock (ed_sign_spec (be32 72 @ be32 1400 @ sha512_spec body) (k @ ed_public_spec k))) \<in> set (rq_headers rq))"

lemma upload_policy_signed:
  assumes "upload_policy st rd pp ur e w = (Inr (Inr ur'), w')"
  shows "\<exists>rq k. w_sent w' = w_sent w @ [rq] \<and> signed_by k rq"
proof -
  obtain uid cache w1 acct w2 z w3 encDoc w4 body priv sig paySecret w7 rq0 w8 resp w9 where
    uid: "getUserIdCaching st (pp_provider_url pp) (ur_cache ur) e w = (Inr (uid, cache), w1)" and
    acct: "accountKeypairDerive uid e w1 = (Inr acct, w2)" and
    z: "compressRecoveryDoc rd e w2 = (Inr z, w3)" and
    enc: "encryptRecoveryDocument uid (encodeCrock z) e w3 = (Inr encDoc, w4)" and
    priv: "decodeCrock (acct_priv acct) = Inr priv" and
    sig: "eddsaSign (sp_build (sp_put (nacl_hash body) (buildSigPS ANASTASIS_POLICY_UPLOAD))) priv = Inr sig" and
    pay: "policy_pay_secret st (pp_provider_url pp) e w4 = (Inr paySecret, w7)" and
    url: "io_url (''policy/'' @ acct_pub acct) (pp_provider_url pp) e w7 = (Inr rq0, w8)" and
    fetch: "io_fetch_ok (policy_request paySecret sig (nacl_hash body) body rq0) e w8 = (Inr resp, w9)" and
    answer: "policy_answer (pp_provider_url pp) resp (ur\<lparr>ur_cache := cache\<rparr>) e w9 = (Inr (Inr ur'), w')"
    using assms unfolding upload_policy_def Let_def
    by (auto simp only: io_bind_Inr_iff io_js_Inr split_paired_Ex prod.case)
  obtain k where k: "length k = 32" "acct_priv acct = encodeCrock k" "acct_pub acct = encodeCrock (ed_public_spec k)"
    using accountKeypairDerive_value [OF acct] by blast
  then have p: "priv = k" using priv by (simp add: decodeCrock_encodeCrock)
  have h: "nacl_hash body = sha512_spec body" "length (sha512_spec body) = 64"
    using length_crypto_hash [of body] by (simp_all add: nacl_hash_def crypto_hash_eq)
  have s: "sig = ed_sign_spec (be32 72 @ be32 1400 @ sha512_spec body) (k @ ed_public_spec k)"
    using sig eddsaSign_value [OF k(1)] h by (simp add: p sp_build_one ANASTASIS_POLICY_UPLOAD_def)
  let ?rq = "policy_request paySecret sig (nacl_hash body) body rq0"
  have "signed_by k ?rq"
    using k io_url_Inr [OF url] by (auto simp: signed_by_def policy_request_def pay_timeout_def s h)
  moreover have "w_sent w' = w_sent w @ [?rq]"
    using policy_answer_Inr(1) [OF answer] io_fetch_ok_Inr [OF fetch] io_url_Inr [OF url]
      silent_parts(3) [OF acct] silent_parts(4) [OF z] silent_parts(6) [OF enc] silent_parts(12) [OF uid] silent_parts(13) [OF pay]
    by simp
  ultimately show ?thesis by blast
qed

end
