(* ===== verification/Spec2Isabelle.thy ===== *)
theory Spec2Isabelle
  imports Amounts Samples Poly1305 AccountKeys
begin

text \<open>
  Anastasis: key backup and recovery without a password.  A user splits a core secret into key
  shares, each kept by an escrow provider under a challenge (a question, an e-mail, a letter);
  answering the challenges of one policy gives the secret back.  This library models the
  TypeScript implementation: the reducer in anastasis-core/src and the parts of taler-util/src it
  rests on (both under src/wallet-core-ga35604fd/packages/).

  \<^bold>\<open>The program.\<close>  The user interfaces call one function, \<open>reduceAction(state, action, args)\<close> of
  index.ts: it looks the action up in the table of the state, validates the argument with a codec,
  and runs a handler, which may ask providers over HTTP and returns the next state or an error
  state.  The backup flow chooses a place, asks for identity attributes and authentication
  methods, suggests policies (policy-suggestion.ts), takes the secret, and uploads encrypted
  truths and an encrypted recovery document (crypto.ts on top of nacl-fast.ts, sha256.ts, kdf.ts).
  The recovery flow finds the document, shows its challenges and reconstructs the secret.

  \<^bold>\<open>Theories.\<close>
  \<^item> \<open>Prelude\<close>: strings as UTF-8 bytes, byte strings, exceptions (\<open>js\<close>), JavaScript objects as
    association lists in insertion order (locale \<open>js_dict\<close>), array operations, decimal numerals.
  \<^item> \<open>Effects\<close>: asynchronous handlers as functions of an environment and a world.  The environment
    holds what is not under src/ or not modelled: the network, the clock, random bytes, URL
    parsing, argon2id (hash-wasm), zlib (fflate).  The world logs the requests sent and
    counts the random draws, so that order matters.
  \<^item> \<open>IoLogic\<close>: postconditions (\<open>post\<close>) and relations between worlds (\<open>within\<close>, locale \<open>world_rel\<close>),
    with one rule per combinator.
  \<^item> \<open>Crock\<close> (talerCrypto.ts), \<open>Amounts\<close> (amounts.ts), \<open>TimeUtil\<close> (time.ts), \<open>TalerUri\<close> (taleruri.ts),
    \<open>Json\<close> (canonical JSON of helpers.ts over a printer and parser), \<open>Codec\<close> (codec.ts).
  \<^item> \<open>Nacl\<close> (XSalsa20, Poly1305 and secretbox of nacl-fast.ts on 32- and 16-bit words),
    \<open>PolyLimbs\<close> and \<open>Poly1305\<close> (the authenticator against its specification), \<open>BlockHash\<close> (a locale for padding and
    absorbing block by block), \<open>Fips180\<close> (SHA-512 and SHA-256 of the standard, with the
    constants computed from the primes), \<open>Sha512\<close>, \<open>Sha256\<close>, \<open>Kdf\<close>.
  \<^item> \<open>LittleEndian\<close>, \<open>Field25519\<close>, \<open>FieldProduct\<close>, \<open>FieldPack\<close> (the field of Curve25519 in nacl-fast.ts:
    sixteen limbs in doubles, the bounds within which they are exact, and the residues they stand
    for), \<open>ModL\<close> (scalars modulo the group order), \<open>Ed25519\<close> (points, signatures, X25519, the high-level
    API), \<open>Ed25519Spec\<close>, \<open>Ed25519Sign\<close>, \<open>Ed25519Verify\<close>, \<open>X25519\<close> (agreement with the RFCs).
  \<^item> \<open>TalerKeys\<close> (keys, signatures, planchets and signature blocks of talerCrypto.ts).
  \<^item> \<open>AnastasisCrypto\<close> (crypto.ts; locales \<open>sealing\<close> and \<open>key_wrapping\<close>), \<open>AnastasisData\<close> (the tables of
    anastasis-data.ts), \<open>PolicySuggestion\<close> (policy-suggestion.ts).
  \<^item> \<open>ReducerTypes\<close> (states, documents, argument codecs), \<open>ReducerCommon\<close>, \<open>BackupReducer\<close>,
    \<open>BackupUpload\<close>, \<open>RecoveryReducer\<close>, \<open>Reducer\<close>: index.ts, handler by handler.
  \<^item> \<open>BackupMachine\<close>, \<open>RecoveryMachine\<close>, \<open>ReducerRuns\<close>: the two flows as step relations that
    \<open>reduceAction\<close> refines, the invariants of their states, sessions, and the requests sent.
  \<^item> \<open>BackupStored\<close>, \<open>BackupRecovery\<close>, \<open>BackupCompletes\<close>: what a finished upload means, that the
    recovery reads what the backup wrote, and when an upload succeeds.
  \<^item> \<open>AccountKeys\<close>: the keys of talerCrypto.ts and the signed upload against RFC 8032.
  \<^item> \<open>Samples\<close>: the concrete environments and states of the witnesses.

  \<^bold>\<open>How states and operations correspond.\<close>  A state of the reducer is \<open>Backup b\<close>, \<open>Recovery r\<close> or
  \<open>Error d\<close>; \<open>b\<close> and \<open>r\<close> are records with the fields of \<open>ReducerStateBackup\<close> and
  \<open>ReducerStateRecovery\<close>, each optional field an \<open>option\<close>.  A handler keeps the name of its function;
  loop bodies and inner blocks are definitions of their own.  \<open>await\<close> is \<open>io_bind\<close>, a rejection or
  \<open>throw\<close> is \<open>Inl\<close>, \<open>try\<close> is \<open>io_catch\<close>, a loop is \<open>io_fold\<close>, or \<open>io_loop\<close> when it may return early.  The
  array of policies may get holes (\<open>update_policy\<close> beyond its end), hence \<open>policy option list\<close>.

  \<^bold>\<open>What the lemmas show.\<close>  The primitives agree with their specifications (SHA-512 and SHA-256 of
  FIPS 180-4, HMAC, HKDF of RFC 5869, Poly1305, Ed25519 of RFC 8032, X25519 of RFC 7748) and invert each other (Crockford coding, amounts,
  JSON, secret boxes, documents).  The reducer follows its state graph, keeps its invariants,
  sends only the requests of its state, and reports errors as it should.  A finished backup was
  stored at every provider; its document gives the secret to whoever has the shares of a policy;
  the answers of providers that return what was stored finish the recovery with that secret.

  \<^bold>\<open>Bounds.\<close>  Words keep the widths of the code: 32 bits for bitwise JavaScript operators, 16 and 8
  bits for typed arrays.  The limbs of Curve25519 are integers, proved to stay below \<open>2 ^ 53\<close>, where
  doubles are exact.  The only fuel is that of the JSON parser, the size of its input, which
  bounds the nesting (\<open>JSON_parse_stringify\<close>).  All other loops recurse on their data or have a measure.

  \<^bold>\<open>Not modelled.\<close>  The command line interface, the logger, and validators.ts (used by the web
  interface only), and the blind RSA signatures of talerCrypto.ts (on the big-integer package).
  argon2id is a parameter.  That a verification accepts what was signed needs the group law of
  the curve, which is not proved.  Numbers are integers: amounts and
  timestamps are declared so, \<open>Number\<close> and \<open>parseInt\<close> give \<open>None\<close> for \<open>NaN\<close>, and decimals of a JSON text do
  not parse.  Object keys that look like array indices are not reordered.  \<open>toLowerCase\<close> and \<open>trim\<close> cover
  ASCII.  The text of the engine's own \<open>TypeError\<close> is left out.  A value that does not have its
  declared TypeScript type is \<open>IllTyped\<close> where the code would go on with it.  Fields of a
  provider's configuration that are not strings read as absent.  The GNU Taler wallet, the
  IndexedDB bridge, the web interfaces, the test harness and the C implementation that the
  repository also holds are other programs.
\<close>

section \<open>The backup flow\<close>

text \<open>C1: When the policies refer to existing methods and known providers with a salt, and the
  providers store what they are sent, \<open>uploadSecret\<close> returns, in the finished state.\<close>

theorem backup_completes:
  assumes "random_ok e" "storing e" "zlib_ok e" "upload_ready e st"
  shows "\<exists>b w'. uploadSecret st e w = (Inr (Backup b), w') \<and> backup_state b = BBackupFinished"
  using assms by (rule uploadSecret_completes)

theorem backup_completes_witness:
  "\<exists>b w'. uploadSecret sample_backup provider_env sample_world = (Inr (Backup b), w') \<and> backup_state b = BBackupFinished"
  by (rule backup_completes) (simp_all add: provider_env_ok upload_ready_sample)

text \<open>C4: A backup is finished only when everything was stored: the requests sent are one per truth,
  in the order of the truth metadata, and then one per policy provider, every one of them answered
  with status 204, and the success details name exactly the policy providers.\<close>

theorem finished_backup_stored:
  assumes "uploadSecret st e w = (Inr (Backup b), w')" "backup_state b = BBackupFinished"
  shows "\<exists>rcd pps trs prs sd. recovery_data b = Some rcd \<and> policy_providers st = Some pps
    \<and> w_sent w' = w_sent w @ trs @ prs \<and> all_stored e (w_sent w) (trs @ prs)
    \<and> list_all2 (\<lambda>(_, tm). truth_rq st tm) (rcd_truth_metadata rcd) trs \<and> list_all2 policy_rq pps prs
    \<and> success_details b = Some sd \<and> set (js_keys sd) = pp_provider_url ` set pps"
  using assms by (rule uploadSecret_finished)

theorem finished_backup_stored_witness:
  "\<exists>b w' rcd pps trs prs sd. uploadSecret sample_backup provider_env sample_world = (Inr (Backup b), w')
    \<and> recovery_data b = Some rcd \<and> policy_providers sample_backup = Some pps
    \<and> w_sent w' = w_sent sample_world @ trs @ prs \<and> all_stored provider_env (w_sent sample_world) (trs @ prs)
    \<and> list_all2 (\<lambda>(_, tm). truth_rq sample_backup tm) (rcd_truth_metadata rcd) trs \<and> list_all2 policy_rq pps prs
    \<and> success_details b = Some sd \<and> set (js_keys sd) = pp_provider_url ` set pps"
proof -
  obtain b w' where b: "uploadSecret sample_backup provider_env sample_world = (Inr (Backup b), w')"
      "backup_state b = BBackupFinished"
    using uploadSecret_completes [OF provider_env_ok(1,3,2) upload_ready_sample] by blast
  show ?thesis
    using finished_backup_stored [OF b] by (intro exI [of _ b] exI [of _ w']) (simp only: b(1) simp_thms)
qed

text \<open>C2: Of the recovery data that \<open>prepareRecoveryData\<close> makes for a state with a core secret, every
  policy gives the secret back to whoever has the key shares of its truths, there is one policy per
  policy of the state, and the escrow methods are those of the truths.\<close>

theorem document_recovers_secret:
  assumes "random_ok e" "prepareRecoveryData st e w = (Inr st', w')" "core_secret st = Some c"
  shows "\<exists>rcd ps. recovery_data st' = Some rcd \<and> policies st = Some ps
    \<and> length (rd_policies (rcd_recovery_document rcd)) = length ps
    \<and> recoverable rcd (core_secret_json (Some c)) \<and> (\<forall>tm\<in>truths_in (rcd_truth_metadata rcd). share_of tm)
    \<and> js_map (\<lambda>(_, tm). make_escrow st tm) (rcd_truth_metadata rcd) = Inr (rd_escrow_methods (rcd_recovery_document rcd))"
  using assms by (rule prepareRecoveryData_recoverable)

theorem document_recovers_secret_witness:
  "\<exists>st' w' rcd ps. prepareRecoveryData sample_backup provider_env sample_world = (Inr st', w')
    \<and> recovery_data st' = Some rcd \<and> policies sample_backup = Some ps
    \<and> length (rd_policies (rcd_recovery_document rcd)) = length ps
    \<and> recoverable rcd (core_secret_json (Some \<lparr>cs_mime = ''text/plain'', cs_value = encodeCrock [7], cs_filename = None\<rparr>))"
proof -
  obtain st' w' where p: "prepareRecoveryData sample_backup provider_env sample_world = (Inr st', w')"
    using sample_prepared by blast
  have "core_secret sample_backup = Some \<lparr>cs_mime = ''text/plain'', cs_value = encodeCrock [7], cs_filename = None\<rparr>"
    by (simp add: sample_backup_def)
  from document_recovers_secret [OF provider_env_ok(1) p this] show ?thesis
    by (intro exI [of _ st'] exI [of _ w']) (auto simp only: p)
qed

section \<open>From the backup to the recovery\<close>

text \<open>C3: The provider's answer to the last missing challenge of a policy, carrying the key share
  that the backup encrypted, finishes the recovery with the core secret of the backup.\<close>

theorem solved_challenge_recovers:
  assumes "recoverable rcd v" "\<forall>tm\<in>truths_in (rcd_truth_metadata rcd). share_of tm"
    and "verbatim_recovery_document r = Some (rcd_recovery_document rcd)"
    and "shares_agree (js_put (es_uuid t) ks (or_empty (recovered_key_shares r))) (truths_in (rcd_truth_metadata rcd))"
    and "p \<in> set (rd_policies (rcd_recovery_document rcd))"
      "\<forall>u\<in>set (dp_uuids p). u = es_uuid t \<or> js_get (or_empty (recovered_key_shares r)) u \<noteq> None"
    and "share_salt t req = Inr aslt" "identity e st url uid" "provider_at st url = Inr prov"
      "es_provider_salt t = provider_salt prov" "r_identity_attributes r = identity_attributes st"
    and "rs_status resp = 200" "decryptKeyShare (encodeCrock (rs_body resp)) uid aslt = Inr ks"
  shows "\<exists>s. truth_response r t req resp e w = (Inr (Recovery s), w) \<and> recovery_state s = RRecoveryFinished
    \<and> r_core_secret s = Some v"
  using assms by (rule last_share_recovers)

definition sample_escrow :: escrow_method where
  "sample_escrow = \<lparr>es_url = ''https://a/'', es_type = ''question'', es_uuid = tm_uuid sample_truth,
     es_truth_key = tm_truth_key sample_truth, es_truth_salt = tm_truth_salt sample_truth,
     es_provider_salt = provider_salt sample_provider, es_instructions = ''q''\<rparr>"

theorem solved_challenge_recovers_witness:
  "\<exists>rcd b s. truth_response
      (empty_recovery\<lparr>verbatim_recovery_document := Some rcd, r_identity_attributes := Some sample_attributes\<rparr>)
      sample_escrow (JObj [(''answer'', JStr ''red'')]) \<lparr>rs_status = 200, rs_headers = [], rs_body = b\<rparr>
      provider_env sample_world = (Inr (Recovery s), sample_world)
    \<and> recovery_state s = RRecoveryFinished \<and> r_core_secret s = Some (core_secret_json (core_secret sample_backup))"
proof -
  obtain rcd p where rcd: "truths_in (rcd_truth_metadata rcd) = {sample_truth}"
    "p \<in> set (rd_policies (rcd_recovery_document rcd))" "set (dp_uuids p) \<subseteq> {tm_uuid sample_truth}"
    "recoverable rcd (core_secret_json (core_secret sample_backup))" "share_of sample_truth"
    using sample_prepared by blast
  obtain uid where uid: "identity provider_env sample_backup ''https://a/'' uid"
    using provider_ready_sample by (auto simp: provider_ready_def)
  have "crock_of (tm_key_share sample_truth)" by (simp add: sample_truth_def)
  then obtain b where b: "decryptKeyShare (encodeCrock b) uid (Some ''red'') = Inr (tm_key_share sample_truth)"
    using keyshare_roundtrip [OF provider_env_ok(1) identity_crock [OF uid]] by blast
  have share: "share_salt sample_escrow (JObj [(''answer'', JStr ''red'')]) = Inr (Some ''red'')"
    by (simp add: share_salt_def sample_escrow_def js_truthy_def js_in_def js_keys_def arg_prop_def js_prop_def
        js_get_Cons as_string_def)
  let ?r = "empty_recovery\<lparr>verbatim_recovery_document := Some (rcd_recovery_document rcd),
    r_identity_attributes := Some sample_attributes\<rparr>"
  have "\<exists>s. truth_response ?r sample_escrow (JObj [(''answer'', JStr ''red'')]) \<lparr>rs_status = 200, rs_headers = [], rs_body = b\<rparr>
      provider_env sample_world = (Inr (Recovery s), sample_world)
    \<and> recovery_state s = RRecoveryFinished \<and> r_core_secret s = Some (core_secret_json (core_secret sample_backup))"
    by (rule solved_challenge_recovers [OF rcd(4) _ _ _ rcd(2) _ share uid _ _ _ _])
      (use rcd(1,3,5) b in \<open>auto simp: shares_agree_def empty_recovery_def or_empty_def sample_escrow_def js_get_Cons
        provider_at_def sample_backup_def\<close>)
  then show ?thesis by blast
qed

text \<open>C5: The body with which a policy document is uploaded is read back as that document by a later
  recovery with the same attributes and the same provider salt, whenever the provider answers its
  request for the policy with that body.\<close>

theorem uploaded_document_found:
  assumes "random_ok e" "zlib_ok e" "cache_ok e st (ur_cache ur)"
    and "upload_policy st rd pp ur e w = (Inr (Inr ur'), w')"
  shows "\<exists>rq body prov. w_sent w' = w_sent w @ [rq] \<and> rq_method rq = ''POST'' \<and> rq_body rq = BytesBody body
    \<and> provider_at st (pp_provider_url pp) = Inr prov \<and> cache_ok e st (ur_cache ur')
    \<and> (\<forall>r ps info u resp. js_get ps (pp_provider_url pp) = Some info \<longrightarrow> provider_salt info = provider_salt prov \<longrightarrow>
        r_identity_attributes r = identity_attributes st \<longrightarrow> selected_provider_url r = None \<longrightarrow>
        selected_version r = None \<longrightarrow> e_fetch e (w_sent u) (get_request (rq_path rq) (rq_base rq)) = Some resp \<longrightarrow>
        rs_status resp = 200 \<longrightarrow> rs_body resp = body \<longrightarrow>
        (\<exists>fd. fst (lookup_policy r ps (pp_provider_url pp) () e u) = Inr (Inl fd) \<and> fd_document fd = rd))"
  using assms by (rule upload_policy_found)

definition sample_document :: recovery_document where
  "sample_document = \<lparr>rd_secret_name = Some ''s'', rd_encrypted_core_secret = encodeCrock [1], rd_escrow_methods = [],
     rd_policies = []\<rparr>"

theorem uploaded_document_found_witness:
  "\<exists>ur' w' fd. upload_policy sample_backup sample_document \<lparr>pp_provider_url = ''https://a/''\<rparr>
      \<lparr>ur_uris = [], ur_requests = [], ur_success = [], ur_cache = []\<rparr> provider_env sample_world = (Inr (Inr ur'), w')
    \<and> fst (lookup_policy (empty_recovery\<lparr>r_identity_attributes := Some sample_attributes\<rparr>)
        [(''https://a/'', sample_provider)] ''https://a/'' () provider_env w') = Inr (Inl fd)
    \<and> fd_document fd = sample_document"
proof -
  let ?ur = "\<lparr>ur_uris = [], ur_requests = [], ur_success = [], ur_cache = []\<rparr>"
  let ?pp = "\<lparr>pp_provider_url = ''https://a/''\<rparr>"
  let ?r = "empty_recovery\<lparr>r_identity_attributes := Some sample_attributes\<rparr>"
  have "policy_payment_requests sample_backup = None" by (simp add: sample_backup_def empty_backup_def)
  then obtain ur' w' where up: "upload_policy sample_backup sample_document ?pp ?ur provider_env sample_world = (Inr (Inr ur'), w')"
    using upload_policy_total [OF provider_env_ok(1,3,2), of sample_backup ?pp ?ur, where rd = sample_document and w = sample_world]
      provider_ready_sample
    by (auto simp: nothing_asked_def)
  obtain rq body prov where rq: "w_sent w' = [rq]" "rq_method rq = ''POST''" "rq_body rq = BytesBody body"
    "provider_at sample_backup ''https://a/'' = Inr prov"
    and found: "\<forall>r ps info u resp. js_get ps ''https://a/'' = Some info \<longrightarrow> provider_salt info = provider_salt prov \<longrightarrow>
        r_identity_attributes r = identity_attributes sample_backup \<longrightarrow> selected_provider_url r = None \<longrightarrow>
        selected_version r = None \<longrightarrow> e_fetch provider_env (w_sent u) (get_request (rq_path rq) (rq_base rq)) = Some resp \<longrightarrow>
        rs_status resp = 200 \<longrightarrow> rs_body resp = body \<longrightarrow>
        (\<exists>fd. fst (lookup_policy r ps ''https://a/'' () provider_env u) = Inr (Inl fd) \<and> fd_document fd = sample_document)"
    using uploaded_document_found [OF provider_env_ok(1,2) _ up] by (auto simp: sample_world_def)
  have "prov = sample_provider" using rq(4) by (simp add: sample_backup_def provider_at_def js_get_Cons)
  moreover have "e_fetch provider_env (w_sent w') (get_request (rq_path rq) (rq_base rq))
      = Some \<lparr>rs_status = 200, rs_headers = [], rs_body = body\<rparr>"
    using rq by (simp add: provider_env_def get_request_def stored_body_def)
  ultimately have "\<exists>fd. fst (lookup_policy ?r [(''https://a/'', sample_provider)] ''https://a/'' () provider_env w') = Inr (Inl fd)
      \<and> fd_document fd = sample_document"
    using found [rule_format, of "[(''https://a/'', sample_provider)]" sample_provider ?r w'
        "\<lparr>rs_status = 200, rs_headers = [], rs_body = body\<rparr>"]
    by (simp add: js_get_Cons sample_backup_def empty_recovery_def)
  with up show ?thesis by blast
qed

text \<open>C9: The key share with which a truth is uploaded is recovered under the user's identifier at
  that provider and the same answer salt, from exactly the body that was posted.\<close>

theorem uploaded_share_found:
  assumes "random_ok e" "cache_ok e st (pd_cache due)" "share_of tm"
    and "upload_truth st (k, tm) due e w = (Inr (Inr due'), w')"
  shows "\<exists>rq m am encTruth share aslt uid. w_sent w' = w_sent w @ [rq]
    \<and> truth_member st tm = Inr m \<and> member_method st m = Inr am \<and> answer_salt am = Inr aslt
    \<and> rq_path rq = ''truth/'' @ tm_uuid tm \<and> rq_base rq = pm_provider m
    \<and> rq_body rq = TextBody (json_str (truth_upload_json encTruth (encodeCrock share) am))
    \<and> identity e st (pm_provider m) uid \<and> cache_ok e st (pd_cache due')
    \<and> decryptKeyShare (encodeCrock share) uid aslt = Inr (tm_key_share tm)"
  using assms by (rule upload_truth_share)

theorem uploaded_share_found_witness:
  "\<exists>due' w' rq uid share. upload_truth sample_backup ([], sample_truth) \<lparr>pd_uris = [], pd_secrets = [], pd_cache = []\<rparr>
      provider_env sample_world = (Inr (Inr due'), w') \<and> w_sent w' = [rq] \<and> rq_base rq = ''https://a/''
    \<and> identity provider_env sample_backup ''https://a/'' uid
    \<and> decryptKeyShare (encodeCrock share) uid (Some ''red'') = Inr (tm_key_share sample_truth)"
proof -
  let ?due = "\<lparr>pd_uris = [], pd_secrets = [], pd_cache = []\<rparr>"
  let ?m = "\<lparr>pm_authentication_method = 0, pm_provider = ''https://a/''\<rparr>"
  obtain w1 where t: "new_truth 0 0 provider_env sample_world = (Inr sample_truth, w1)"
    using sample_new_truth by blast
  have m: "truth_member sample_backup sample_truth = Inr ?m"
    by (simp add: truth_member_def sample_backup_def sample_truth_def policy_at_def)
  have am: "member_method sample_backup ?m = Inr \<lparr>am_type = ''question'', am_instructions = ''q'',
        am_challenge = encodeCrock (stringToBytes ''red''), am_mime_type = None\<rparr>"
    by (simp add: member_method_def sample_backup_def js_index_def)
  have mr: "member_ready provider_env sample_backup ?m"
    using provider_ready_sample am by (simp add: member_ready_def method_ready_def)
  have "policies sample_backup = Some (map Some [\<lparr>pol_methods = [?m]\<rparr>])" by (simp add: sample_backup_def)
  from new_truth_ready [OF provider_env_ok(1) this, of 0 0 sample_world] t mr
  have tr: "truth_ready provider_env sample_backup sample_truth" by auto
  then have sh: "share_of sample_truth" by (simp add: truth_ready_def)
  obtain due' w' where up: "upload_truth sample_backup ([], sample_truth) ?due provider_env sample_world = (Inr (Inr due'), w')"
    using upload_truth_total [OF provider_env_ok(1,3) tr, of ?due, where k = "[]" and w = sample_world]
    by (auto simp: nothing_due_def)
  from uploaded_share_found [OF provider_env_ok(1) _ sh up] up show ?thesis
    using m am by (auto simp: sample_world_def answer_salt_def decodeCrock_encodeCrock)
qed

text \<open>C17: For a security question, the response that the recovery sends for an answer is the truth
  value that the backup uploaded for it, under the same truth identifier and salt.\<close>

theorem question_response:
  assumes "am_type am = ''question''" "am_challenge am = encodeCrock (stringToBytes a)"
    and "es_type t = ''question''" "js_get fs ''answer'' = Some (JStr a)"
  shows "response_hash t (JObj fs) e w = getTruthValue am (es_uuid t) (es_truth_salt t) e w"
  using assms by (rule answer_response)

theorem question_response_witness:
  "response_hash \<lparr>es_url = ''https://a/'', es_type = ''question'', es_uuid = encodeCrock [1], es_truth_key = encodeCrock [2],
       es_truth_salt = encodeCrock [3], es_provider_salt = None, es_instructions = ''q''\<rparr> (JObj [(''answer'', JStr ''red'')])
     sample_env sample_world
   = getTruthValue \<lparr>am_type = ''question'', am_instructions = ''q'', am_challenge = encodeCrock (stringToBytes ''red''),
       am_mime_type = None\<rparr> (encodeCrock [1]) (encodeCrock [3]) sample_env sample_world"
  using question_response [of "\<lparr>am_type = ''question'', am_instructions = ''q'',
      am_challenge = encodeCrock (stringToBytes ''red''), am_mime_type = None\<rparr>" "''red''"
      "\<lparr>es_url = ''https://a/'', es_type = ''question'', es_uuid = encodeCrock [1], es_truth_key = encodeCrock [2],
       es_truth_salt = encodeCrock [3], es_provider_salt = None, es_instructions = ''q''\<rparr>" "[(''answer'', JStr ''red'')]"
      sample_env sample_world]
  by (simp add: js_get_Cons)

section \<open>The state machines\<close>

text \<open>C7: In every backup state that a session can reach: the continents are those offered, a chosen
  continent comes with its countries, a chosen country is listed on that continent and comes with
  its attributes, from the attributes on they are there, from the review on there are policies and
  policy providers, a state that waits for payments names some, and a finished state has no core
  secret and no payments but success details.\<close>

theorem backup_states_hold: "reachable e (Backup b) w \<Longrightarrow> backup_ok b"
  using reachable_ok by (fastforce simp: state_ok_def)

lemma sample_step:
  "\<exists>cos. reduceAction (Backup getBackupStartState) ''select_continent'' (JObj [(''continent'', JStr ''Europe'')])
      sample_env sample_world = (Inr (Backup (getBackupStartState\<lparr>backup_state := BCountrySelecting, countries := Some cos,
        selected_continent := Some ''Europe''\<rparr>)), sample_world)"
proof -
  have "''Europe'' \<in> ci_name ` set (getContinents True)"
    by (simp add: getContinents_def add_continent_def countriesList_def currenciesWithProvider_def providersList_def)
  then obtain cos where c: "getCountries ''Europe'' True = Inr cos"
    using getContinents_getCountries(2) by blast
  have "cos \<noteq> []" using getCountries_Inr [OF c] by simp
  moreover note c
  moreover have "codecForActionArgSelectContinent (JObj [(''continent'', JStr ''Europe'')]) None
      = Inr (JObj [(''continent'', JStr ''Europe'')])"
    by (simp add: codecForActionArgSelectContinent_def object_codec_def js_typeof_def codecForString_def Let_def
        js_prop_def js_get_Cons)
  ultimately show ?thesis
    by (intro exI [of _ cos]) (simp add: reduceAction_def getBackupStartState_def dispatch_def table_simps with_arg_def arg_prop_def js_prop_def
        as_string_def backupSelectContinent_def reducer_errors_def io_catch_def)
qed

theorem backup_states_hold_witness: "\<exists>cos. backup_ok (getBackupStartState\<lparr>backup_state := BCountrySelecting, countries := Some cos,
        selected_continent := Some ''Europe''\<rparr>)"
  using sample_step reachable.advance [OF reachable.start_backup] by (blast intro: backup_states_hold)

text \<open>C6: In every recovery state that a session can reach: the place is chosen as in the backup; from
  the choice of the secret on, the challenges shown and the policies are those of the downloaded
  document; every challenge marked as solved has its key share; and a finished state holds the
  core secret recovered from the key shares of all challenges of one policy of the document.\<close>

theorem recovery_states_hold: "reachable e (Recovery r) w \<Longrightarrow> recovery_ok r"
  using reachable_ok by (fastforce simp: state_ok_def)

theorem recovery_states_hold_witness: "recovery_ok getRecoveryStartState"
  by (rule recovery_states_hold [OF reachable.start_recovery [of sample_env sample_world]])

text \<open>C8: From a reachable state every successful action leads along the graph of its flow, or to an
  error state: \<open>reduceAction\<close> refines the two state machines.\<close>

theorem reducer_follows_graph:
  assumes "reachable e s w" "reduceAction s a args e w = (Inr s', w')"
  shows "follows_graph s a s'"
  using reachable_ok [OF assms(1)] assms(2) reduceAction_step by blast

theorem reducer_follows_graph_witness:
  "\<exists>cos. follows_graph (Backup getBackupStartState) ''select_continent''
     (Backup (getBackupStartState\<lparr>backup_state := BCountrySelecting, countries := Some cos, selected_continent := Some ''Europe''\<rparr>))"
  using sample_step by (blast intro: reducer_follows_graph [OF reachable.start_backup])

text \<open>C19: An action that the table of the state does not list changes nothing in the world and gives an
  error state that names the action and the state (or a failed validation for the names every
  JavaScript object inherits).\<close>

theorem unsupported_actions:
  assumes "a \<notin> set (actions_of s)"
  shows "reduceAction s a args e w =
    (Inr (Error (case s of Error _ \<Rightarrow> invalid_state
       | _ \<Rightarrow> if a \<in> set inherited_names then invalid_argument TypeError else unsupported_action a (state_name s))), w)"
  using assms by (rule reduceAction_unsupported)

theorem unsupported_actions_witness:
  "reduceAction (Backup getBackupStartState) ''next'' JUndef sample_env sample_world
     = (Inr (Error (unsupported_action ''next'' ''CONTINENT_SELECTING'')), sample_world)"
  using unsupported_actions [of "''next''" "Backup getBackupStartState" JUndef sample_env sample_world]
  by (simp add: actions_of_def getBackupStartState_def table_simps js_keys_def inherited_names_def state_name_def
      backup_state_name_def)

text \<open>C20: No exception of the kind \<open>ReducerError\<close> leaves \<open>reduceAction\<close>: it becomes an error state.\<close>

theorem reducer_errors_caught: "fst (reduceAction s a args e w) \<noteq> Inl (ReducerError d)"
  using reduceAction_no_reducer_error [of s a args e w _ "snd (reduceAction s a args e w)" d]
  by (cases "reduceAction s a args e w") auto

text \<open>C10: Every request that an action of the backup flow sends is one that the state and the action
  allow: configuration requests to the providers of the state while attributes are entered, a
  configuration request to the URL that the argument of \<open>add_provider\<close> names, and uploads only from
  the editing of the secret on; a failing action sends no others, and nothing sent is taken back.\<close>

theorem backup_requests_only: "within (sends (backup_requests b a args)) (reduceAction (Backup b) a args)"
  by (rule backup_sends)

text \<open>C11: Every request that an action of the recovery flow sends is a GET without a body, for a
  configuration, a policy or a truth.\<close>

theorem recovery_requests_only: "within (sends recovery_rq) (reduceAction (Recovery r) a args)"
  by (rule recovery_sends)

text \<open>C18: When the first provider of a recovery answers its configuration request with another status
  than 200, the download of the document throws a TypeError, whatever the other providers store.\<close>

theorem failed_provider_ends_recovery:
  assumes "js_keys (or_empty (r_authentication_providers st)) = u # us" "u \<notin> set us"
    and "e_url_ok e ''config'' u" "e_fetch e (w_sent w) (get_request ''config'' u) = Some resp" "rs_status resp \<noteq> 200"
    and "selected_provider_url st = None" "r_identity_attributes st = Some v" "canonicalJson v = Inr c"
  shows "fst (downloadPolicy st e w) = Inl TypeError"
  using assms by (rule failed_provider_aborts)

theorem failed_provider_ends_recovery_witness:
  "fst (downloadPolicy (empty_recovery\<lparr>r_identity_attributes := Some sample_attributes,
      r_authentication_providers := Some [(''https://a/'', Unchecked), (''https://b/'', sample_provider)]\<rparr>)
    (sample_env\<lparr>e_fetch := \<lambda>_ _. Some \<lparr>rs_status = 404, rs_headers = [], rs_body = []\<rparr>\<rparr>) sample_world) = Inl TypeError"
proof -
  obtain c where "canonicalJson sample_attributes = Inr c" using sample_canonical ..
  then show ?thesis
    by (intro failed_provider_ends_recovery [where v = sample_attributes and u = "''https://a/''" and us = "[''https://b/'']"
          and resp = "\<lparr>rs_status = 404, rs_headers = [], rs_body = []\<rparr>"])
      (simp_all add: empty_recovery_def or_empty_def js_keys_def sample_env_def)
qed

section \<open>Parts of the reducer\<close>

text \<open>C21: Selecting a listed country on the selected continent gives its attributes and, unchecked, the
  providers of the chosen currencies; only Slovakia, listed as \<open>sl\<close> but described as \<open>sk\<close>,
  throws a TypeError.\<close>

theorem listed_countries_selected:
  assumes "co \<in> set countriesList"
  shows "if co_code co = ''sl'' then selectCountry (Some (co_continent co)) (co_code co) curs = Inl TypeError
    else \<exists>sel. selectCountry (Some (co_continent co)) (co_code co) curs = Inr sel
      \<and> sel_selected_country sel = co_code co \<and> sel_currencies sel = curs
      \<and> js_get countryDetails (co_code co) = Some (sel_required_attributes sel)
      \<and> (\<forall>u. js_get (sel_authentication_providers sel) u =
            (if \<exists>p\<in>set providersList. pe_url p = u \<and> pe_currency p \<in> set curs then Some Unchecked else None))"
  using assms by (rule selectCountry_listed)

theorem listed_countries_selected_witness:
  "\<exists>co :: country. co_code co = ''sl'' \<and> selectCountry (Some (co_continent co)) ''sl'' [] = Inl TypeError"
proof -
  have "''sl'' \<in> set (map co_code countriesList)" by (simp add: country_codes)
  then obtain co where co: "co \<in> set countriesList" "co_code co = ''sl''" by auto
  from listed_countries_selected [OF co(1), of "[]"] co(2) show ?thesis by auto
qed

text \<open>C23: The signed block of a policy upload determines the hash of the body and, up to 32 bits, the
  purpose.\<close>

theorem signature_block_injective:
  "sp_build (sp_put b (buildSigPS n)) = sp_build (sp_put c (buildSigPS m)) \<longleftrightarrow> b = c \<and> n mod 2 ^ 32 = m mod 2 ^ 32"
proof -
  have "be32 n = be32 m" if "n mod 2 ^ 32 = m mod 2 ^ 32"
  proof -
    have "(word_of_nat n :: 32 word) = word_of_nat m"
      using that by (simp add: word_unat_eq_iff unat_of_nat take_bit_eq_mod)
    then show ?thesis by (simp add: be32_def)
  qed
  then show ?thesis using sp_build_inj [of b n c m] by (intro iffI) (simp_all add: sp_build_one)
qed

section \<open>The core secret and its encryption\<close>

text \<open>C12: Whatever random bytes are drawn, \<open>coreSecretEncrypt\<close> returns one wrapped master key per
  policy key, and \<open>coreSecretRecover\<close> gives the core secret back from the wrapped key and the
  policy key of every policy; it sends nothing and draws two random strings and one per policy.\<close>

theorem core_secret_recoverable:
  assumes "random_ok e" "\<forall>pk\<in>set pks. is_crock pk" "crock_of cs"
  shows "\<exists>r w'. coreSecretEncrypt pks cs e w = (Inr r, w')
    \<and> length (encMasterKeys r) = length pks
    \<and> (\<forall>i<length pks. coreSecretRecover (encMasterKeys r ! i) (pks ! i) (encCoreSecret r) = Inr cs)
    \<and> w_sent w' = w_sent w \<and> w_drawn w' = w_drawn w + 2 + length pks"
  using assms by (rule coreSecretEncrypt_ok)

theorem core_secret_recoverable_witness:
  "\<exists>r w'. coreSecretEncrypt [encodeCrock [1, 2], encodeCrock [3]] (encodeCrock [7, 8, 9]) sample_env sample_world = (Inr r, w')
    \<and> length (encMasterKeys r) = length [encodeCrock [1, 2], encodeCrock [3]]
    \<and> (\<forall>i<length [encodeCrock [1, 2], encodeCrock [3]].
         coreSecretRecover (encMasterKeys r ! i) ([encodeCrock [1, 2], encodeCrock [3]] ! i) (encCoreSecret r)
           = Inr (encodeCrock [7, 8, 9]))
    \<and> w_sent w' = w_sent sample_world
    \<and> w_drawn w' = w_drawn sample_world + 2 + length [encodeCrock [1, 2], encodeCrock [3]]"
  by (rule core_secret_recoverable) (simp_all add: random_ok_sample)

text \<open>C14: \<open>anastasisDecrypt\<close> under the same seed inverts \<open>anastasisEncrypt\<close> for every nonce, seed
  and plain text in Crockford coding, and the result is again in Crockford coding.\<close>

theorem anastasis_decrypt_encrypt:
  assumes "nonce_str n" "is_crock k" "crock_of p"
  shows "\<exists>c. anastasisEncrypt n k p s = Inr c \<and> crock_of c \<and> anastasisDecrypt k c s = Inr p"
  using assms by (rule anastasis_open_seal)

theorem anastasis_decrypt_encrypt_witness:
  "\<exists>c. anastasisEncrypt (encodeCrock (replicate 24 5)) (encodeCrock [1]) (encodeCrock [2, 3]) ''erd'' = Inr c
     \<and> crock_of c \<and> anastasisDecrypt (encodeCrock [1]) c ''erd'' = Inr (encodeCrock [2, 3])"
  by (rule anastasis_decrypt_encrypt) (auto simp: nonce_str_def nonceSize_def)

text \<open>C16: \<open>anastasisDecrypt\<close> accepts a cipher text exactly when its first 16 bytes after the nonce
  are the one-time authenticator of the rest; otherwise it throws "could not decrypt".\<close>

theorem anastasis_decrypt_authenticates:
  assumes "length nb = 24" "deriveKey k (encodeCrock nb) s = Inr key" "length key = 32"
  shows "anastasisDecrypt k (encodeCrock (nb @ b)) s =
    (if 16 \<le> length b \<and> take 16 b = box_mac (drop 16 b) nb key
     then Inr (encodeCrock (map2 (XOR) (drop 16 b) (box_pad (length b - 16) nb key)))
     else Inl (JsError ''could not decrypt''))"
  using assms by (rule anastasisDecrypt_eq)

theorem anastasis_decrypt_authenticates_witness:
  "\<exists>key. anastasisDecrypt (encodeCrock [1]) (encodeCrock (replicate 24 0 @ [1, 2])) ''erd'' =
    (if 16 \<le> length ([1, 2] :: bytes) \<and> take 16 [1, 2] = box_mac (drop 16 [1, 2]) (replicate 24 0) key
     then Inr (encodeCrock (map2 (XOR) (drop 16 [1, 2]) (box_pad (length ([1, 2] :: bytes) - 16) (replicate 24 0) key)))
     else Inl (JsError ''could not decrypt''))"
proof -
  obtain key where "deriveKey (encodeCrock [1]) (encodeCrock (replicate 24 0)) ''erd'' = Inr key" "length key = 32"
    using deriveKey_ok [of "encodeCrock [1]" "encodeCrock (replicate 24 0)" "''erd''"] by auto
  from anastasis_decrypt_authenticates [OF _ this, of "[1, 2]"] show ?thesis
    by (intro exI [of _ key]) simp
qed

text \<open>C15: With a 32-byte key and a 24-byte nonce, \<open>secretbox\<close> of nacl-fast.ts adds 16 bytes and
  \<open>secretbox_open\<close> returns the message.\<close>

theorem secretbox_roundtrip:
  assumes "length k = 32" "length n = 24"
  shows "\<exists>b. secretbox m n k = Inr b \<and> length b = length m + 16 \<and> secretbox_open b n k = Inr (Some m)"
  using assms by (rule secretbox_open_secretbox)

theorem secretbox_roundtrip_witness:
  "\<exists>b. secretbox [1, 2, 3] (replicate 24 9) (replicate 32 7) = Inr b \<and> length b = length ([1, 2, 3] :: bytes) + 16
     \<and> secretbox_open b (replicate 24 9) (replicate 32 7) = Inr (Some [1, 2, 3])"
  by (rule secretbox_roundtrip) simp_all

section \<open>The authenticator\<close>

text \<open>C27: The authenticator of the secret box, which multiplies 13-bit limbs with partial carries and
  reduces with masks, is Poly1305: the polynomial of the padded 16-byte blocks at the clamped half of
  the key modulo \<open>2 ^ 130 - 5\<close>, plus the other half, in 16 bytes.\<close>

theorem poly1305_is_spec:
  assumes "32 \<le> length key"
  shows "crypto_onetimeauth m key = poly1305_spec m key"
  using assms by (rule crypto_onetimeauth_spec)

theorem poly1305_is_spec_witness:
  "32 \<le> length (replicate 32 (7 :: 8 word)) \<and> crypto_onetimeauth [1, 2, 3] (replicate 32 7) = poly1305_spec [1, 2, 3] (replicate 32 7)"
  using poly1305_is_spec [of "replicate 32 7" "[1, 2, 3]"] by simp

section \<open>Ed25519 and X25519\<close>

text \<open>C24: With a secret key of 64 bytes \<open>sign_detached\<close> gives the Ed25519 signature of RFC 8032:
  \<open>ed_sign_spec\<close> computes it with integers modulo \<open>2 ^ 255 - 19\<close> and modulo the group order, where the
  code works on sixteen limbs in doubles.  A key of another length throws.\<close>

theorem ed25519_signs_rfc8032:
  "sign_detached m sk = (if length sk = 64 then Inr (ed_sign_spec m sk) else Inl (JsError ''bad secret key size''))"
  by (simp add: sign_detached_value) (simp add: sign_detached_def nacl_sign_def)

text \<open>C25: \<open>sign_detached_verify\<close> decides the equation of RFC 8032 for the decompressed public key: the
  encoding of \<open>S * B - k * A\<close> is the first half of the signature.  A public key that is no point of the
  curve is refused, signatures and keys of a wrong length throw.\<close>

theorem ed25519_verifies_rfc8032:
  "sign_detached_verify m sig pk =
     (if length sig \<noteq> 64 then Inl (JsError ''bad signature size'')
      else if length pk \<noteq> 32 then Inl (JsError ''bad public key size'')
      else Inr (ed_verify_spec m sig pk))"
  by (simp add: sign_detached_verify_value) (simp add: sign_detached_verify_def)

text \<open>C26: \<open>scalarMult\<close> is the function X25519 of RFC 7748, on clamped scalars and with the top bit of
  the coordinate ignored.  Arguments that do not have 32 bytes throw.\<close>

theorem x25519_is_rfc7748:
  "scalarMult n p =
     (if length n \<noteq> 32 then Inl (JsError ''bad n size'') else if length p \<noteq> 32 then Inl (JsError ''bad p size'')
      else Inr (x25519_spec n p))"
  by (simp add: scalarMult_def crypto_scalarmult_value)

text \<open>C28: The points that the code computes stay on the curve: the multiples of the base point, the
  points it decompresses from public keys, and the sums of the two that a verification compares.\<close>

theorem points_on_curve:
  assumes "length pk = 32" "unpackneg pk = Some q" "32 \<le> length s" "32 \<le> length h"
  shows "on_curve (pt_res q) \<and> on_curve (pt_res (ed_scalarbase s))
    \<and> on_curve (pt_res (ed_add (ed_scalarmult q h) (ed_scalarbase s)))"
proof -
  have q: "pt_red q" "r_unpackneg pk = Some (pt_res q)"
    using unpackneg_value [OF assms(1)] assms(2) by (metis, simp add: assms(2) flip: unpackneg_value(1) [OF assms(1)])
  note c = unpackneg_on_curve [OF q(2)]
  note b = ed_scalarbase_value [OF assms(3)] and m = ed_scalarmult_value [OF q(1) assms(4)]
  have d: "on_curve (pt_res (ed_scalarbase s))" using b r_mul_on_curve [OF on_curve_base] by simp
  moreover have "on_curve (pt_res (ed_add (ed_scalarmult q h) (ed_scalarbase s)))"
    unfolding ed_add_value(1) [OF m(2) conjunct2 [OF b]] m(1) by (intro r_add_on_curve r_mul_on_curve c d)
  ultimately show ?thesis using c by blast
qed

theorem points_on_curve_witness:
  "\<exists>q. unpackneg (1 # replicate 31 0) = Some q \<and> on_curve (pt_res q)
    \<and> on_curve (pt_res (ed_add (ed_scalarmult q (replicate 32 2)) (ed_scalarbase (replicate 32 1))))"
proof -
  obtain q where q: "unpackneg (1 # replicate 31 0) = Some q"
    using unpackneg_value(1) [of "1 # replicate 31 0"] unpackneg_neutral by auto
  from points_on_curve [OF _ q, of "replicate 32 1" "replicate 32 2"] q show ?thesis by (intro exI [of _ q]) simp
qed

text \<open>C22: The upload of a policy document sends one request, under the path of an account: the public
  key of an Ed25519 key pair.  It carries the signature, made with that key pair, of the purpose
  1400 and the SHA-512 hash of the body that is sent.\<close>

theorem policy_upload_signed:
  assumes "upload_policy st rd pp ur e w = (Inr (Inr ur'), w')"
  shows "\<exists>rq k body. w_sent w' = w_sent w @ [rq] \<and> rq_body rq = BytesBody body \<and> length k = 32
    \<and> rq_path rq = ''policy/'' @ encodeCrock (ed_public_spec k)
    \<and> (''Anastasis-Policy-Signature'',
        encodeCrock (ed_sign_spec (be32 72 @ be32 1400 @ sha512_spec body) (k @ ed_public_spec k))) \<in> set (rq_headers rq)"
  using upload_policy_signed [OF assms] unfolding signed_by_def by blast

theorem policy_upload_signed_witness:
  "\<exists>(w' :: world) rq k body. w_sent w' = [rq] \<and> rq_body rq = BytesBody body \<and> length k = 32
    \<and> rq_path rq = ''policy/'' @ encodeCrock (ed_public_spec k)"
proof -
  let ?ur = "\<lparr>ur_uris = [], ur_requests = [], ur_success = [], ur_cache = []\<rparr>"
  have "nothing_asked provider_env sample_backup ?ur" by (simp add: nothing_asked_def cache_ok_def js_get_def)
  moreover have "policy_payment_requests sample_backup = None" by (simp add: sample_backup_def empty_backup_def)
  ultimately obtain ur' w' where "upload_policy sample_backup undefined \<lparr>pp_provider_url = ''https://a/''\<rparr> ?ur provider_env sample_world
      = (Inr (Inr ur'), w')"
    using upload_policy_total [of provider_env sample_backup "\<lparr>pp_provider_url = ''https://a/''\<rparr>" ?ur undefined sample_world]
      provider_env_ok provider_ready_sample by auto
  from policy_upload_signed [OF this] obtain rq k body where r: "w_sent w' = w_sent sample_world @ [rq]"
      "rq_body rq = BytesBody body" "length k = 32" "rq_path rq = ''policy/'' @ encodeCrock (ed_public_spec k)"
    by blast
  show ?thesis by (intro exI [of _ w'] exI [of _ rq] exI [of _ k] exI [of _ body]) (use r in \<open>simp add: sample_world_def\<close>)
qed

section \<open>Hashes and key derivation\<close>

text \<open>C29: \<open>crypto_hash\<close>, which computes SHA-512 on pairs of 32-bit words with 16-bit column sums, is
  the function of FIPS 180-4 on 64-bit words, padding included.  The specification takes its
  constants from the cube and square roots of the first primes, not from the tables of the code.\<close>

theorem sha512_is_fips: "crypto_hash m = sha512_spec m"
  by (rule crypto_hash_eq)

text \<open>C31: The incremental \<open>HashState\<close>, fed any chunks in turn, finishes with the hash of their
  concatenation.\<close>

theorem hash_state_chunks: "HashState_finish (fold HashState_update ms HashState_new) = nacl_hash (concat ms)"
  by (rule HashState_hash)

text \<open>C33: \<open>sha256\<close> returns the SHA-256 of FIPS 180-4 for every message; the constants of the
  specification are computed from the cube and square roots of the first primes.\<close>

theorem sha256_is_fips: "Sha256.sha256 m = Inr (sha256_spec m)"
  by (rule sha256_eq)

text \<open>C34: The HMAC object of sha256.ts with its saved states and the generic \<open>hmac\<close> of kdf.ts over
  \<open>sha256\<close> compute the same code for every key and message.\<close>

theorem hmac_implementations_agree: "hmacSha256 key m = sha256_hmac key m"
  by (rule hmac_objects_agree)

text \<open>C32: \<open>kdf\<close> is HKDF of RFC 5869 with HMAC-SHA512 to extract and HMAC-SHA256 to expand, cut to
  the requested length; a missing salt is 64 zero bytes.\<close>

theorem kdf_is_hkdf:
  "kdf n k slt inf0 = Inr (take n (hkdf_stream (hmac512_spec (case slt of Some s \<Rightarrow> s | None \<Rightarrow> replicate 64 0) k)
     (case inf0 of Some i \<Rightarrow> i | None \<Rightarrow> []) ((n + 31) div 32)))"
  by (rule kdf_eq)

section \<open>Codings\<close>

text \<open>C35: \<open>decodeCrock\<close> inverts \<open>encodeCrock\<close> on every byte string.\<close>

theorem crock_roundtrip: "decodeCrock (encodeCrock bs) = Inr bs"
  by (rule decodeCrock_encodeCrock)

text \<open>C36: \<open>decodeCrock\<close> throws exactly on a character outside the alphabet and its aliases, which
  \<open>crock_groups\<close> lists digit by digit, and otherwise returns the whole bytes of the bit string of the
  characters' digits, five bits each.\<close>

theorem crock_decoding:
  "decodeCrock s = (if \<forall>c\<in>set s. crock_digit c \<noteq> None
     then Inr (map byte (chunk8 (crock_bits (map (\<lambda>c. the (crock_digit c)) s))))
     else Inl EncodingError)"
  by (rule decodeCrock_digits)

theorem crock_decoding_witness:
  "decodeCrock ''9lO'' = Inr (map byte (chunk8 (crock_bits [9, 1, 0])))"
proof -
  have "map crock_digit ''9lO'' = [Some 9, Some 1, Some 0]" by code_simp
  then show ?thesis using crock_decoding [of "''9lO''"] by simp
qed

text \<open>C37: The canonical JSON of an object, from which the user identifier is derived, does not
  depend on the order in which its properties were added.\<close>

theorem canonical_json_order_free:
  assumes "mset fs = mset gs" "inj_on (\<lambda>f. utf16 (fst f)) (set fs)" "json_ok (JObj fs)"
  shows "canonicalJson (JObj fs) = canonicalJson (JObj gs)"
  using assms by (rule canonicalJson_order)

theorem canonical_json_order_free_witness:
  "canonicalJson (JObj [(''b'', JNum 1), (''a'', JStr ''x'')]) = canonicalJson (JObj [(''a'', JStr ''x''), (''b'', JNum 1)])"
  by (rule canonical_json_order_free) (simp_all add: inj_on_def)

section \<open>Amounts and times\<close>

text \<open>C39: \<open>Amounts.add\<close> over one currency is exact below the maximum amount and returns the
  saturated maximum from it on; it never wraps and never fails.\<close>

theorem amounts_add_saturates:
  assumes "\<forall>x\<in>set xs. am_currency x = am_currency a"
  shows "\<exists>r. amounts_add a xs = Inr r \<and>
    exact_or_max (am_currency a) (Amounts.units a + sum_list (map Amounts.units xs)) r"
  using assms by (rule amounts_add_exact)

theorem amounts_add_saturates_witness:
  "\<exists>r. amounts_add (mkAmount ''EUR'' 1 60000000) [mkAmount ''EUR'' 2 50000000] = Inr r \<and>
    exact_or_max (am_currency (mkAmount ''EUR'' 1 60000000))
      (Amounts.units (mkAmount ''EUR'' 1 60000000) + sum_list (map Amounts.units [mkAmount ''EUR'' 2 50000000])) r"
  by (rule amounts_add_saturates) simp

text \<open>C40: The loop of \<open>Amounts.mult\<close> by repeated doubling computes the product of the amount and the
  factor, exact below the maximum amount and saturated from it on.\<close>

theorem amounts_mult_product:
  assumes "am_currency acc = c" "am_currency x = c" "0 < n"
  shows "\<exists>r. mult_loop acc x n = Inr r \<and> exact_or_max c (Amounts.units acc + n * Amounts.units x) r"
  using assms by (rule mult_loop_exact)

theorem amounts_mult_product_witness:
  "\<exists>r. mult_loop (getZero ''EUR'') (mkAmount ''EUR'' 2 50000000) 5 = Inr r
     \<and> exact_or_max ''EUR'' (Amounts.units (getZero ''EUR'') + 5 * Amounts.units (mkAmount ''EUR'' 2 50000000)) r"
  by (rule amounts_mult_product) (simp_all add: getZero_def)

text \<open>C38: \<open>Amounts.parse\<close> reads back every well-formed amount that \<open>Amounts.stringify\<close> prints.\<close>

theorem amounts_print_parse:
  assumes "wf_amount a" "wf_currency (am_currency a)"
  shows "amounts_parse (am_currency a @ '':'' @ stringifyValue a 0) = Some a"
  using assms by (rule amounts_parse_stringify)

theorem amounts_print_parse_witness:
  "amounts_parse (am_currency (mkAmount ''EUR'' 3 10000000) @ '':'' @ stringifyValue (mkAmount ''EUR'' 3 10000000) 0)
     = Some (mkAmount ''EUR'' 3 10000000)"
  by (rule amounts_print_parse)
    (simp_all add: wf_amount_def amountFractionalBase_def amountMaxValue_def wf_currency_def is_currency_char_def)

section \<open>The suggested policies\<close>

text \<open>C13: For a non-empty list of authentication methods \<open>suggestPolicies\<close> returns one policy for every
  selection of methods that has a feasible assignment of providers, in the order of the selections:
  the best feasible assignment among the first 10000, with respect to the policies before it (more
  providers, or as many and fewer duplicated challenges).  The selections are the first 200 of the
  choices of half the methods plus one, at most four; the policy providers are all the providers.\<close>

theorem suggested_policies:
  assumes "methods \<noteq> []"
  shows "\<exists>pols. suggestPolicies methods providers = Inr \<lparr>psr_policies = pols,
        psr_policy_providers = map (\<lambda>x. \<lparr>pp_provider_url = pi_url x\<rparr>) providers\<rparr>
    \<and> length pols = length (filter (has_suggestion methods providers) (selections_for methods))
    \<and> (\<forall>i<length pols. best_suggestion (take i pols) methods providers
          (filter (has_suggestion methods providers) (selections_for methods) ! i) (pols ! i))"
  using assms by (rule suggestPolicies_ok)

definition sample_methods :: "auth_method list" where
  "sample_methods =
     [\<lparr>am_type = ''question'', am_instructions = ''q'', am_challenge = encodeCrock [1], am_mime_type = None\<rparr>,
      \<lparr>am_type = ''email'', am_instructions = ''e'', am_challenge = encodeCrock [2], am_mime_type = None\<rparr>]"

definition sample_providers :: "provider_info list" where
  "sample_providers =
     [\<lparr>pi_url = ''https://a/'', pi_methodCost = [(''question'', Some ''EUR:1''), (''email'', Some ''EUR:1'')]\<rparr>]"

theorem suggested_policies_witness:
  "\<exists>pols. suggestPolicies sample_methods sample_providers = Inr \<lparr>psr_policies = pols,
        psr_policy_providers = map (\<lambda>x. \<lparr>pp_provider_url = pi_url x\<rparr>) sample_providers\<rparr>
    \<and> length pols = length (filter (has_suggestion sample_methods sample_providers) (selections_for sample_methods))
    \<and> (\<forall>i<length pols. best_suggestion (take i pols) sample_methods sample_providers
          (filter (has_suggestion sample_methods sample_providers) (selections_for sample_methods) ! i) (pols ! i))"
  by (rule suggested_policies) (simp add: sample_methods_def)

text \<open>C30: When all provider mappings of a selection can be evaluated, \<open>assignProviders\<close> returns a
  feasible mapping whenever there is one, and no feasible mapping is better (more providers, or
  as many and fewer duplicated challenges).\<close>

theorem assignment_optimal:
  assumes "\<forall>p\<in>set pols. policy_indices_ok methods p" "selection_ok methods sel"
    and "length providers ^ length sel \<le> maxPolicyEvaluations"
    and "length ps = length sel" "set ps \<subseteq> {..<length providers}" "feasible methods providers sel ps"
  shows "\<exists>pol qs. assignProviders pols methods providers sel = Inr (Some pol)
    \<and> pol = mapping_policy providers sel qs \<and> feasible methods providers sel qs
    \<and> \<not> better pols (length methods) providers sel ps qs"
  using assms by (rule assignProviders_all)

theorem assignment_optimal_witness:
  "\<exists>pol qs. assignProviders [] sample_methods sample_providers [0, 1] = Inr (Some pol)
    \<and> pol = mapping_policy sample_providers [0, 1] qs \<and> feasible sample_methods sample_providers [0, 1] qs
    \<and> \<not> better [] (length sample_methods) sample_providers [0, 1] [0, 0] qs"
  by (rule assignment_optimal)
    (simp_all add: sample_methods_def sample_providers_def selection_ok_def maxPolicyEvaluations_def
       feasible_def has_cost_def js_get_def)

end
